(* ===== verification/Prelude.thy ===== *)
theory Prelude
  imports Main "HOL-Library.Word" "HOL-Library.Monad_Syntax"
begin

text \<open>
  What the components share: names for the machine integers of the C++ sources, the
  collections of rewrite rules that component proofs draw on, a partiality idiom for
  operations whose C++ text would dereference a dead pointer or fail an \<open>assert\<close>, and
  generic facts on words and lists.

  Undefined behaviour, a failed \<open>assert\<close>, an exception of \<open>vector::at\<close> and
  \<open>std::abort\<close> are all the value \<^const>\<open>None\<close>; a theorem that an operation
  returns is therefore a statement that the result is \<^const>\<open>Some\<close>.
\<close>

unbundle bit_operations_syntax

type_synonym u8 = "8 word"
type_synonym u16 = "16 word"
type_synonym u32 = "32 word"
type_synonym u64 = "64 word"

named_theorems unat_simps \<open>reading word comparisons and sums without wrap-around on nat\<close>

subsection \<open>Checks\<close>

definition check :: "bool \<Rightarrow> unit option" where
  "check b = (if b then Some () else None)"

lemma check_simps [simp]: "check True = Some ()" "check False = None"
  by (simp_all add: check_def)

lemma check_Some [simp]: "check b = Some u \<longleftrightarrow> b"
  by (simp add: check_def)

lemma bind_check: "check b \<bind> f = (if b then f () else None)"
  by (simp add: check_def)

subsection \<open>Indexing\<close>

text \<open>Reading and writing a vector or bit set at an index; outside its bounds this is \<^const>\<open>None\<close>.\<close>

definition lat :: "'a list \<Rightarrow> nat \<Rightarrow> 'a option" where
  "lat v i = (if i < length v then Some (v ! i) else None)"

definition lset :: "'a list \<Rightarrow> nat \<Rightarrow> 'a \<Rightarrow> 'a list option" where
  "lset v i x = (if i < length v then Some (v[i := x]) else None)"

abbreviation vat :: "'a list \<Rightarrow> u32 \<Rightarrow> 'a option" where
  "vat v i \<equiv> lat v (unat i)"

abbreviation vset :: "'a list \<Rightarrow> u32 \<Rightarrow> 'a \<Rightarrow> 'a list option" where
  "vset v i \<equiv> lset v (unat i)"

lemma lat_Some [simp]: "i < length v \<Longrightarrow> lat v i = Some (v ! i)"
  and lset_Some [simp]: "i < length v \<Longrightarrow> lset v i x = Some (v[i := x])"
  by (simp_all add: lat_def lset_def)

lemma lat_eq_Some: "lat v i = Some x \<longleftrightarrow> i < length v \<and> v ! i = x"
  and lset_eq_Some: "lset v i x = Some v' \<longleftrightarrow> i < length v \<and> v' = v[i := x]"
  by (auto simp: lat_def lset_def)

subsection \<open>Words read as natural numbers\<close>

lemma unat_add_exact [unat_simps]:
  "unat (a :: u64) + unat b < 2 ^ 64 \<Longrightarrow> unat (a + b) = unat a + unat b"
  by (simp add: unat_word_ariths)

lemma unat_sub_exact [unat_simps]: "b \<le> a \<Longrightarrow> unat (a - b) = unat a - unat b"
  for a b :: "'a::len word"
  by (simp add: unat_sub)

lemma unat_ucast_u32 [simp]: "unat (ucast (x :: u32) :: u64) = unat x"
  by transfer (simp add: take_bit_nat_def take_bit_int_def)

lemma unat_u32_less: "unat (w :: u32) < 2 ^ 32" and unat_u64_less: "unat (v :: u64) < 2 ^ 64"
  using unsigned_less [of w] unsigned_less [of v] by simp_all

lemmas [unat_simps] = word_le_nat_alt word_less_nat_alt

lemma unat_take_bit: "unat (take_bit k x) = unat x mod 2 ^ k" for x :: "'a::len word"
  by (simp add: unsigned_take_bit_eq flip: take_bit_eq_mod)

lemma and_not_mask: "x AND NOT (2 ^ k - 1) = x - take_bit k x" for x :: "'a::len word"
proof -
  have "x AND NOT (mask k) = x AND NOT (take_bit k x)"
    by (rule bit_eqI) (auto simp: bit_simps)
  also have "\<dots> = x - take_bit k x"
    by (rule disjunctive_diff_eq_and_not [symmetric]) (rule bit_eqI, auto simp: bit_simps)
  finally show ?thesis by (simp add: mask_eq_exp_minus_1)
qed

lemma pow2_and_pred: "(2 ^ k :: 'a::len word) AND (2 ^ k - 1) = 0"
proof -
  have "(2 ^ k :: 'a word) AND mask k = 0" by (rule bit_eqI) (auto simp: bit_simps)
  then show ?thesis by (simp add: mask_eq_exp_minus_1)
qed

lemma unat_pow2: "k < LENGTH('a) \<Longrightarrow> unat (2 ^ k :: 'a::len word) = 2 ^ k"
proof -
  assume k: "k < LENGTH('a)"
  have "unat (of_nat (2 ^ k) :: 'a word) = take_bit LENGTH('a) (2 ^ k)" by (simp only: unsigned_of_nat) simp
  also have "\<dots> = 2 ^ k" using k by (intro take_bit_nat_eq_self power_strict_increasing) simp_all
  finally show ?thesis by simp
qed

lemma ucast_pow2_u32: "k < 32 \<Longrightarrow> (ucast (2 ^ k :: u32) :: u64) = 2 ^ k"
  by (simp add: word_unat_eq_iff unat_pow2)

subsection \<open>Rounding up\<close>

definition round_up :: "nat \<Rightarrow> nat \<Rightarrow> nat" where
  "round_up al n = (n + al - 1) div al * al"

lemma round_up_dvd [simp]: "al dvd round_up al n"
  by (simp add: round_up_def)

lemma round_up_bounds:
  assumes "0 < al"
  shows "n \<le> round_up al n" and "round_up al n < n + al"
proof -
  have "round_up al n + (n + al - 1) mod al = n + al - 1" by (simp add: round_up_def)
  moreover have "(n + al - 1) mod al < al" using assms by simp
  ultimately show "n \<le> round_up al n" "round_up al n < n + al" using assms by linarith+
qed

lemma round_up_least: "0 < al \<Longrightarrow> al dvd m \<Longrightarrow> n \<le> m \<Longrightarrow> round_up al n \<le> m"
proof (rule ccontr)
  assume a: "0 < al" "al dvd m" "n \<le> m" "\<not> round_up al n \<le> m"
  then have "al dvd round_up al n - m" "0 < round_up al n - m" by (simp_all add: dvd_diff_nat)
  then have "al \<le> round_up al n - m" by (rule dvd_imp_le)
  with round_up_bounds(2) [OF a(1), of n] a(3,4) show False by linarith
qed

lemma round_up_round_up:
  assumes "0 < al" "al dvd bl" "0 < bl"
  shows "round_up bl (round_up al n) = round_up bl n"
proof (rule antisym)
  have "round_up al n \<le> round_up bl n"
    using assms by (intro round_up_least round_up_bounds) (auto intro: dvd_trans)
  then show "round_up bl (round_up al n) \<le> round_up bl n"
    using assms(3) round_up_least [of bl "round_up bl n" "round_up al n"] by simp
  have "n \<le> round_up bl (round_up al n)"
    using assms(1,3) by (meson round_up_bounds(1) le_trans)
  then show "round_up bl n \<le> round_up bl (round_up al n)"
    using assms(3) round_up_least [of bl "round_up bl (round_up al n)" n] by simp
qed

subsection \<open>Insertion behind a prefix\<close>

text \<open>Where a list walk that stops at the first element without \<open>P\<close> inserts.\<close>

definition insert_while :: "('a \<Rightarrow> bool) \<Rightarrow> 'a \<Rightarrow> 'a list \<Rightarrow> 'a list" where
  "insert_while P b xs = takeWhile P xs @ b # dropWhile P xs"

lemma set_insert_while [simp]: "set (insert_while P b xs) = insert b (set xs)"
proof -
  have "set xs = set (takeWhile P xs) \<union> set (dropWhile P xs)"
    by (metis set_append takeWhile_dropWhile_id)
  then show ?thesis by (auto simp: insert_while_def)
qed

lemma distinct_insert_while [simp]: "distinct (insert_while P b xs) \<longleftrightarrow> distinct xs \<and> b \<notin> set xs"
proof -
  have "distinct (ys @ b # zs) \<longleftrightarrow> distinct (ys @ zs) \<and> b \<notin> set (ys @ zs)" for ys zs
    by auto
  then show ?thesis by (simp only: insert_while_def takeWhile_dropWhile_id)
qed

lemma sorted_insert_while:
  assumes "sorted_wrt R xs" and "\<And>x y. R x y \<Longrightarrow> P y \<Longrightarrow> P x"
    and "\<And>x. x \<in> set xs \<Longrightarrow> P x \<Longrightarrow> R x b" and "\<And>x. x \<in> set xs \<Longrightarrow> \<not> P x \<Longrightarrow> R b x"
  shows "sorted_wrt R (insert_while P b xs)"
  using assms
proof (induction xs)
  case Nil
  then show ?case by (simp add: insert_while_def)
next
  case (Cons x xs)
  show ?case
  proof (cases "P x")
    case True
    with Cons have "sorted_wrt R (insert_while P b xs)" by simp
    with True Cons.prems have "sorted_wrt R (x # insert_while P b xs)" by simp
    with True show ?thesis by (simp add: insert_while_def)
  next
    case False
    with Cons.prems have "\<forall>y \<in> set xs. \<not> P y" by auto
    with False Cons.prems show ?thesis by (simp add: insert_while_def)
  qed
qed

end
