(* ===== verification/Dll.thy ===== *)
theory Dll
  imports Prelude
begin

text \<open>
  Intrusive doubly linked lists over pointer fields that are functions of the node: paths,
  and the effect of linking and unlinking a node.
\<close>

subsection \<open>Paths\<close>

text \<open>
  \<open>dpath n p q h xs q' e\<close>: following the forward pointers \<open>n\<close> from \<open>h\<close> visits
  exactly \<open>xs\<close> and stops at \<open>e\<close>, every visited node's back pointer \<open>p\<close> is its
  predecessor, the predecessor of the first node is \<open>q\<close> and the last node visited is
  \<open>q'\<close>.
\<close>

fun dpath :: "('a \<Rightarrow> 'a option) \<Rightarrow> ('a \<Rightarrow> 'a option) \<Rightarrow> 'a option \<Rightarrow> 'a option \<Rightarrow> 'a list
    \<Rightarrow> 'a option \<Rightarrow> 'a option \<Rightarrow> bool" where
  "dpath n p q h [] q' e \<longleftrightarrow> q' = q \<and> e = h"
| "dpath n p q h (x # xs) q' e \<longleftrightarrow> h = Some x \<and> p x = q \<and> dpath n p (Some x) (n x) xs q' e"

abbreviation dll :: "('a \<Rightarrow> 'a option) \<Rightarrow> ('a \<Rightarrow> 'a option) \<Rightarrow> 'a option \<Rightarrow> 'a list \<Rightarrow> bool" where
  "dll n p h xs \<equiv> (\<exists>q'. dpath n p None h xs q' None)"

lemma dpath_append [simp]:
  "dpath n p q h (xs @ ys) q' e \<longleftrightarrow> (\<exists>r m. dpath n p q h xs r m \<and> dpath n p r m ys q' e)"
  by (induction xs arbitrary: q h) auto

lemma dpath_upd_next [simp]:
  "x \<notin> set xs \<Longrightarrow> dpath (n(x := v)) p q h xs q' e = dpath n p q h xs q' e"
  by (induction xs arbitrary: q h) auto

lemma dpath_upd_prev [simp]:
  "x \<notin> set xs \<Longrightarrow> dpath n (p(x := v)) q h xs q' e = dpath n p q h xs q' e"
  by (induction xs arbitrary: q h) auto

lemma dpath_end: "dpath n p q h xs q' e \<Longrightarrow> q' = (if xs = [] then q else Some (last xs))"
  by (induction xs arbitrary: q h) auto

lemma dpath_start: "dpath n p q h xs q' e \<Longrightarrow> h = (if xs = [] then e else Some (hd xs))"
  by (cases xs) auto

text \<open>Moving the end of a path: only the last node's forward pointer changes.\<close>

lemma dpath_snoc_end:
  assumes "dpath n p q h (xs @ [x]) q' e" and "x \<notin> set xs"
  shows "dpath (n(x := e')) p q h (xs @ [x]) q' e'"
  using assms by auto

text \<open>Moving the start of a path: only the first node's back pointer changes.\<close>

lemma dpath_Cons_start:
  assumes "dpath n p q h (x # xs) q' e" and "x \<notin> set xs"
  shows "dpath n (p(x := r)) r h (x # xs) q' e"
  using assms by auto

subsection \<open>Linking and unlinking\<close>

text \<open>
  Linking and unlinking a node of an intrusive doubly linked list, as pure functions of the
  head pointer and the two pointer fields. Every list of the program that is linked through
  its nodes performs exactly these field updates.
\<close>

definition dll_unlink :: "'a option \<Rightarrow> ('a \<Rightarrow> 'a option) \<Rightarrow> ('a \<Rightarrow> 'a option) \<Rightarrow> 'a
    \<Rightarrow> 'a option \<times> ('a \<Rightarrow> 'a option) \<times> ('a \<Rightarrow> 'a option)" where
  "dll_unlink h n p b =
     ((if p b = None then n b else h),
      (case p b of Some u \<Rightarrow> n(u := n b) | None \<Rightarrow> n)(b := None),
      (case n b of Some u \<Rightarrow> p(u := p b) | None \<Rightarrow> p)(b := None))"

definition dll_link :: "'a option \<Rightarrow> ('a \<Rightarrow> 'a option) \<Rightarrow> ('a \<Rightarrow> 'a option) \<Rightarrow> 'a \<Rightarrow> 'a option \<Rightarrow> 'a option
    \<Rightarrow> 'a option \<times> ('a \<Rightarrow> 'a option) \<times> ('a \<Rightarrow> 'a option)" where
  "dll_link h n p b q c =
     ((if q = None then Some b else h),
      (case q of Some u \<Rightarrow> (n(b := c))(u := Some b) | None \<Rightarrow> n(b := c)),
      (case c of Some v \<Rightarrow> (p(b := q))(v := Some b) | None \<Rightarrow> p(b := q)))"

lemma dll_unlink_path:
  assumes "dll n p h (xs @ b # ys)" and "distinct (xs @ b # ys)"
    and "dll_unlink h n p b = (h', n', p')"
  shows "dll n' p' h' (xs @ ys)"
proof (cases xs rule: rev_cases)
  case Nil
  then show ?thesis using assms by (cases ys) (auto simp: dll_unlink_def)
next
  case (snoc zs z)
  then show ?thesis using assms by (cases ys) (auto simp: dll_unlink_def)
qed

lemma dll_unlink_frame:
  assumes "dll n p h (xs @ b # ys)" and "distinct (xs @ b # ys)"
    and "dll_unlink h n p b = (h', n', p')"
  shows "n' b = None" "p' b = None"
    and "x \<notin> set (xs @ b # ys) \<Longrightarrow> n' x = n x" "x \<notin> set (xs @ b # ys) \<Longrightarrow> p' x = p x"
proof -
  show "n' b = None" "p' b = None" using assms(3) by (auto simp: dll_unlink_def)
  assume x: "x \<notin> set (xs @ b # ys)"
  have "p b = (if xs = [] then None else Some (last xs))"
    and "n b = (if ys = [] then None else Some (hd ys))"
    using assms(1) by (auto dest: dpath_start dpath_end)
  with x assms(3) show "n' x = n x" "p' x = p x" by (auto simp: dll_unlink_def)
qed

lemma dll_link_path:
  assumes "dpath n p None h xs q c" and "dpath n p q c ys q' None"
    and "distinct (xs @ ys)" and "b \<notin> set (xs @ ys)"
    and "dll_link h n p b q c = (h', n', p')"
  shows "dll n' p' h' (xs @ b # ys)"
proof (cases xs rule: rev_cases)
  case Nil
  then show ?thesis using assms by (cases ys) (auto simp: dll_link_def)
next
  case (snoc zs z)
  then show ?thesis using assms by (cases ys) (auto simp: dll_link_def)
qed

lemma dll_link_frame:
  assumes "dpath n p None h xs q c" and "dpath n p q c ys q' None"
    and "dll_link h n p b q c = (h', n', p')" and "x \<notin> set (xs @ b # ys)"
  shows "n' x = n x" "p' x = p x"
proof -
  have "q = (if xs = [] then None else Some (last xs))"
    and "c = (if ys = [] then None else Some (hd ys))"
    using assms(1,2) by (auto dest: dpath_start dpath_end)
  with assms(3,4) show "n' x = n x" "p' x = p x" by (auto simp: dll_link_def)
qed

end
