(* ===== verification/Mem_Alloc.thy ===== *)
theory Mem_Alloc
  imports Dll
begin

text \<open>
  The device memory allocator, \<open>vortex::MemoryAllocator\<close> of \<open>sw/common/mem_alloc.h\<close>.

  A page owns its blocks, and every block is a node of up to three intrusive doubly
  linked lists: the free list sorted by decreasing size (\<open>S\<close>), the free list sorted by
  address (\<open>M\<close>) and the list of used blocks. The three lists share nodes and a merge
  changes a node while it is linked, so the blocks of a page are an explicit store: block
  identifiers stand for \<open>block_t*\<close>, every field of \<open>block_t\<close> is a function of the
  identifier, \<open>blk_live\<close> says which identifiers are allocated and \<open>blk_next\<close> is the
  identifier the next \<open>new block_t\<close> returns. Reading or writing a field of a deleted
  block is undefined behaviour, as is a failed \<open>assert\<close>: both are \<^const>\<open>None\<close>. The loops
  over the lists are partial functions, since they would not return on a cyclic list.

  The pages of an allocator form a singly linked list with one owner: an Isabelle list,
  with the position in it for a \<open>page_t*\<close>.
\<close>

unbundle bit_operations_syntax

subsection \<open>Blocks and pages\<close>

type_synonym bid = nat

record page_t =
  pg_addr :: u64
  pg_size :: u64
  pg_blockAlign :: u32
  usedList :: "bid option"
  freeSList :: "bid option"
  freeMList :: "bid option"
  nextFreeS :: "bid \<Rightarrow> bid option"
  prevFreeS :: "bid \<Rightarrow> bid option"
  nextFreeM :: "bid \<Rightarrow> bid option"
  prevFreeM :: "bid \<Rightarrow> bid option"
  nextUsed :: "bid \<Rightarrow> bid option"
  prevUsed :: "bid \<Rightarrow> bid option"
  blk_addr :: "bid \<Rightarrow> u64"
  blk_size :: "bid \<Rightarrow> u64"
  blk_live :: "bid \<Rightarrow> bool"
  blk_next :: bid

text \<open>\<open>rd f p b\<close> is \<open>b->f\<close>; \<open>wr f_update p b v\<close> is \<open>b->f = v\<close>.\<close>

definition rd :: "(page_t \<Rightarrow> bid \<Rightarrow> 'v) \<Rightarrow> page_t \<Rightarrow> bid \<Rightarrow> 'v option" where
  "rd f p b = (if blk_live p b then Some (f p b) else None)"

definition wr :: "(((bid \<Rightarrow> 'v) \<Rightarrow> bid \<Rightarrow> 'v) \<Rightarrow> page_t \<Rightarrow> page_t) \<Rightarrow> page_t \<Rightarrow> bid \<Rightarrow> 'v
    \<Rightarrow> page_t option" where
  "wr upd p b v = (if blk_live p b then Some (upd (\<lambda>f. f(b := v)) p) else None)"

text \<open>\<open>new block_t(addr, size)\<close> and \<open>delete block\<close>.\<close>

definition new_block :: "page_t \<Rightarrow> u64 \<Rightarrow> u64 \<Rightarrow> bid \<times> page_t" where
  "new_block p a s =
     (let b = blk_next p in
      (b, p\<lparr>nextFreeS := (nextFreeS p)(b := None), prevFreeS := (prevFreeS p)(b := None),
            nextFreeM := (nextFreeM p)(b := None), prevFreeM := (prevFreeM p)(b := None),
            nextUsed := (nextUsed p)(b := None), prevUsed := (prevUsed p)(b := None),
            blk_addr := (blk_addr p)(b := a), blk_size := (blk_size p)(b := s),
            blk_live := (blk_live p)(b := True), blk_next := Suc b\<rparr>))"

definition delete_block :: "page_t \<Rightarrow> bid \<Rightarrow> page_t option" where
  "delete_block p b = do { check (blk_live p b); Some (p\<lparr>blk_live := (blk_live p)(b := False)\<rparr>) }"

definition page_new :: "u64 \<Rightarrow> u64 \<Rightarrow> u32 \<Rightarrow> page_t" where
  "page_new a s al =
     (let (b, p) = new_block
            \<lparr>pg_addr = a, pg_size = s, pg_blockAlign = al, usedList = None, freeSList = None,
             freeMList = None, nextFreeS = (\<lambda>_. None), prevFreeS = (\<lambda>_. None),
             nextFreeM = (\<lambda>_. None), prevFreeM = (\<lambda>_. None), nextUsed = (\<lambda>_. None),
             prevUsed = (\<lambda>_. None), blk_addr = (\<lambda>_. 0), blk_size = (\<lambda>_. 0),
             blk_live = (\<lambda>_. False), blk_next = 0\<rparr> a s
      in p\<lparr>freeSList := Some b, freeMList := Some b\<rparr>)"

definition page_delete :: "page_t \<Rightarrow> unit option" where
  "page_delete p = do {
     check (usedList p = None);
     b \<leftarrow> freeMList p;
     n \<leftarrow> rd nextFreeM p b;
     check (n = None);
     q \<leftarrow> rd prevFreeM p b;
     check (q = None);
     delete_block p b;
     Some () }"

definition page_empty :: "page_t \<Rightarrow> bool" where
  "page_empty p \<longleftrightarrow> usedList p = None"

subsection \<open>The list operations of a page\<close>

definition insertUsedList :: "page_t \<Rightarrow> bid \<Rightarrow> page_t option" where
  "insertUsedList p b = do {
     p \<leftarrow> wr nextUsed_update p b (usedList p);
     p \<leftarrow> (case usedList p of Some u \<Rightarrow> wr prevUsed_update p u (Some b) | None \<Rightarrow> Some p);
     Some (p\<lparr>usedList := Some b\<rparr>) }"

definition removeUsedList :: "page_t \<Rightarrow> bid \<Rightarrow> page_t option" where
  "removeUsedList p b = do {
     q \<leftarrow> rd prevUsed p b;
     n \<leftarrow> rd nextUsed p b;
     p \<leftarrow> (case q of Some u \<Rightarrow> wr nextUsed_update p u n | None \<Rightarrow> Some (p\<lparr>usedList := n\<rparr>));
     n \<leftarrow> rd nextUsed p b;
     q \<leftarrow> rd prevUsed p b;
     p \<leftarrow> (case n of Some u \<Rightarrow> wr prevUsed_update p u q | None \<Rightarrow> Some p);
     p \<leftarrow> wr nextUsed_update p b None;
     wr prevUsed_update p b None }"

partial_function (option) walkFreeM ::
    "page_t \<Rightarrow> u64 \<Rightarrow> bid option \<times> bid option \<Rightarrow> (bid option \<times> bid option) option" where
  "walkFreeM p a pc =
     (case pc of (prevBlock, currBlock) \<Rightarrow>
        (case currBlock of
           None \<Rightarrow> Some (prevBlock, None)
         | Some c \<Rightarrow> do {
             ca \<leftarrow> rd blk_addr p c;
             if ca < a then do { n \<leftarrow> rd nextFreeM p c; walkFreeM p a (Some c, n) }
             else Some (prevBlock, Some c) }))"

definition insertFreeMList :: "page_t \<Rightarrow> bid \<Rightarrow> page_t option" where
  "insertFreeMList p b = do {
     a \<leftarrow> rd blk_addr p b;
     (prevBlock, currBlock) \<leftarrow> walkFreeM p a (None, freeMList p);
     p \<leftarrow> wr nextFreeM_update p b currBlock;
     p \<leftarrow> wr prevFreeM_update p b prevBlock;
     p \<leftarrow> (case prevBlock of
             Some q \<Rightarrow> wr nextFreeM_update p q (Some b)
           | None \<Rightarrow> Some (p\<lparr>freeMList := Some b\<rparr>));
     (case currBlock of Some c \<Rightarrow> wr prevFreeM_update p c (Some b) | None \<Rightarrow> Some p) }"

definition removeFreeMList :: "page_t \<Rightarrow> bid \<Rightarrow> page_t option" where
  "removeFreeMList p b = do {
     q \<leftarrow> rd prevFreeM p b;
     n \<leftarrow> rd nextFreeM p b;
     p \<leftarrow> (case q of Some u \<Rightarrow> wr nextFreeM_update p u n | None \<Rightarrow> Some (p\<lparr>freeMList := n\<rparr>));
     n \<leftarrow> rd nextFreeM p b;
     q \<leftarrow> rd prevFreeM p b;
     p \<leftarrow> (case n of Some u \<Rightarrow> wr prevFreeM_update p u q | None \<Rightarrow> Some p);
     p \<leftarrow> wr nextFreeM_update p b None;
     wr prevFreeM_update p b None }"

partial_function (option) walkFreeS ::
    "page_t \<Rightarrow> u64 \<Rightarrow> bid option \<times> bid option \<Rightarrow> (bid option \<times> bid option) option" where
  "walkFreeS p s pc =
     (case pc of (prevBlock, currBlock) \<Rightarrow>
        (case currBlock of
           None \<Rightarrow> Some (prevBlock, None)
         | Some c \<Rightarrow> do {
             cs \<leftarrow> rd blk_size p c;
             if cs > s then do { n \<leftarrow> rd nextFreeS p c; walkFreeS p s (Some c, n) }
             else Some (prevBlock, Some c) }))"

definition insertFreeSList :: "page_t \<Rightarrow> bid \<Rightarrow> page_t option" where
  "insertFreeSList p b = do {
     s \<leftarrow> rd blk_size p b;
     (prevBlock, currBlock) \<leftarrow> walkFreeS p s (None, freeSList p);
     p \<leftarrow> wr nextFreeS_update p b currBlock;
     p \<leftarrow> wr prevFreeS_update p b prevBlock;
     p \<leftarrow> (case prevBlock of
             Some q \<Rightarrow> wr nextFreeS_update p q (Some b)
           | None \<Rightarrow> Some (p\<lparr>freeSList := Some b\<rparr>));
     (case currBlock of Some c \<Rightarrow> wr prevFreeS_update p c (Some b) | None \<Rightarrow> Some p) }"

definition removeFreeSList :: "page_t \<Rightarrow> bid \<Rightarrow> page_t option" where
  "removeFreeSList p b = do {
     q \<leftarrow> rd prevFreeS p b;
     n \<leftarrow> rd nextFreeS p b;
     p \<leftarrow> (case q of Some u \<Rightarrow> wr nextFreeS_update p u n | None \<Rightarrow> Some (p\<lparr>freeSList := n\<rparr>));
     n \<leftarrow> rd nextFreeS p b;
     q \<leftarrow> rd prevFreeS p b;
     p \<leftarrow> (case n of Some u \<Rightarrow> wr prevFreeS_update p u q | None \<Rightarrow> Some p);
     p \<leftarrow> wr nextFreeS_update p b None;
     wr prevFreeS_update p b None }"

subsection \<open>Allocating and releasing in a page\<close>

definition page_allocate :: "page_t \<Rightarrow> u64 \<Rightarrow> bid \<Rightarrow> page_t option" where
  "page_allocate p s b = do {
     p \<leftarrow> removeFreeMList p b;
     p \<leftarrow> removeFreeSList p b;
     bs \<leftarrow> rd blk_size p b;
     let extraBytes = bs - s;
     p \<leftarrow> (if extraBytes \<ge> ucast (pg_blockAlign p) then do {
             p \<leftarrow> wr blk_size_update p b s;
             ba \<leftarrow> rd blk_addr p b;
             let nextAddr = ba + s;
             let (newBlock, p) = new_block p nextAddr extraBytes;
             p \<leftarrow> insertFreeMList p newBlock;
             insertFreeSList p newBlock }
           else Some p);
     insertUsedList p b }"

text \<open>The two merges of \<open>page_t::release\<close>; the first returns the block that goes on.\<close>

definition mergeLeft :: "page_t \<Rightarrow> bid \<Rightarrow> (bid \<times> page_t) option" where
  "mergeLeft p usedBlock = do {
     q \<leftarrow> rd prevFreeM p usedBlock;
     (case q of None \<Rightarrow> Some (usedBlock, p) | Some prevBlock \<Rightarrow> do {
        pa \<leftarrow> rd blk_addr p prevBlock;
        ps \<leftarrow> rd blk_size p prevBlock;
        let prevAddr = pa + ps;
        ua \<leftarrow> rd blk_addr p usedBlock;
        if ua = prevAddr then do {
          us \<leftarrow> rd blk_size p usedBlock;
          p \<leftarrow> wr blk_size_update p prevBlock (ps + us);
          n \<leftarrow> rd nextFreeM p usedBlock;
          p \<leftarrow> wr nextFreeM_update p prevBlock n;
          p \<leftarrow> (case n of Some c \<Rightarrow> wr prevFreeM_update p c (Some prevBlock) | None \<Rightarrow> Some p);
          p \<leftarrow> removeFreeSList p prevBlock;
          p \<leftarrow> delete_block p usedBlock;
          Some (prevBlock, p) }
        else Some (usedBlock, p) }) }"

definition mergeRight :: "page_t \<Rightarrow> bid \<Rightarrow> page_t option" where
  "mergeRight p usedBlock = do {
     n \<leftarrow> rd nextFreeM p usedBlock;
     (case n of None \<Rightarrow> Some p | Some nextBlock \<Rightarrow> do {
        ua \<leftarrow> rd blk_addr p usedBlock;
        us \<leftarrow> rd blk_size p usedBlock;
        let nextAddr = ua + us;
        na \<leftarrow> rd blk_addr p nextBlock;
        if na = nextAddr then do {
          ns \<leftarrow> rd blk_size p nextBlock;
          p \<leftarrow> wr blk_size_update p usedBlock (us + ns);
          nn \<leftarrow> rd nextFreeM p nextBlock;
          p \<leftarrow> wr nextFreeM_update p usedBlock nn;
          p \<leftarrow> (case nn of Some c \<Rightarrow> wr prevFreeM_update p c (Some usedBlock) | None \<Rightarrow> Some p);
          p \<leftarrow> removeFreeSList p nextBlock;
          delete_block p nextBlock }
        else Some p }) }"

definition page_release :: "page_t \<Rightarrow> bid \<Rightarrow> page_t option" where
  "page_release p usedBlock = do {
     p \<leftarrow> removeUsedList p usedBlock;
     p \<leftarrow> insertFreeMList p usedBlock;
     (usedBlock, p) \<leftarrow> mergeLeft p usedBlock;
     p \<leftarrow> mergeRight p usedBlock;
     insertFreeSList p usedBlock }"

partial_function (option) walkFits :: "page_t \<Rightarrow> u64 \<Rightarrow> bid \<Rightarrow> bid option" where
  "walkFits p s freeBlock = do {
     n \<leftarrow> rd nextFreeS p freeBlock;
     (case n of None \<Rightarrow> Some freeBlock
      | Some c \<Rightarrow> do { cs \<leftarrow> rd blk_size p c;
                      if cs \<ge> s then walkFits p s c else Some freeBlock }) }"

definition findFreeBlock :: "page_t \<Rightarrow> u64 \<Rightarrow> bid option option" where
  "findFreeBlock p s =
     (case freeSList p of
        None \<Rightarrow> Some None
      | Some b \<Rightarrow> do {
          bs \<leftarrow> rd blk_size p b;
          if bs \<ge> s then do { r \<leftarrow> walkFits p s b; Some (Some r) } else Some None })"

partial_function (option) walkUsed :: "page_t \<Rightarrow> u64 \<Rightarrow> bid option \<Rightarrow> bid option option" where
  "walkUsed p a useBlock =
     (case useBlock of
        None \<Rightarrow> Some None
      | Some u \<Rightarrow> do {
          ua \<leftarrow> rd blk_addr p u;
          if ua = a then Some (Some u) else do { n \<leftarrow> rd nextUsed p u; walkUsed p a n } })"

definition findUsedBlock :: "page_t \<Rightarrow> u64 \<Rightarrow> bid option option" where
  "findUsedBlock p a =
     (if a \<ge> pg_addr p \<and> a < pg_addr p + pg_size p then walkUsed p a (usedList p)
      else Some None)"

subsection \<open>The allocator\<close>

datatype alloc_error = InvalidArguments | OutOfBounds | RangeOverlap | OutOfMemory | AddressNotFound

record allocator =
  baseAddress :: u64
  capacity :: u64
  pageAlign :: u32
  blockAlign :: u32
  pages :: "page_t list"
  allocated :: u64

definition allocator_new :: "u64 \<Rightarrow> u64 \<Rightarrow> u32 \<Rightarrow> u32 \<Rightarrow> allocator" where
  "allocator_new base cap pal bal =
     \<lparr>baseAddress = base, capacity = cap, pageAlign = pal, blockAlign = bal, pages = [], allocated = 0\<rparr>"

definition allocator_free :: "allocator \<Rightarrow> u64" where
  "allocator_free A = capacity A - allocated A"

definition alignSize :: "u64 \<Rightarrow> u64 \<Rightarrow> u64 option" where
  "alignSize sz alignment = do {
     check (alignment AND (alignment - 1) = 0);
     Some ((sz + alignment - 1) AND NOT (alignment - 1)) }"

text \<open>\<open>createPage\<close> returns the position of the new page in the list.\<close>

definition insert_page :: "page_t \<Rightarrow> page_t list \<Rightarrow> nat" where
  "insert_page newPage ps =
     (case ps of [] \<Rightarrow> 0
      | q # qs \<Rightarrow>
          if pg_addr q > pg_addr newPage then 0
          else Suc (length (takeWhile (\<lambda>r. pg_addr r < pg_addr newPage) qs)))"

definition createPage :: "allocator \<Rightarrow> u64 \<Rightarrow> u64 \<Rightarrow> nat \<times> allocator" where
  "createPage A addr sz =
     (let newPage = page_new addr sz (blockAlign A);
          i = insert_page newPage (pages A)
      in (i, A\<lparr>pages := take i (pages A) @ newPage # drop i (pages A)\<rparr>))"

definition deletePage :: "allocator \<Rightarrow> nat \<Rightarrow> allocator option" where
  "deletePage A i = do {
     check (i < length (pages A));
     page_delete (pages A ! i);
     Some (A\<lparr>pages := take i (pages A) @ drop (Suc i) (pages A)\<rparr>) }"

text \<open>The loop of \<open>findNextAddress\<close>: \<open>Inl\<close> is the early return, \<open>Inr\<close> the end of the last page.\<close>

fun walkPages :: "u64 \<Rightarrow> u64 \<Rightarrow> page_t list \<Rightarrow> u64 + u64" where
  "walkPages sz endOfLastPage [] = Inr endOfLastPage"
| "walkPages sz endOfLastPage (p # ps) =
     (if endOfLastPage + sz \<le> pg_addr p then Inl endOfLastPage
      else walkPages sz (pg_addr p + pg_size p) ps)"

definition findNextAddress :: "allocator \<Rightarrow> u64 \<Rightarrow> u64 option" where
  "findNextAddress A sz =
     (if pages A = [] then Some (baseAddress A)
      else case walkPages sz (baseAddress A) (pages A) of
             Inl a \<Rightarrow> Some a
           | Inr endOfLastPage \<Rightarrow>
               if endOfLastPage + sz \<le> baseAddress A + capacity A then Some endOfLastPage else None)"

definition hasPageOverlap :: "allocator \<Rightarrow> u64 \<Rightarrow> u64 \<Rightarrow> (u64 \<times> u64) option" where
  "hasPageOverlap A start sz =
     map_option (\<lambda>p. (pg_addr p, pg_addr p + pg_size p))
       (List.find (\<lambda>p. start < pg_addr p + pg_size p \<and> start + sz > pg_addr p) (pages A))"

text \<open>
  The page loops of \<open>allocate\<close> and \<open>release\<close>: the first page, by position, with a block.
\<close>

fun findPage :: "(page_t \<Rightarrow> bid option option) \<Rightarrow> page_t list \<Rightarrow> (nat \<times> bid) option option" where
  "findPage f [] = Some None"
| "findPage f (p # ps) = do {
     r \<leftarrow> f p;
     (case r of
        Some b \<Rightarrow> Some (Some (0, b))
      | None \<Rightarrow> do { t \<leftarrow> findPage f ps; Some (map_option (\<lambda>(i, b). (Suc i, b)) t) }) }"

definition page_put :: "allocator \<Rightarrow> nat \<Rightarrow> page_t \<Rightarrow> allocator" where
  "page_put A i p = A\<lparr>pages := (pages A)[i := p]\<rparr>"

text \<open>
  An error return leaves the allocator as it is. \<open>has_addr\<close> is \<open>addr != nullptr\<close>; the
  \<open>nullptr == currPage\<close> branch after \<open>createPage\<close> is dead, since \<open>new\<close> does not return null.
\<close>

definition reserve :: "allocator \<Rightarrow> u64 \<Rightarrow> u64 \<Rightarrow> (alloc_error + allocator) option" where
  "reserve A addr sz =
     (if sz = 0 then Some (Inl InvalidArguments)
      else do {
        sz \<leftarrow> alignSize sz (ucast (pageAlign A));
        if addr + sz > baseAddress A + capacity A then Some (Inl OutOfBounds)
        else if hasPageOverlap A addr sz \<noteq> None then Some (Inl RangeOverlap)
        else do {
          let (i, A) = createPage A addr sz;
          r \<leftarrow> findFreeBlock (pages A ! i) sz;
          freeBlock \<leftarrow> r;
          p \<leftarrow> page_allocate (pages A ! i) sz freeBlock;
          let A = page_put A i p;
          Some (Inr (A\<lparr>allocated := allocated A + sz\<rparr>)) } })"

definition allocate :: "allocator \<Rightarrow> u64 \<Rightarrow> bool \<Rightarrow> (alloc_error + u64 \<times> allocator) option" where
  "allocate A sz has_addr =
     (if sz = 0 \<or> \<not> has_addr then Some (Inl InvalidArguments)
      else do {
        sz \<leftarrow> alignSize sz (ucast (blockAlign A));
        r \<leftarrow> findPage (\<lambda>p. findFreeBlock p sz) (pages A);
        c \<leftarrow> (case r of
                Some (i, b) \<Rightarrow> Some (Inr (i, b, A))
              | None \<Rightarrow> do {
                  pageSize \<leftarrow> alignSize sz (ucast (pageAlign A));
                  (case findNextAddress A pageSize of
                     None \<Rightarrow> Some (Inl OutOfMemory)
                   | Some pageAddr \<Rightarrow> do {
                       let (i, A) = createPage A pageAddr pageSize;
                       r \<leftarrow> findFreeBlock (pages A ! i) sz;
                       b \<leftarrow> r;
                       Some (Inr (i, b, A)) }) });
        (case c of
           Inl e \<Rightarrow> Some (Inl e)
         | Inr (i, freeBlock, A) \<Rightarrow> do {
             p \<leftarrow> page_allocate (pages A ! i) sz freeBlock;
             addr \<leftarrow> rd blk_addr p freeBlock;
             let A = page_put A i p;
             Some (Inr (addr, A\<lparr>allocated := allocated A + sz\<rparr>)) }) })"

definition release :: "allocator \<Rightarrow> u64 \<Rightarrow> (alloc_error + allocator) option" where
  "release A addr = do {
     r \<leftarrow> findPage (\<lambda>p. findUsedBlock p addr) (pages A);
     (case r of
        None \<Rightarrow> Some (Inl AddressNotFound)
      | Some (i, usedBlock) \<Rightarrow> do {
          sz \<leftarrow> rd blk_size (pages A ! i) usedBlock;
          p \<leftarrow> page_release (pages A ! i) usedBlock;
          let A = page_put A i p;
          A \<leftarrow> (if page_empty p then deletePage A i else Some A);
          Some (Inr (A\<lparr>allocated := allocated A - sz\<rparr>)) }) }"

text \<open>The destructor; \<open>vm_enable\<close> is the build option \<open>VX_CFG_VM_ENABLE\<close>.\<close>

partial_function (option) releaseUsed :: "page_t \<Rightarrow> bid option \<Rightarrow> page_t option" where
  "releaseUsed p currblock =
     (case currblock of
        None \<Rightarrow> Some p
      | Some b \<Rightarrow> do {
          nextblock \<leftarrow> rd nextUsed p b;
          p \<leftarrow> page_release p b;
          releaseUsed p nextblock })"

fun deletePages :: "bool \<Rightarrow> page_t list \<Rightarrow> unit option" where
  "deletePages vm_enable [] = Some ()"
| "deletePages vm_enable (p # ps) = do {
     p \<leftarrow> (if vm_enable then releaseUsed p (usedList p) else Some p);
     page_delete p;
     deletePages vm_enable ps }"

definition allocator_delete :: "bool \<Rightarrow> allocator \<Rightarrow> unit option" where
  "allocator_delete vm_enable A = deletePages vm_enable (pages A)"

end
