(* ===== verification/Mem_Alloc_Lists.thy ===== *)
theory Mem_Alloc_Lists
  imports Mem_Alloc
begin

text \<open>
  The three intrusive lists of an allocator page. What the page operations rely on is the
  interface \<open>intrusive_list\<close> (and \<open>sorted_intrusive_list\<close> for the two free lists): the
  pointer updates that removing and inserting a block perform. The effect on the sequence
  of linked blocks is proved once from that interface, and the interface is interpreted on
  the list operations of \<open>page_t\<close>.
\<close>

lemma rd_Some [simp]: "blk_live p b \<Longrightarrow> rd f p b = Some (f p b)"
  by (simp add: rd_def)

lemma wr_Some [simp]: "blk_live p b \<Longrightarrow> wr upd p b v = Some (upd (\<lambda>f. f(b := v)) p)"
  by (simp add: wr_def)

abbreviation all_live :: "page_t \<Rightarrow> bid set \<Rightarrow> bool" where
  "all_live p A \<equiv> (\<forall>x \<in> A. blk_live p x)"

locale intrusive_list =
  fixes head :: "page_t \<Rightarrow> bid option"
    and nxt :: "page_t \<Rightarrow> bid \<Rightarrow> bid option"
    and prv :: "page_t \<Rightarrow> bid \<Rightarrow> bid option"
    and put :: "page_t \<Rightarrow> bid option \<Rightarrow> (bid \<Rightarrow> bid option) \<Rightarrow> (bid \<Rightarrow> bid option) \<Rightarrow> page_t"
    and remove :: "page_t \<Rightarrow> bid \<Rightarrow> page_t option"
  assumes remove_unlink:
    "\<lbrakk>blk_live p b; \<And>u. prv p b = Some u \<Longrightarrow> blk_live p u \<and> u \<noteq> b;
      \<And>u. nxt p b = Some u \<Longrightarrow> blk_live p u \<and> u \<noteq> b\<rbrakk>
     \<Longrightarrow> remove p b = (case dll_unlink (head p) (nxt p) (prv p) b of (h, n, q) \<Rightarrow> Some (put p h n q))"
begin

lemma remove_rep:
  assumes l: "dll (nxt p) (prv p) (head p) (xs @ b # ys)"
    and d: "distinct (xs @ b # ys)" and v: "all_live p (set (xs @ b # ys))"
  obtains h n q where "remove p b = Some (put p h n q)"
    and "dll n q h (xs @ ys)" and "n b = None" and "q b = None"
    and "\<And>x. x \<notin> set (xs @ b # ys) \<Longrightarrow> q x = prv p x"
proof -
  obtain h n q where u: "dll_unlink (head p) (nxt p) (prv p) b = (h, n, q)"
    by (cases "dll_unlink (head p) (nxt p) (prv p) b")
  have nb: "prv p b = (if xs = [] then None else Some (last xs))"
    "nxt p b = (if ys = [] then None else Some (hd ys))"
    using l by (auto dest: dpath_start dpath_end)
  have "remove p b = Some (put p h n q)"
    using v d nb u by (subst remove_unlink) (auto split: if_splits)
  then show thesis
    using that dll_unlink_path [OF l d u] dll_unlink_frame [OF l d u] by blast
qed

end

locale sorted_intrusive_list = intrusive_list +
  fixes walk :: "page_t \<Rightarrow> bid \<Rightarrow> bid option \<times> bid option \<Rightarrow> (bid option \<times> bid option) option"
    and insert_at :: "page_t \<Rightarrow> bid \<Rightarrow> page_t option"
    and before :: "page_t \<Rightarrow> bid \<Rightarrow> bid \<Rightarrow> bool"
  assumes walk_None: "walk p b (q, None) = Some (q, None)"
    and walk_Some: "blk_live p x \<Longrightarrow> walk p b (q, Some x) =
      (if before p x b then walk p b (Some x, nxt p x) else Some (q, Some x))"
    and insert_link:
    "\<lbrakk>blk_live p b; walk p b (None, head p) = Some (q, c);
      \<And>u. q = Some u \<Longrightarrow> blk_live p u \<and> u \<noteq> b; \<And>u. c = Some u \<Longrightarrow> blk_live p u \<and> u \<noteq> b\<rbrakk>
     \<Longrightarrow> insert_at p b =
           (case dll_link (head p) (nxt p) (prv p) b q c of (h, n, r) \<Rightarrow> Some (put p h n r))"
begin

lemma walk_path:
  assumes "dpath (nxt p) (prv p) q h xs q' None" and "all_live p (set xs)"
  shows "\<exists>r c. walk p b (q, h) = Some (r, c)
    \<and> dpath (nxt p) (prv p) q h (takeWhile (\<lambda>x. before p x b) xs) r c
    \<and> dpath (nxt p) (prv p) r c (dropWhile (\<lambda>x. before p x b) xs) q' None"
  using assms
proof (induction xs arbitrary: q h)
  case Nil
  then show ?case by (simp add: walk_None)
next
  case (Cons x xs)
  then have h: "h = Some x" "blk_live p x" by auto
  show ?case
  proof (cases "before p x b")
    case True
    with h Cons.prems Cons.IH [of "Some x" "nxt p x"] show ?thesis by (auto simp: walk_Some)
  next
    case False
    with h Cons.prems show ?thesis by (auto simp: walk_Some)
  qed
qed

lemma insert_rep:
  assumes l: "dll (nxt p) (prv p) (head p) xs"
    and d: "distinct xs" "b \<notin> set xs" and v: "all_live p (insert b (set xs))"
  obtains h n q where "insert_at p b = Some (put p h n q)"
    and "dll n q h (insert_while (\<lambda>x. before p x b) b xs)"
proof -
  let ?t = "takeWhile (\<lambda>x. before p x b) xs" and ?d = "dropWhile (\<lambda>x. before p x b) xs"
  from l obtain q' where q': "dpath (nxt p) (prv p) None (head p) xs q' None" by blast
  with v obtain r c where w: "walk p b (None, head p) = Some (r, c)"
    and t: "dpath (nxt p) (prv p) None (head p) ?t r c" and s: "dpath (nxt p) (prv p) r c ?d q' None"
    using walk_path [of p None "head p" xs q' b] by auto
  obtain h n q where k: "dll_link (head p) (nxt p) (prv p) b r c = (h, n, q)"
    by (cases "dll_link (head p) (nxt p) (prv p) b r c")
  have td: "distinct (?t @ ?d)" "b \<notin> set (?t @ ?d)" using d by simp_all
  have "r = (if ?t = [] then None else Some (last ?t))" "c = (if ?d = [] then None else Some (hd ?d))"
    by (rule dpath_end [OF t], rule dpath_start [OF s])
  then have "\<And>u. r = Some u \<Longrightarrow> u \<in> set xs" "\<And>u. c = Some u \<Longrightarrow> u \<in> set xs"
    by (metis last_in_set option.discI option.inject set_takeWhileD)
      (metis \<open>c = _\<close> hd_in_set option.discI option.inject set_dropWhileD)
  then have "insert_at p b = Some (put p h n q)"
    using v d(2) w k by (subst insert_link [of p b r c]) auto
  then show thesis using that dll_link_path [OF t s td k] unfolding insert_while_def by blast
qed

end

interpretation used_list: intrusive_list usedList nextUsed prevUsed
  "\<lambda>p h n q. p\<lparr>usedList := h, nextUsed := n, prevUsed := q\<rparr>" removeUsedList
proof
  fix p :: page_t and b
  assume "blk_live p b" "\<And>u. prevUsed p b = Some u \<Longrightarrow> blk_live p u \<and> u \<noteq> b"
    "\<And>u. nextUsed p b = Some u \<Longrightarrow> blk_live p u \<and> u \<noteq> b"
  then show "removeUsedList p b =
      (case dll_unlink (usedList p) (nextUsed p) (prevUsed p) b of (h, n, q) \<Rightarrow>
         Some (p\<lparr>usedList := h, nextUsed := n, prevUsed := q\<rparr>))"
    by (cases "prevUsed p b"; cases "nextUsed p b") (simp_all add: removeUsedList_def dll_unlink_def)
qed

interpretation free_m: sorted_intrusive_list freeMList nextFreeM prevFreeM
  "\<lambda>p h n q. p\<lparr>freeMList := h, nextFreeM := n, prevFreeM := q\<rparr>" removeFreeMList
  "\<lambda>p b. walkFreeM p (blk_addr p b)" insertFreeMList "\<lambda>p x b. blk_addr p x < blk_addr p b"
proof
  fix p :: page_t and b
  assume "blk_live p b" "\<And>u. prevFreeM p b = Some u \<Longrightarrow> blk_live p u \<and> u \<noteq> b"
    "\<And>u. nextFreeM p b = Some u \<Longrightarrow> blk_live p u \<and> u \<noteq> b"
  then show "removeFreeMList p b =
      (case dll_unlink (freeMList p) (nextFreeM p) (prevFreeM p) b of (h, n, q) \<Rightarrow>
         Some (p\<lparr>freeMList := h, nextFreeM := n, prevFreeM := q\<rparr>))"
    by (cases "prevFreeM p b"; cases "nextFreeM p b") (simp_all add: removeFreeMList_def dll_unlink_def)
next
  fix p :: page_t and b q c
  assume "blk_live p b" "walkFreeM p (blk_addr p b) (None, freeMList p) = Some (q, c)"
    "\<And>u. q = Some u \<Longrightarrow> blk_live p u \<and> u \<noteq> b" "\<And>u. c = Some u \<Longrightarrow> blk_live p u \<and> u \<noteq> b"
  then show "insertFreeMList p b =
      (case dll_link (freeMList p) (nextFreeM p) (prevFreeM p) b q c of (h, n, r) \<Rightarrow>
         Some (p\<lparr>freeMList := h, nextFreeM := n, prevFreeM := r\<rparr>))"
    by (cases q; cases c) (simp_all add: insertFreeMList_def dll_link_def)
qed (simp_all add: walkFreeM.simps)

interpretation free_s: sorted_intrusive_list freeSList nextFreeS prevFreeS
  "\<lambda>p h n q. p\<lparr>freeSList := h, nextFreeS := n, prevFreeS := q\<rparr>" removeFreeSList
  "\<lambda>p b. walkFreeS p (blk_size p b)" insertFreeSList "\<lambda>p x b. blk_size p x > blk_size p b"
proof
  fix p :: page_t and b
  assume "blk_live p b" "\<And>u. prevFreeS p b = Some u \<Longrightarrow> blk_live p u \<and> u \<noteq> b"
    "\<And>u. nextFreeS p b = Some u \<Longrightarrow> blk_live p u \<and> u \<noteq> b"
  then show "removeFreeSList p b =
      (case dll_unlink (freeSList p) (nextFreeS p) (prevFreeS p) b of (h, n, q) \<Rightarrow>
         Some (p\<lparr>freeSList := h, nextFreeS := n, prevFreeS := q\<rparr>))"
    by (cases "prevFreeS p b"; cases "nextFreeS p b") (simp_all add: removeFreeSList_def dll_unlink_def)
next
  fix p :: page_t and b q c
  assume "blk_live p b" "walkFreeS p (blk_size p b) (None, freeSList p) = Some (q, c)"
    "\<And>u. q = Some u \<Longrightarrow> blk_live p u \<and> u \<noteq> b" "\<And>u. c = Some u \<Longrightarrow> blk_live p u \<and> u \<noteq> b"
  then show "insertFreeSList p b =
      (case dll_link (freeSList p) (nextFreeS p) (prevFreeS p) b q c of (h, n, r) \<Rightarrow>
         Some (p\<lparr>freeSList := h, nextFreeS := n, prevFreeS := r\<rparr>))"
    by (cases q; cases c) (simp_all add: insertFreeSList_def dll_link_def)
qed (simp_all add: walkFreeS.simps)

end
