(* ===== verification/Mem_Alloc_Page.thy ===== *)
theory Mem_Alloc_Page
  imports Mem_Alloc_Lists
begin

text \<open>
  The pages of the allocator. \<open>links\<close> relates the three pointer structures of a page to the
  block sequences they hold; each list operation, \<open>new\<close> and \<open>delete\<close> has one lemma on it, and
  the two merges of \<open>page_t::release\<close> are proved from those.
\<close>

text \<open>\<open>links p L ms ss us\<close>: the live blocks are \<open>L\<close> and the three lists hold \<open>ms\<close>, \<open>ss\<close>, \<open>us\<close>.\<close>

definition links :: "page_t \<Rightarrow> bid set \<Rightarrow> bid list \<Rightarrow> bid list \<Rightarrow> bid list \<Rightarrow> bool" where
  "links p L ms ss us \<longleftrightarrow>
     dll (nextFreeM p) (prevFreeM p) (freeMList p) ms \<and>
     dll (nextFreeS p) (prevFreeS p) (freeSList p) ss \<and>
     dll (nextUsed p) (prevUsed p) (usedList p) us \<and>
     distinct ms \<and> distinct ss \<and> distinct us \<and>
     set ms \<subseteq> L \<and> set ss \<subseteq> L \<and> set us \<subseteq> L \<and>
     (\<forall>x. blk_live p x \<longleftrightarrow> x \<in> L) \<and> (\<forall>x \<in> L. x < blk_next p) \<and>
     (\<forall>x. x \<notin> set us \<longrightarrow> prevUsed p x = None)"

definition geom :: "page_t \<Rightarrow> u64 \<times> u64 \<times> u32 \<times> (bid \<Rightarrow> u64) \<times> (bid \<Rightarrow> u64)" where
  "geom p = (pg_addr p, pg_size p, pg_blockAlign p, blk_addr p, blk_size p)"

lemma links_live: "links p L ms ss us \<Longrightarrow> blk_live p x \<longleftrightarrow> x \<in> L"
  by (simp add: links_def)

lemma links_removeUsed:
  assumes "links p L ms ss (xs @ b # ys)"
  obtains p' where "removeUsedList p b = Some p'" "links p' L ms ss (xs @ ys)" "geom p' = geom p"
proof -
  from assms have "dll (nextUsed p) (prevUsed p) (usedList p) (xs @ b # ys)"
    "distinct (xs @ b # ys)" "all_live p (set (xs @ b # ys))"
    by (auto simp: links_def simp del: dpath_append)
  then obtain h n q where "removeUsedList p b = Some (p\<lparr>usedList := h, nextUsed := n, prevUsed := q\<rparr>)"
    "dll n q h (xs @ ys)" "q b = None" and q: "\<And>x. x \<notin> set (xs @ b # ys) \<Longrightarrow> q x = prevUsed p x"
    by (rule used_list.remove_rep) blast
  moreover have "\<forall>x. x \<notin> set (xs @ ys) \<longrightarrow> q x = None"
  proof (intro allI impI)
    fix x assume "x \<notin> set (xs @ ys)"
    then show "q x = None"
      using assms \<open>q b = None\<close> q by (cases "x = b") (auto simp: links_def simp del: dpath_append)
  qed
  moreover have "links (p\<lparr>usedList := h, nextUsed := n, prevUsed := q\<rparr>) L ms ss (xs @ ys)"
    using assms calculation by (auto simp: links_def simp del: dpath_append)
  ultimately show thesis using that by (simp add: geom_def)
qed

lemma links_removeM:
  assumes "links p L (xs @ b # ys) ss us"
  obtains p' where "removeFreeMList p b = Some p'" "links p' L (xs @ ys) ss us" "geom p' = geom p"
proof -
  from assms have "dll (nextFreeM p) (prevFreeM p) (freeMList p) (xs @ b # ys)"
    "distinct (xs @ b # ys)" "all_live p (set (xs @ b # ys))"
    by (auto simp: links_def simp del: dpath_append)
  then obtain h n q where "removeFreeMList p b = Some (p\<lparr>freeMList := h, nextFreeM := n, prevFreeM := q\<rparr>)"
    "dll n q h (xs @ ys)"
    by (rule free_m.remove_rep) blast
  moreover from this(2) have "links (p\<lparr>freeMList := h, nextFreeM := n, prevFreeM := q\<rparr>) L (xs @ ys) ss us"
    using assms by (auto simp: links_def simp del: dpath_append)
  ultimately show thesis using that by (simp add: geom_def)
qed

lemma links_removeS:
  assumes "links p L ms ss us" "b \<in> set ss"
  obtains p' where "removeFreeSList p b = Some p'" "links p' L ms (remove1 b ss) us" "geom p' = geom p"
    "freeMList p' = freeMList p" "nextFreeM p' = nextFreeM p" "prevFreeM p' = prevFreeM p"
proof -
  from assms(2) obtain xs ys where s: "ss = xs @ b # ys" "b \<notin> set xs" by (meson split_list_first)
  with assms have "dll (nextFreeS p) (prevFreeS p) (freeSList p) (xs @ b # ys)"
    "distinct (xs @ b # ys)" "all_live p (set (xs @ b # ys))"
    by (auto simp: links_def simp del: dpath_append)
  then obtain h n q where "removeFreeSList p b = Some (p\<lparr>freeSList := h, nextFreeS := n, prevFreeS := q\<rparr>)"
    "dll n q h (xs @ ys)"
    by (rule free_s.remove_rep) blast
  moreover from this(2)
  have "links (p\<lparr>freeSList := h, nextFreeS := n, prevFreeS := q\<rparr>) L ms (remove1 b ss) us"
    using assms(1) s by (auto simp: links_def remove1_append simp del: dpath_append)
  ultimately show thesis using that by (simp add: geom_def)
qed

lemma links_insertM:
  assumes "links p L ms ss us" "b \<in> L" "b \<notin> set ms"
  obtains p' where "insertFreeMList p b = Some p'"
    "links p' L (insert_while (\<lambda>x. blk_addr p x < blk_addr p b) b ms) ss us" "geom p' = geom p"
proof -
  from assms have "dll (nextFreeM p) (prevFreeM p) (freeMList p) ms"
    "distinct ms" "b \<notin> set ms" "all_live p (insert b (set ms))"
    by (auto simp: links_def)
  then obtain h n q where "insertFreeMList p b = Some (p\<lparr>freeMList := h, nextFreeM := n, prevFreeM := q\<rparr>)"
    "dll n q h (insert_while (\<lambda>x. blk_addr p x < blk_addr p b) b ms)"
    by (rule free_m.insert_rep) blast
  with assms show thesis using that by (auto simp: links_def geom_def)
qed

lemma links_insertS:
  assumes "links p L ms ss us" "b \<in> L" "b \<notin> set ss"
  obtains p' where "insertFreeSList p b = Some p'"
    "links p' L ms (insert_while (\<lambda>x. blk_size p x > blk_size p b) b ss) us" "geom p' = geom p"
proof -
  from assms have "dll (nextFreeS p) (prevFreeS p) (freeSList p) ss"
    "distinct ss" "b \<notin> set ss" "all_live p (insert b (set ss))"
    by (auto simp: links_def)
  then obtain h n q where "insertFreeSList p b = Some (p\<lparr>freeSList := h, nextFreeS := n, prevFreeS := q\<rparr>)"
    "dll n q h (insert_while (\<lambda>x. blk_size p x > blk_size p b) b ss)"
    by (rule free_s.insert_rep) blast
  with assms show thesis using that by (auto simp: links_def geom_def)
qed

lemma links_insertUsed:
  assumes "links p L ms ss us" "b \<in> L" "b \<notin> set us"
  obtains p' where "insertUsedList p b = Some p'" "links p' L ms ss (b # us)" "geom p' = geom p"
proof -
  let ?q = "case us of [] \<Rightarrow> prevUsed p | u # _ \<Rightarrow> (prevUsed p)(u := Some b)"
  let ?p = "p\<lparr>nextUsed := (nextUsed p)(b := usedList p), prevUsed := ?q, usedList := Some b\<rparr>"
  have live: "blk_live p b" "all_live p (set us)" using assms(1,2) by (auto simp: links_def)
  obtain r where d: "dpath (nextUsed p) (prevUsed p) None (usedList p) us r None"
    using assms(1) by (auto simp: links_def)
  have "insertUsedList p b = Some ?p"
    using live d by (cases us) (simp_all add: insertUsedList_def)
  moreover have "dll (nextUsed ?p) (prevUsed ?p) (usedList ?p) (b # us)"
    using d assms by (cases us) (auto simp: links_def)
  moreover have "\<forall>x. x \<notin> set (b # us) \<longrightarrow> ?q x = None"
    using assms(1) by (cases us) (auto simp: links_def)
  ultimately show thesis using that assms by (simp add: links_def geom_def)
qed

lemma links_new_block:
  assumes "links p L ms ss us" "new_block p a s = (b, p')"
  shows "links p' (insert b L) ms ss us" "b \<notin> L"
    "geom p' = (pg_addr p, pg_size p, pg_blockAlign p, (blk_addr p)(b := a), (blk_size p)(b := s))"
proof -
  have n: "b = blk_next p" using assms(2) by (simp add: new_block_def Let_def)
  with assms(1) show b: "b \<notin> L" by (auto simp: links_def)
  with assms(1) have "b \<notin> set ms" "b \<notin> set ss" "b \<notin> set us" by (auto simp: links_def)
  with assms n show "links p' (insert b L) ms ss us"
    by (auto simp: links_def new_block_def Let_def less_Suc_eq split: if_splits)
  from assms(2) show "geom p' = (pg_addr p, pg_size p, pg_blockAlign p, (blk_addr p)(b := a), (blk_size p)(b := s))"
    by (auto simp: new_block_def geom_def Let_def)
qed

lemma links_delete_block:
  assumes "links p L ms ss us" "b \<in> L" "b \<notin> set ms" "b \<notin> set ss" "b \<notin> set us"
  obtains p' where "delete_block p b = Some p'" "links p' (L - {b}) ms ss us" "geom p' = geom p"
proof -
  let ?p = "p\<lparr>blk_live := (blk_live p)(b := False)\<rparr>"
  have "delete_block p b = Some ?p" using assms(1,2) by (simp add: delete_block_def links_live)
  moreover have "links ?p (L - {b}) ms ss us" using assms by (auto simp: links_def)
  ultimately show thesis using that by (simp add: geom_def)
qed

lemma links_set_size:
  assumes "links p L ms ss us" "b \<in> L"
  obtains p' where "wr blk_size_update p b v = Some p'" "links p' L ms ss us"
    "geom p' = (pg_addr p, pg_size p, pg_blockAlign p, blk_addr p, (blk_size p)(b := v))"
proof -
  let ?p = "p\<lparr>blk_size := (blk_size p)(b := v)\<rparr>"
  have "wr blk_size_update p b v = Some ?p"
    using assms by (subst wr_Some) (simp_all add: links_live fun_upd_def)
  moreover have "links ?p L ms ss us" using assms(1) by (simp add: links_def)
  ultimately show thesis using that by (simp add: geom_def)
qed

lemma links_distinct: "links p L ms ss us \<Longrightarrow> distinct ms \<and> distinct ss \<and> distinct us"
  by (simp add: links_def)

lemma links_M_neighbours:
  assumes "links p L (xs @ b # ys) ss us"
  shows "prevFreeM p b = (if xs = [] then None else Some (last xs))"
    and "nextFreeM p b = (if ys = [] then None else Some (hd ys))"
  using assms by (auto simp: links_def dest: dpath_start dpath_end)

text \<open>A block of the M list absorbs its successor: the pointer part of both merges.\<close>

lemma links_absorb:
  assumes "links p L (xs @ l # b # ys) ss us"
  obtains p1 p' where "wr nextFreeM_update p l (nextFreeM p b) = Some p1"
    "(case nextFreeM p b of Some c \<Rightarrow> wr prevFreeM_update p1 c (Some l) | None \<Rightarrow> Some p1) = Some p'"
    "links p' L (xs @ l # ys) ss us" "geom p' = geom p"
proof -
  have live: "blk_live p l" "all_live p (set ys)" using assms by (auto simp: links_def)
  have n: "nextFreeM p b = (if ys = [] then None else Some (hd ys))"
    using assms links_M_neighbours(2) [of p L "xs @ [l]" b ys] by simp
  let ?p1 = "p\<lparr>nextFreeM := (nextFreeM p)(l := nextFreeM p b)\<rparr>"
  let ?p2 = "case ys of [] \<Rightarrow> ?p1 | c # _ \<Rightarrow> ?p1\<lparr>prevFreeM := (prevFreeM p)(c := Some l)\<rparr>"
  have "wr nextFreeM_update p l (nextFreeM p b) = Some ?p1"
    using live by (simp add: fun_upd_def)
  moreover have "(case nextFreeM p b of Some c \<Rightarrow> wr prevFreeM_update ?p1 c (Some l) | None \<Rightarrow> Some ?p1)
      = Some ?p2"
    using live n by (cases ys) (simp_all add: fun_upd_def)
  moreover have "dll (nextFreeM ?p2) (prevFreeM ?p2) (freeMList ?p2) (xs @ l # ys)"
    using assms n by (cases ys) (auto simp: links_def)
  then have "links ?p2 L (xs @ l # ys) ss us"
    using assms by (cases ys) (auto simp: links_def simp del: dpath_append)
  moreover have "geom ?p2 = geom p" by (cases ys) (simp_all add: geom_def)
  ultimately show thesis by (rule that)
qed

abbreviation with_size :: "page_t \<Rightarrow> bid \<Rightarrow> u64 \<Rightarrow> u64 \<times> u64 \<times> u32 \<times> (bid \<Rightarrow> u64) \<times> (bid \<Rightarrow> u64)" where
  "with_size p b v \<equiv> (pg_addr p, pg_size p, pg_blockAlign p, blk_addr p, (blk_size p)(b := v))"

lemma mergeLeft_merges:
  assumes k: "links p L (xs @ l # b # ys) ss us" and s: "l \<in> set ss" "b \<notin> set ss" "b \<notin> set us"
    and adj: "blk_addr p b = blk_addr p l + blk_size p l"
  obtains p' where "mergeLeft p b = Some (l, p')" "links p' (L - {b}) (xs @ l # ys) (remove1 l ss) us"
    "geom p' = with_size p l (blk_size p l + blk_size p b)"
proof -
  from k have lb: "l \<in> L" "b \<in> L" and d: "l \<noteq> b" "b \<notin> set (xs @ l # ys)"
    by (auto simp: links_def)
  have prv: "prevFreeM p b = Some l"
    using k links_M_neighbours(1) [of p L "xs @ [l]" b ys] by simp
  from k lb(1) obtain p1 where p1: "wr blk_size_update p l (blk_size p l + blk_size p b) = Some p1"
    "links p1 L (xs @ l # b # ys) ss us" "geom p1 = with_size p l (blk_size p l + blk_size p b)"
    by (rule links_set_size [where v = "blk_size p l + blk_size p b"]) blast
  from p1(2) obtain p2 p3 where p2: "wr nextFreeM_update p1 l (nextFreeM p1 b) = Some p2"
    "(case nextFreeM p1 b of Some c \<Rightarrow> wr prevFreeM_update p2 c (Some l) | None \<Rightarrow> Some p2) = Some p3"
    "links p3 L (xs @ l # ys) ss us" "geom p3 = geom p1"
    by (rule links_absorb)
  from p2(3) s(1) obtain p4 where p4: "removeFreeSList p3 l = Some p4"
    "links p4 L (xs @ l # ys) (remove1 l ss) us" "geom p4 = geom p3"
    by (rule links_removeS) blast
  have "b \<notin> set (remove1 l ss)" using s(2) notin_set_remove1 by metis
  from p4(2) lb(2) d(2) this s(3) obtain p5 where p5: "delete_block p4 b = Some p5"
    "links p5 (L - {b}) (xs @ l # ys) (remove1 l ss) us" "geom p5 = geom p4"
    by (rule links_delete_block)
  have "mergeLeft p b = Some (l, p5)"
    using k lb prv adj p1 p2(1,2) p4(1) p5(1) by (simp add: mergeLeft_def links_live del: wr_Some)
  with p5 p4(3) p2(4) p1(3) that show thesis by simp
qed

lemma mergeLeft_keeps:
  assumes "links p L (xs @ b # ys) ss us"
    and "xs = [] \<or> blk_addr p b \<noteq> blk_addr p (last xs) + blk_size p (last xs)"
  shows "mergeLeft p b = Some (b, p)"
proof -
  have "b \<in> L" "xs \<noteq> [] \<Longrightarrow> last xs \<in> L" using assms(1) by (auto simp: links_def)
  then show ?thesis
    using assms links_M_neighbours(1) [OF assms(1)] by (auto simp: mergeLeft_def links_live)
qed

lemma mergeRight_merges:
  assumes k: "links p L (xs @ b # r # ys) ss us" and s: "r \<in> set ss" "r \<notin> set us"
    and adj: "blk_addr p r = blk_addr p b + blk_size p b"
  obtains p' where "mergeRight p b = Some p'" "links p' (L - {r}) (xs @ b # ys) (remove1 r ss) us"
    "geom p' = with_size p b (blk_size p b + blk_size p r)"
proof -
  from k have lb: "b \<in> L" "r \<in> L" and d: "r \<noteq> b" "r \<notin> set (xs @ b # ys)"
    by (auto simp: links_def)
  have nx: "nextFreeM p b = Some r"
    using links_M_neighbours(2) [OF k] by simp
  from k lb(1) obtain p1 where p1: "wr blk_size_update p b (blk_size p b + blk_size p r) = Some p1"
    "links p1 L (xs @ b # r # ys) ss us" "geom p1 = with_size p b (blk_size p b + blk_size p r)"
    by (rule links_set_size [where v = "blk_size p b + blk_size p r"]) blast
  from p1(2) obtain p2 p3 where p2: "wr nextFreeM_update p1 b (nextFreeM p1 r) = Some p2"
    "(case nextFreeM p1 r of Some c \<Rightarrow> wr prevFreeM_update p2 c (Some b) | None \<Rightarrow> Some p2) = Some p3"
    "links p3 L (xs @ b # ys) ss us" "geom p3 = geom p1"
    by (rule links_absorb)
  from p2(3) s(1) obtain p4 where p4: "removeFreeSList p3 r = Some p4"
    "links p4 L (xs @ b # ys) (remove1 r ss) us" "geom p4 = geom p3"
    by (rule links_removeS) blast
  have "r \<notin> set (remove1 r ss)" using links_distinct [OF k] by simp
  from p4(2) lb(2) d(2) this s(2) obtain p5 where p5: "delete_block p4 r = Some p5"
    "links p5 (L - {r}) (xs @ b # ys) (remove1 r ss) us" "geom p5 = geom p4"
    by (rule links_delete_block)
  have "mergeRight p b = Some p5"
    using k lb nx adj p1 p2(1,2) p4(1) p5(1) by (simp add: mergeRight_def links_live del: wr_Some)
  with p5 p4(3) p2(4) p1(3) that show thesis by simp
qed

lemma mergeRight_keeps:
  assumes "links p L (xs @ b # ys) ss us"
    and "ys = [] \<or> blk_addr p (hd ys) \<noteq> blk_addr p b + blk_size p b"
  shows "mergeRight p b = Some p"
proof -
  have "b \<in> L" "ys \<noteq> [] \<Longrightarrow> hd ys \<in> L" using assms(1) by (auto simp: links_def)
  then show ?thesis
    using assms links_M_neighbours(2) [OF assms(1)] by (auto simp: mergeRight_def links_live)
qed

end
