(* ===== verification/Tiling.thy ===== *)
theory Tiling
  imports Prelude
begin

text \<open>
  \<open>tiling al a s B lo hi\<close>: the ranges \<open>[a b, a b + s b)\<close> of the blocks in \<open>B\<close> are non-empty,
  aligned to \<open>al\<close>, pairwise disjoint and cover exactly \<open>[lo, hi)\<close>.
\<close>

definition tiling :: "nat \<Rightarrow> ('a \<Rightarrow> nat) \<Rightarrow> ('a \<Rightarrow> nat) \<Rightarrow> 'a set \<Rightarrow> nat \<Rightarrow> nat \<Rightarrow> bool" where
  "tiling al a s B lo hi \<longleftrightarrow>
     (\<forall>b \<in> B. 0 < s b \<and> al dvd a b \<and> al dvd s b) \<and>
     (\<forall>x \<in> B. \<forall>y \<in> B. x \<noteq> y \<longrightarrow> a x + s x \<le> a y \<or> a y + s y \<le> a x) \<and>
     (\<forall>k. lo \<le> k \<and> k < hi \<longleftrightarrow> (\<exists>b \<in> B. a b \<le> k \<and> k < a b + s b))"

lemma tiling_size: "tiling al a s B lo hi \<Longrightarrow> b \<in> B \<Longrightarrow> 0 < s b"
  and tiling_align: "tiling al a s B lo hi \<Longrightarrow> b \<in> B \<Longrightarrow> al dvd a b \<and> al dvd s b"
  and tiling_disjoint: "tiling al a s B lo hi \<Longrightarrow> x \<in> B \<Longrightarrow> y \<in> B \<Longrightarrow> x \<noteq> y \<Longrightarrow>
    a x + s x \<le> a y \<or> a y + s y \<le> a x"
  and tiling_cover: "tiling al a s B lo hi \<Longrightarrow> lo \<le> k \<Longrightarrow> k < hi \<Longrightarrow> \<exists>b \<in> B. a b \<le> k \<and> k < a b + s b"
  unfolding tiling_def by blast+

lemma tiling_recover:
  assumes "tiling al a s B lo hi" and "\<forall>b \<in> C. 0 < s' b \<and> al dvd a' b \<and> al dvd s' b"
    and "\<And>x y. x \<in> C \<Longrightarrow> y \<in> C \<Longrightarrow> x \<noteq> y \<Longrightarrow> a' x + s' x \<le> a' y \<or> a' y + s' y \<le> a' x"
    and "\<And>k. (\<exists>b \<in> C. a' b \<le> k \<and> k < a' b + s' b) \<longleftrightarrow> (\<exists>b \<in> B. a b \<le> k \<and> k < a b + s b)"
  shows "tiling al a' s' C lo hi"
proof -
  have "\<forall>k. lo \<le> k \<and> k < hi \<longleftrightarrow> (\<exists>b \<in> C. a' b \<le> k \<and> k < a' b + s' b)"
    using assms(1) unfolding tiling_def assms(4) by (elim conjE)
  with assms(2,3) show ?thesis unfolding tiling_def by (intro conjI ballI impI) simp_all
qed

lemma tiling_inside:
  assumes t: "tiling al a s B lo hi" and b: "b \<in> B"
  shows "lo \<le> a b" and "a b + s b \<le> hi"
proof -
  have s: "0 < s b" using t b by (rule tiling_size)
  have "\<And>k. a b \<le> k \<Longrightarrow> k < a b + s b \<Longrightarrow> lo \<le> k \<and> k < hi"
    using t b unfolding tiling_def by blast
  moreover obtain j where "s b = Suc j" using s by (cases "s b") auto
  ultimately have "lo \<le> a b \<and> a b + j < hi" by simp
  with \<open>s b = Suc j\<close> show "lo \<le> a b" "a b + s b \<le> hi" by simp_all
qed

lemma tiling_single: "0 < n \<Longrightarrow> al dvd lo \<Longrightarrow> al dvd n \<Longrightarrow> a b = lo \<Longrightarrow> s b = n \<Longrightarrow> tiling al a s {b} lo (lo + n)"
  by (auto simp: tiling_def)

lemma tiling_cong:
  assumes "tiling al a s B lo hi" and "\<And>b. b \<in> B \<Longrightarrow> a' b = a b \<and> s' b = s b"
  shows "tiling al a' s' B lo hi"
proof -
  have "(\<exists>b \<in> B. a' b \<le> k \<and> k < a' b + s' b) \<longleftrightarrow> (\<exists>b \<in> B. a b \<le> k \<and> k < a b + s b)" for k
    using assms(2) by auto
  then show ?thesis using assms unfolding tiling_def by simp
qed

lemma tiling_split:
  assumes t: "tiling al a s B lo hi" and b: "b \<in> B" and n: "n \<notin> B"
    and k: "0 < k" "k < s b" "al dvd k"
  shows "tiling al (a(n := a b + k)) (s(b := k, n := s b - k)) (insert n B) lo hi"
proof -
  let ?a = "a(n := a b + k)" and ?s = "s(b := k, n := s b - k)"
  have nb: "n \<noteq> b" using b n by auto
  have "\<forall>x \<in> insert n B. 0 < ?s x \<and> al dvd ?a x \<and> al dvd ?s x"
    using tiling_size [OF t] tiling_align [OF t] b nb k by (auto intro: dvd_diff_nat)
  moreover have "?a x + ?s x \<le> ?a y \<or> ?a y + ?s y \<le> ?a x"
    if "x \<in> insert n B" "y \<in> insert n B" "x \<noteq> y" for x y
    using that tiling_disjoint [OF t, of x y] tiling_disjoint [OF t, of b x] tiling_disjoint [OF t, of b y]
      b n nb k by (auto split: if_splits)
  moreover have "(\<exists>x \<in> insert n B. ?a x \<le> j \<and> j < ?a x + ?s x) \<longleftrightarrow> (\<exists>x \<in> B. a x \<le> j \<and> j < a x + s x)" for j
  proof
    assume "\<exists>x \<in> insert n B. ?a x \<le> j \<and> j < ?a x + ?s x"
    then obtain x where x: "x \<in> insert n B" "?a x \<le> j" "j < ?a x + ?s x" by blast
    show "\<exists>x \<in> B. a x \<le> j \<and> j < a x + s x"
    proof (cases "x = n \<or> x = b")
      case True
      with x b nb k show ?thesis by (intro bexI [of _ b]) auto
    next
      case False
      with x show ?thesis by (intro bexI [of _ x]) auto
    qed
  next
    assume "\<exists>x \<in> B. a x \<le> j \<and> j < a x + s x"
    then obtain x where x: "x \<in> B" "a x \<le> j" "j < a x + s x" by blast
    show "\<exists>x \<in> insert n B. ?a x \<le> j \<and> j < ?a x + ?s x"
    proof (cases "x = b \<and> a b + k \<le> j")
      case True
      with x nb k show ?thesis by (intro bexI [of _ n]) auto
    next
      case False
      with x nb n k show ?thesis by (intro bexI [of _ x]) (auto split: if_splits)
    qed
  qed
  ultimately show ?thesis by (rule tiling_recover [OF t])
qed

lemma tiling_merge:
  assumes t: "tiling al a s B lo hi" and b: "b \<in> B" "c \<in> B" "b \<noteq> c" and adj: "a c = a b + s b"
  shows "tiling al a (s(b := s b + s c)) (B - {c}) lo hi"
proof -
  let ?s = "s(b := s b + s c)"
  have "\<forall>x \<in> B - {c}. 0 < ?s x \<and> al dvd a x \<and> al dvd ?s x"
    using tiling_size [OF t] tiling_align [OF t] b by auto
  moreover have "a x + ?s x \<le> a y \<or> a y + ?s y \<le> a x"
    if "x \<in> B - {c}" "y \<in> B - {c}" "x \<noteq> y" for x y
    using that tiling_disjoint [OF t, of x y] tiling_disjoint [OF t, of c x] tiling_disjoint [OF t, of c y]
      tiling_disjoint [OF t, of b x] tiling_disjoint [OF t, of b y]
      tiling_size [OF t, of x] tiling_size [OF t, of y] b adj
    by (auto split: if_splits)
  moreover have "(\<exists>x \<in> B - {c}. a x \<le> j \<and> j < a x + ?s x) \<longleftrightarrow> (\<exists>x \<in> B. a x \<le> j \<and> j < a x + s x)" for j
  proof
    assume "\<exists>x \<in> B - {c}. a x \<le> j \<and> j < a x + ?s x"
    then obtain x where x: "x \<in> B" "x \<noteq> c" "a x \<le> j" "j < a x + ?s x" by blast
    show "\<exists>x \<in> B. a x \<le> j \<and> j < a x + s x"
    proof (cases "x = b \<and> a c \<le> j")
      case True
      with x b adj show ?thesis by (intro bexI [of _ c]) auto
    next
      case False
      with x b adj show ?thesis by (intro bexI [of _ x]) (auto split: if_splits)
    qed
  next
    assume "\<exists>x \<in> B. a x \<le> j \<and> j < a x + s x"
    then obtain x where x: "x \<in> B" "a x \<le> j" "j < a x + s x" by blast
    show "\<exists>x \<in> B - {c}. a x \<le> j \<and> j < a x + ?s x"
    proof (cases "x = c")
      case True
      with x b adj show ?thesis by (intro bexI [of _ b]) auto
    next
      case False
      with x b adj show ?thesis by (intro bexI [of _ x]) (auto split: if_splits)
    qed
  qed
  ultimately show ?thesis by (rule tiling_recover [OF t])
qed

text \<open>Blocks with a gap between any two of them can tile a range only if there is just one.\<close>

lemma tiling_gaps_single:
  assumes t: "tiling al a s (set xs) lo hi" and r: "sorted_wrt (\<lambda>x y. a x + s x < a y) xs" and lo: "lo < hi"
  shows "\<exists>x. xs = [x]"
proof -
  obtain x ys where xs: "xs = x # ys"
    using tiling_cover [OF t, of lo] lo by (cases xs) auto
  have "ys = []"
  proof (rule ccontr)
    assume "ys \<noteq> []"
    then obtain y where y: "y \<in> set ys" by (cases ys) auto
    with r xs have "a x + s x < a y" by simp
    with tiling_inside [OF t, of y] tiling_inside [OF t, of x] y xs
    obtain z where "z \<in> set xs" "a z \<le> a x + s x" "a x + s x < a z + s z"
      using tiling_cover [OF t, of "a x + s x"] by auto
    with r xs show False by auto
  qed
  with xs show ?thesis by simp
qed

end
