(* ===== verification/Mem_Alloc_Inv.thy ===== *)
theory Mem_Alloc_Inv
  imports Mem_Alloc_Page Tiling
begin

text \<open>
  The invariant of a page and its preservation. \<open>page_inv\<close> adds the geometry to \<open>links\<close>:
  free and used blocks tile the page, no two free blocks touch, the \<open>M\<close> list is sorted by
  address and the \<open>S\<close> list by decreasing size. \<open>page_t::allocate\<close> and \<open>page_t::release\<close>
  return and keep it, \<open>findFreeBlock\<close> is best fit, and an empty page satisfies what the
  destructor asserts.
\<close>

subsection \<open>The invariant\<close>

abbreviation ba :: "page_t \<Rightarrow> bid \<Rightarrow> nat" where "ba p \<equiv> (\<lambda>x. unat (blk_addr p x))"
abbreviation bs :: "page_t \<Rightarrow> bid \<Rightarrow> nat" where "bs p \<equiv> (\<lambda>x. unat (blk_size p x))"
abbreviation pg_lo :: "page_t \<Rightarrow> nat" where "pg_lo p \<equiv> unat (pg_addr p)"
abbreviation pg_hi :: "page_t \<Rightarrow> nat" where "pg_hi p \<equiv> unat (pg_addr p) + unat (pg_size p)"

definition tiled :: "page_t \<Rightarrow> bid set \<Rightarrow> bool" where
  "tiled p B \<longleftrightarrow> pg_hi p < 2 ^ 64 \<and> 0 < unat (pg_blockAlign p) \<and>
     tiling (unat (pg_blockAlign p)) (ba p) (bs p) B (pg_lo p) (pg_hi p)"

definition apart :: "page_t \<Rightarrow> bid list \<Rightarrow> bool" where
  "apart p = sorted_wrt (\<lambda>x y. ba p x + bs p x < ba p y)"

definition by_size :: "page_t \<Rightarrow> bid list \<Rightarrow> bool" where
  "by_size p = sorted_wrt (\<lambda>x y. bs p y \<le> bs p x)"

definition page_inv :: "page_t \<Rightarrow> bid list \<Rightarrow> bid list \<Rightarrow> bid list \<Rightarrow> bool" where
  "page_inv p ms ss us \<longleftrightarrow>
     links p (set ms \<union> set us) ms ss us \<and> set ms \<inter> set us = {} \<and> set ss = set ms \<and>
     tiled p (set ms \<union> set us) \<and> apart p ms \<and> by_size p ss"

text \<open>What the operations leave alone: the page's range and the given blocks.\<close>

definition same_on :: "page_t \<Rightarrow> page_t \<Rightarrow> bid set \<Rightarrow> bool" where
  "same_on p p' B \<longleftrightarrow> pg_addr p' = pg_addr p \<and> pg_size p' = pg_size p \<and>
     pg_blockAlign p' = pg_blockAlign p \<and>
     (\<forall>x \<in> B. blk_addr p' x = blk_addr p x \<and> blk_size p' x = blk_size p x)"

lemma geom_eq: "geom p' = (a, s, al, f, g) \<Longrightarrow>
    pg_addr p' = a \<and> pg_size p' = s \<and> pg_blockAlign p' = al \<and> blk_addr p' = f \<and> blk_size p' = g"
  by (simp add: geom_def)

lemma geom_same: "geom p' = geom p \<Longrightarrow>
    pg_addr p' = pg_addr p \<and> pg_size p' = pg_size p \<and> pg_blockAlign p' = pg_blockAlign p \<and>
    blk_addr p' = blk_addr p \<and> blk_size p' = blk_size p"
  by (simp add: geom_def)

lemma tiled_geom: "geom p' = geom p \<Longrightarrow> tiled p' B = tiled p B"
  and apart_geom: "geom p' = geom p \<Longrightarrow> apart p' = apart p"
  and by_size_geom: "geom p' = geom p \<Longrightarrow> by_size p' = by_size p"
  and same_on_geom: "geom p' = geom p \<Longrightarrow> same_on q p' B = same_on q p B"
  by (simp_all add: tiled_def apart_def by_size_def same_on_def geom_def)

lemma same_on_trans: "same_on p q B \<Longrightarrow> same_on q r B \<Longrightarrow> same_on p r B"
  by (simp add: same_on_def)

lemma tiled_block:
  assumes "tiled p B" "b \<in> B"
  shows "unat (blk_addr p b) + unat (blk_size p b) < 2 ^ 64" "0 < bs p b"
    "pg_lo p \<le> ba p b" "ba p b + bs p b \<le> pg_hi p"
    "unat (pg_blockAlign p) dvd ba p b" "unat (pg_blockAlign p) dvd bs p b"
  using assms tiling_inside [of "unat (pg_blockAlign p)" "ba p" "bs p" B "pg_lo p" "pg_hi p" b]
    tiling_size [of "unat (pg_blockAlign p)" "ba p" "bs p" B "pg_lo p" "pg_hi p" b]
    tiling_align [of "unat (pg_blockAlign p)" "ba p" "bs p" B "pg_lo p" "pg_hi p" b]
  by (simp_all add: tiled_def)

lemma tiled_disjoint: "tiled p B \<Longrightarrow> b \<in> B \<Longrightarrow> c \<in> B \<Longrightarrow> b \<noteq> c \<Longrightarrow>
    ba p b + bs p b \<le> ba p c \<or> ba p c + bs p c \<le> ba p b"
  unfolding tiled_def by (elim conjE) (rule tiling_disjoint)

lemma tiled_split:
  assumes t: "tiled p B" and b: "b \<in> B" "n \<notin> B"
    and s: "0 < unat s" "unat s < bs p b" "unat (pg_blockAlign p) dvd unat s"
    and g: "geom p' = (pg_addr p, pg_size p, pg_blockAlign p, (blk_addr p)(n := blk_addr p b + s),
      (blk_size p)(b := s, n := blk_size p b - s))"
  shows "tiled p' (insert n B)"
proof -
  have "b \<noteq> n" using b by auto
  have "unat (blk_addr p b + s) = ba p b + unat s"
    using tiled_block(1) [OF t b(1)] s(2) by (intro unat_add_exact) simp
  moreover have "unat (blk_size p b - s) = bs p b - unat s"
    using s(2) by (simp add: unat_simps)
  ultimately have "ba p' = (ba p)(n := ba p b + unat s)" "bs p' = (bs p)(b := unat s, n := bs p b - unat s)"
    using geom_eq [OF g] by auto
  with t b s show ?thesis
    using geom_eq [OF g] tiling_split [of _ "ba p" "bs p" B _ _ b n "unat s"] by (simp add: tiled_def)
qed

lemma tiled_merge:
  assumes t: "tiled p B" and b: "b \<in> B" "c \<in> B" "b \<noteq> c"
    and adj: "blk_addr p c = blk_addr p b + blk_size p b"
    and g: "geom p' = with_size p b (blk_size p b + blk_size p c)"
  shows "tiled p' (B - {c})" and "bs p' = (bs p)(b := bs p b + bs p c)" and "ba p' = ba p"
    and "ba p c = ba p b + bs p b"
proof -
  show a: "ba p c = ba p b + bs p b"
    using tiled_block(1) [OF t b(1)] adj by (simp add: unat_add_exact)
  have "unat (blk_size p b + blk_size p c) = bs p b + bs p c"
    using tiled_block(1) [OF t b(2)] a by (intro unat_add_exact) simp
  then show s: "bs p' = (bs p)(b := bs p b + bs p c)" and "ba p' = ba p"
    using geom_eq [OF g] by auto
  then show "tiled p' (B - {c})"
    using t geom_eq [OF g] tiling_merge [of _ "ba p" "bs p" B _ _ b c] b a by (simp add: tiled_def)
qed

lemma page_invD:
  assumes "page_inv p ms ss us"
  shows "links p (set ms \<union> set us) ms ss us" "set ms \<inter> set us = {}" "set ss = set ms"
    "tiled p (set ms \<union> set us)" "apart p ms" "by_size p ss" "distinct ms" "distinct ss" "distinct us"
  using assms links_distinct [of p _ ms ss us] by (auto simp: page_inv_def)

lemma page_inv_new:
  assumes "0 < unat s" "0 < unat al" "unat al dvd unat a" "unat al dvd unat s" "unat a + unat s < 2 ^ 64"
  shows "page_inv (page_new a s al) [0] [0] []"
  using assms tiling_single [of "unat s" "unat al" "unat a" "\<lambda>x. if x = 0 then unat a else 0" 0
    "\<lambda>x. if x = 0 then unat s else 0"]
  by (auto simp: page_inv_def links_def tiled_def apart_def by_size_def page_new_def new_block_def
      Let_def if_distrib fun_upd_def cong: if_cong)

lemma apart_remove: "apart p (xs @ b # ys) \<Longrightarrow> apart p (xs @ ys)"
  by (auto simp: apart_def sorted_wrt_append)

lemma by_size_remove1: "by_size p ss \<Longrightarrow> by_size p (remove1 b ss)"
  unfolding by_size_def by (induction ss) (simp_all, meson notin_set_remove1)

lemma sorted_wrt_cong_set:
  "(\<And>x y. x \<in> set xs \<Longrightarrow> y \<in> set xs \<Longrightarrow> R x y \<longleftrightarrow> Q x y) \<Longrightarrow> sorted_wrt R xs \<longleftrightarrow> sorted_wrt Q xs"
  by (induction xs) auto

lemma by_size_cong: "(\<And>x. x \<in> set ss \<Longrightarrow> blk_size p' x = blk_size p x) \<Longrightarrow> by_size p' ss = by_size p ss"
  unfolding by_size_def by (rule sorted_wrt_cong_set) simp

lemma apart_cong:
  "(\<And>x. x \<in> set ms \<Longrightarrow> blk_size p' x = blk_size p x \<and> blk_addr p' x = blk_addr p x) \<Longrightarrow> apart p' ms = apart p ms"
  unfolding apart_def by (rule sorted_wrt_cong_set) simp

lemma by_size_insert:
  "by_size p ss \<Longrightarrow> by_size p (insert_while (\<lambda>x. blk_size p x > blk_size p b) b ss)"
  unfolding by_size_def by (rule sorted_insert_while) (auto simp: unat_simps)

subsection \<open>Allocating\<close>

lemma apart_split_insert:
  assumes "apart p (xs @ b # ys)" and "n \<notin> set (xs @ ys)" "b \<notin> set (xs @ ys)" and "b \<noteq> n"
    and "ba p' = (ba p)(n := ba p b + k)" "bs p' = (bs p)(b := k, n := bs p b - k)" and "k \<le> bs p b"
  shows "apart p' (insert_while (\<lambda>x. blk_addr p' x < blk_addr p' n) n (xs @ ys))"
  unfolding apart_def
proof (rule sorted_insert_while)
  have e: "ba p' x = ba p x" "bs p' x = bs p x" if "x \<in> set (xs @ ys)" for x
    using assms(2-6) that by (auto simp: fun_eq_iff split: if_splits)
  have n: "ba p' n = ba p b + k" "bs p' n = bs p b - k"
    using assms(4-6) by (simp_all add: fun_eq_iff)
  have "sorted_wrt (\<lambda>x y. ba p x + bs p x < ba p y) (xs @ ys)"
    using assms(1) by (auto simp: apart_def sorted_wrt_append)
  then show "sorted_wrt (\<lambda>x y. ba p' x + bs p' x < ba p' y) (xs @ ys)"
    using e by (subst sorted_wrt_cong_set [where Q = "\<lambda>x y. ba p x + bs p x < ba p y"]) simp_all
  fix x assume x: "x \<in> set (xs @ ys)"
  have c: "x \<in> set xs \<and> ba p x + bs p x < ba p b \<or> x \<in> set ys \<and> ba p b + bs p b < ba p x"
    using assms(1) x by (auto simp: apart_def sorted_wrt_append)
  show "ba p' x + bs p' x < ba p' n" if "blk_addr p' x < blk_addr p' n"
    using that e [OF x] n c assms(7) by (auto simp: word_less_nat_alt)
  show "ba p' n + bs p' n < ba p' x" if "\<not> blk_addr p' x < blk_addr p' n"
    using that e [OF x] n c assms(7) by (auto simp: word_less_nat_alt)
qed (auto simp: word_less_nat_alt)

lemma removeFree_block:
  assumes k: "links p L ms ss us" and b: "b \<in> set ms" "set ss = set ms"
  obtains xs ys p1 p2 where "ms = xs @ b # ys" "removeFreeMList p b = Some p1" "removeFreeSList p1 b = Some p2"
    "links p2 L (xs @ ys) (remove1 b ss) us" "geom p2 = geom p"
proof -
  from b(1) obtain xs ys where ms: "ms = xs @ b # ys" by (meson split_list)
  from k obtain p1 where p1: "removeFreeMList p b = Some p1" "links p1 L (xs @ ys) ss us" "geom p1 = geom p"
    unfolding ms by (rule links_removeM)
  have "b \<in> set ss" using b by simp
  with p1(2) obtain p2 where "removeFreeSList p1 b = Some p2" "links p2 L (xs @ ys) (remove1 b ss) us"
    "geom p2 = geom p1"
    by (rule links_removeS)
  with ms p1 that show thesis by simp
qed

lemma page_allocate_exact:
  assumes i: "page_inv p ms ss us" and b: "b \<in> set ms" "blk_size p b = s" and al: "0 < unat (pg_blockAlign p)"
  shows "\<exists>p' ms' ss'. page_allocate p s b = Some p' \<and> page_inv p' ms' ss' (b # us) \<and>
    same_on p p' (insert b (set us))"
proof -
  note I = page_invD [OF i]
  from I(1) b(1) I(3) obtain xs ys p1 p2 where r: "ms = xs @ b # ys" "removeFreeMList p b = Some p1"
    "removeFreeSList p1 b = Some p2" "links p2 (set ms \<union> set us) (xs @ ys) (remove1 b ss) us" "geom p2 = geom p"
    by (rule removeFree_block)
  have d: "b \<notin> set us" "b \<in> set ms \<union> set us" using I(2) b by auto
  from r(4) d(2,1) obtain p3 where p3: "insertUsedList p2 b = Some p3"
    "links p3 (set ms \<union> set us) (xs @ ys) (remove1 b ss) (b # us)" "geom p3 = geom p2"
    by (rule links_insertUsed)
  have g: "geom p3 = geom p" using p3 r by simp
  have "\<not> (ucast (pg_blockAlign p2) :: u64) \<le> 0"
    using al geom_same [OF r(5)] by (simp add: unat_simps)
  then have "page_allocate p s b = Some p3"
    using r p3 d(2) b geom_same [OF r(5)] by (simp add: page_allocate_def links_live [OF r(4)])
  moreover have "page_inv p3 (xs @ ys) (remove1 b ss) (b # us)"
  proof -
    have "set (xs @ ys) \<inter> set (b # us) = {}" "set (remove1 b ss) = set (xs @ ys)"
      "set ms \<union> set us = set (xs @ ys) \<union> set (b # us)"
      using I(2,3,7,8) r(1) by auto
    with I(4-6) p3(2) show ?thesis
      unfolding page_inv_def tiled_geom [OF g] apart_geom [OF g] by_size_geom [OF g] r(1)
      by (metis apart_remove by_size_remove1)
  qed
  moreover have "same_on p p3 (insert b (set us))" using geom_same [OF g] by (simp add: same_on_def)
  ultimately show ?thesis by blast
qed

lemma page_inv_split:
  assumes i: "page_inv p (xs @ b # ys) ss us" and n: "n \<notin> set (xs @ b # ys) \<union> set us"
    and s: "0 < unat s" "unat s < bs p b" "unat (pg_blockAlign p) dvd unat s"
    and g: "geom p4 = (pg_addr p, pg_size p, pg_blockAlign p, (blk_addr p)(n := blk_addr p b + s),
      (blk_size p)(b := s, n := blk_size p b - s))" "geom p5 = geom p4" "geom p7 = geom p4"
    and k: "links p7 (insert n (set (xs @ b # ys) \<union> set us))
      (insert_while (\<lambda>x. blk_addr p4 x < blk_addr p4 n) n (xs @ ys))
      (insert_while (\<lambda>x. blk_size p5 x > blk_size p5 n) n (remove1 b ss)) (b # us)"
  shows "page_inv p7 (insert_while (\<lambda>x. blk_addr p4 x < blk_addr p4 n) n (xs @ ys))
      (insert_while (\<lambda>x. blk_size p5 x > blk_size p5 n) n (remove1 b ss)) (b # us)"
proof -
  note I = page_invD [OF i]
  note G = geom_eq [OF g(1)] geom_same [OF g(2)] geom_same [OF g(3)]
  have nb: "n \<noteq> b" and d: "distinct (xs @ b # ys)" using n I(7) by auto
  have b: "b \<in> set (xs @ b # ys) \<union> set us" by simp
  have t: "tiled p7 (insert n (set (xs @ b # ys) \<union> set us))"
    using tiled_split [OF I(4) b n s g(1)] tiled_geom [OF g(3)] by simp
  have "unat (blk_addr p b + s) = ba p b + unat s"
    using tiled_block(1) [OF I(4) b] s(2) by (intro unat_add_exact) simp
  moreover have "unat (blk_size p b - s) = bs p b - unat s" using s(2) by (simp add: unat_simps)
  ultimately have "ba p4 = (ba p)(n := ba p b + unat s)" "bs p4 = (bs p)(b := unat s, n := bs p b - unat s)"
    using G by auto
  with I(5) n d nb s(2)
  have a: "apart p7 (insert_while (\<lambda>x. blk_addr p4 x < blk_addr p4 n) n (xs @ ys))"
    unfolding apart_geom [OF g(3)] by (intro apart_split_insert [where b = b and k = "unat s"]) auto
  have "b \<notin> set (remove1 b ss)" "n \<notin> set (remove1 b ss)" using I(3,8) n notin_set_remove1 by auto
  then have "by_size p5 (remove1 b ss)"
    using by_size_remove1 [OF I(6)] G by (subst by_size_cong [of _ _ p]) auto
  then have z: "by_size p7 (insert_while (\<lambda>x. blk_size p5 x > blk_size p5 n) n (remove1 b ss))"
    using by_size_insert [of p5 "remove1 b ss" n] by_size_geom [OF g(3)] by_size_geom [OF g(2)] by simp
  have e: "set (xs @ b # ys) = insert b (set (xs @ ys))" "b \<notin> set (xs @ ys)" using d by auto
  have "set (remove1 b ss) = set (xs @ ys)" using I(3,8) e by simp
  moreover have "insert n (set (xs @ ys)) \<inter> set (b # us) = {}" using e n nb I(2) by auto
  moreover have "insert n (set (xs @ b # ys) \<union> set us) = insert n (set (xs @ ys)) \<union> set (b # us)" by auto
  ultimately show ?thesis
    unfolding page_inv_def using k t a z by (simp del: set_append)
qed

lemma page_allocate_split:
  assumes i: "page_inv p ms ss us" and b: "b \<in> set ms" "s < blk_size p b" "0 < unat s"
    and al: "0 < unat (pg_blockAlign p)" "unat (pg_blockAlign p) dvd unat s"
  shows "\<exists>p' ms' ss'. page_allocate p s b = Some p' \<and> page_inv p' ms' ss' (b # us) \<and>
    same_on p p' (set us) \<and> blk_addr p' b = blk_addr p b \<and> blk_size p' b = s"
proof -
  let ?L = "set ms \<union> set us"
  note I = page_invD [OF i]
  from I(1) b(1) I(3) obtain xs ys p1 p2 where r: "ms = xs @ b # ys" "removeFreeMList p b = Some p1"
    "removeFreeSList p1 b = Some p2" "links p2 ?L (xs @ ys) (remove1 b ss) us" "geom p2 = geom p"
    by (rule removeFree_block)
  have d: "b \<notin> set us" "b \<in> ?L" using I(2) b by auto
  from r(4) d(2) obtain p3 where p3: "wr blk_size_update p2 b s = Some p3"
    "links p3 ?L (xs @ ys) (remove1 b ss) us" "geom p3 = with_size p2 b s"
    by (rule links_set_size)
  obtain n p4 where n: "new_block p3 (blk_addr p b + s) (blk_size p b - s) = (n, p4)"
    by (cases "new_block p3 (blk_addr p b + s) (blk_size p b - s)")
  note p4 = links_new_block [OF p3(2) n]
  have g4: "geom p4 = (pg_addr p, pg_size p, pg_blockAlign p, (blk_addr p)(n := blk_addr p b + s),
      (blk_size p)(b := s, n := blk_size p b - s))"
    using p4(3) geom_eq [OF p3(3)] geom_same [OF r(5)] by simp
  have nn: "n \<in> insert n ?L" "n \<notin> set (xs @ ys)" "n \<notin> set (remove1 b ss)" "n \<noteq> b"
    using p4(2) r(1) I(3) d(2) notin_set_remove1 by (auto dest: notin_set_remove1)
  from p4(1) nn(1,2) obtain p5 where p5: "insertFreeMList p4 n = Some p5"
    "links p5 (insert n ?L) (insert_while (\<lambda>x. blk_addr p4 x < blk_addr p4 n) n (xs @ ys)) (remove1 b ss) us"
    "geom p5 = geom p4"
    by (rule links_insertM)
  from p5(2) nn(1,3) obtain p6 where p6: "insertFreeSList p5 n = Some p6"
    "links p6 (insert n ?L) (insert_while (\<lambda>x. blk_addr p4 x < blk_addr p4 n) n (xs @ ys))
       (insert_while (\<lambda>x. blk_size p5 x > blk_size p5 n) n (remove1 b ss)) us" "geom p6 = geom p5"
    by (rule links_insertS)
  have "b \<in> insert n ?L" using d by simp
  with p6(2) obtain p7 where p7: "insertUsedList p6 b = Some p7"
    "links p7 (insert n ?L) (insert_while (\<lambda>x. blk_addr p4 x < blk_addr p4 n) n (xs @ ys))
       (insert_while (\<lambda>x. blk_size p5 x > blk_size p5 n) n (remove1 b ss)) (b # us)" "geom p7 = geom p6"
    using d(1) by (rule links_insertUsed)
  have g: "geom p7 = geom p4" using p7 p6 p5 by simp
  have sz: "unat s < bs p b" using b by (simp add: unat_simps)
  have "(ucast (pg_blockAlign p2) :: u64) \<le> blk_size p b - s"
  proof -
    have "unat (pg_blockAlign p) dvd bs p b - unat s"
      using tiled_block(6) [OF I(4) d(2)] al(2) by (rule dvd_diff_nat)
    with sz have "unat (pg_blockAlign p) \<le> bs p b - unat s" by (intro dvd_imp_le) simp_all
    then show ?thesis
      using geom_same [OF r(5)] b(2) by (simp add: unat_simps)
  qed
  then have "page_allocate p s b = Some p7"
    using r p3 n p5(1) p6(1) p7(1) d(2) geom_same [OF r(5)] geom_eq [OF p3(3)]
    by (simp add: page_allocate_def links_live [OF r(4)] links_live [OF p3(2)] Let_def del: wr_Some)
  moreover have "page_inv p7 (insert_while (\<lambda>x. blk_addr p4 x < blk_addr p4 n) n (xs @ ys))
       (insert_while (\<lambda>x. blk_size p5 x > blk_size p5 n) n (remove1 b ss)) (b # us)"
    using i p4(2) b(3) sz al(2) g4 p5(3) g p7(2) unfolding r(1) by (rule page_inv_split)
  moreover have "same_on p p7 (set us)" "blk_addr p7 b = blk_addr p b" "blk_size p7 b = s"
    using geom_same [OF g] geom_eq [OF g4] p4(2) d nn(4) by (auto simp: same_on_def)
  ultimately show ?thesis by blast
qed

lemma page_allocate_inv:
  assumes "page_inv p ms ss us" "b \<in> set ms" "s \<le> blk_size p b" "0 < unat s" "unat (pg_blockAlign p) dvd unat s"
  obtains p' ms' ss' where "page_allocate p s b = Some p'" "page_inv p' ms' ss' (b # us)"
    "same_on p p' (set us)" "blk_addr p' b = blk_addr p b" "blk_size p' b = s"
proof -
  have al: "0 < unat (pg_blockAlign p)" using page_invD(4) [OF assms(1)] by (simp add: tiled_def)
  show thesis
  proof (cases "blk_size p b = s")
    case True
    with page_allocate_exact [OF assms(1,2) True al] that show ?thesis by (auto simp: same_on_def)
  next
    case False
    with assms(3) have "s < blk_size p b" by simp
    from page_allocate_split [OF assms(1,2) this assms(4) al assms(5)] that show ?thesis by blast
  qed
qed

subsection \<open>Releasing\<close>

text \<open>
  The state between inserting the released block \<open>c\<close> in the \<open>M\<close> list and inserting it in
  the \<open>S\<close> list: \<open>A\<close> and \<open>D\<close> are the free blocks below and above it.
\<close>

definition releasing :: "page_t \<Rightarrow> bid list \<Rightarrow> bid \<Rightarrow> bid list \<Rightarrow> bid list \<Rightarrow> bid list \<Rightarrow> bool" where
  "releasing p A c D ss us \<longleftrightarrow>
     links p (set (A @ c # D) \<union> set us) (A @ c # D) ss us \<and> set (A @ c # D) \<inter> set us = {} \<and>
     set ss = set (A @ D) \<and> tiled p (set (A @ c # D) \<union> set us) \<and> apart p (A @ D) \<and> by_size p ss \<and>
     (\<forall>x \<in> set A. ba p x + bs p x \<le> ba p c) \<and> (\<forall>x \<in> set D. ba p c + bs p c \<le> ba p x)"

lemma releasingD:
  assumes "releasing p A c D ss us"
  shows "links p (set (A @ c # D) \<union> set us) (A @ c # D) ss us" "set (A @ c # D) \<inter> set us = {}"
    "set ss = set (A @ D)" "tiled p (set (A @ c # D) \<union> set us)" "apart p (A @ D)" "by_size p ss"
    "\<forall>x \<in> set A. ba p x + bs p x \<le> ba p c" "\<forall>x \<in> set D. ba p c + bs p c \<le> ba p x"
    "distinct (A @ c # D)" "distinct ss"
  using assms links_distinct [of p _ "A @ c # D" ss us] by (auto simp: releasing_def simp del: set_append distinct_append)

lemma remove_insertM_releasing:
  assumes i: "page_inv p ms ss (xs @ b # ys)"
  obtains p1 p2 A D where "removeUsedList p b = Some p1" "insertFreeMList p1 b = Some p2"
    "releasing p2 A b D ss (xs @ ys)" "geom p2 = geom p"
proof -
  let ?L = "set ms \<union> set (xs @ b # ys)"
  note I = page_invD [OF i]
  from I(1) obtain p1 where p1: "removeUsedList p b = Some p1" "links p1 ?L ms ss (xs @ ys)" "geom p1 = geom p"
    by (rule links_removeUsed)
  have b: "b \<in> ?L" "b \<notin> set ms" using I(2) by auto
  from p1(2) b obtain p2 where p2: "insertFreeMList p1 b = Some p2"
    "links p2 ?L (insert_while (\<lambda>x. blk_addr p1 x < blk_addr p1 b) b ms) ss (xs @ ys)" "geom p2 = geom p1"
    by (rule links_insertM)
  define A where "A = takeWhile (\<lambda>x. blk_addr p1 x < blk_addr p1 b) ms"
  define D where "D = dropWhile (\<lambda>x. blk_addr p1 x < blk_addr p1 b) ms"
  have AD: "A @ D = ms" "insert_while (\<lambda>x. blk_addr p1 x < blk_addr p1 b) b ms = A @ b # D"
    by (simp_all add: A_def D_def insert_while_def)
  have g: "geom p2 = geom p" using p1 p2 by simp
  have s: "set (A @ b # D) = insert b (set ms)" by (metis AD(2) set_insert_while)
  have sep: "ba p x + bs p x \<le> ba p b \<or> ba p b + bs p b \<le> ba p x" if "x \<in> set ms" for x
    using I(4) that b tiling_disjoint [of _ "ba p" "bs p" ?L _ _ x b] by (auto simp: tiled_def)
  have ord: "apart p (A @ D)" using I(5) AD by simp
  have "ba p x + bs p x \<le> ba p b" if "x \<in> set A" for x
  proof -
    have x: "x \<in> set ms" "blk_addr p1 x < blk_addr p1 b" using set_takeWhileD that unfolding A_def by metis+
    then have "ba p x < ba p b" using geom_same [OF p1(3)] by (simp add: unat_simps)
    with sep [OF x(1)] show ?thesis by linarith
  qed
  moreover have "ba p b + bs p b \<le> ba p x" if x: "x \<in> set D" for x
  proof -
    obtain d D' where D': "D = d # D'" using x by (cases D) auto
    then have "\<not> blk_addr p1 d < blk_addr p1 b" unfolding D_def by (simp add: dropWhile_eq_Cons_conv)
    then have "ba p b \<le> ba p d" using geom_same [OF p1(3)] by (simp add: unat_simps)
    moreover have "ba p d \<le> ba p x" using ord x D' by (auto simp: apart_def sorted_wrt_append)
    moreover have m: "x \<in> set ms" using x AD(1) by (metis UnCI set_append)
    moreover have "0 < bs p x" using tiled_block(2) [OF I(4), of x] m by simp
    ultimately show ?thesis using sep [OF m] by linarith
  qed
  moreover have "?L = set (A @ b # D) \<union> set (xs @ ys)" using s by auto
  moreover have "set (A @ b # D) \<inter> set (xs @ ys) = {}" using s I(2,9) by auto
  ultimately have "releasing p2 A b D ss (xs @ ys)"
    using p2(2) I(3,4,6) ord geom_same [OF g] AD
    unfolding releasing_def tiled_geom [OF g] apart_geom [OF g] by_size_geom [OF g] by simp
  with p1 p2 g that show thesis by blast
qed

lemma mergeLeft_releasing:
  assumes i: "releasing p A c D ss us"
  obtains p' A' c' ss' where "mergeLeft p c = Some (c', p')" "releasing p' A' c' D ss' us"
    "\<forall>x \<in> set A'. ba p' x + bs p' x < ba p' c'" "same_on p p' (set us)"
proof (cases "A = [] \<or> blk_addr p c \<noteq> blk_addr p (last A) + blk_size p (last A)")
  case True
  note I = releasingD [OF i]
  have "mergeLeft p c = Some (c, p)" using I(1) True by (rule mergeLeft_keeps)
  moreover have "ba p x + bs p x < ba p c" if x: "x \<in> set A" for x
  proof -
    obtain A' l where A: "A = A' @ [l]" using x by (cases A rule: rev_cases) auto
    have "ba p c \<noteq> ba p l + bs p l"
      using True A tiled_block(1) [OF I(4), of l] unat_add_exact [of "blk_addr p l" "blk_size p l"]
      by (auto simp: word_unat_eq_iff)
    moreover have "x \<noteq> l \<Longrightarrow> ba p x + bs p x < ba p l" using I(5) x A by (auto simp: apart_def sorted_wrt_append)
    ultimately show ?thesis using I(7) x A by (cases "x = l") force+
  qed
  moreover have "same_on p p (set us)" by (simp add: same_on_def)
  ultimately show thesis using that i by blast
next
  case False
  note I = releasingD [OF i]
  then obtain A' l where A: "A = A' @ [l]" using False by (cases A rule: rev_cases) auto
  let ?L = "set (A @ c # D) \<union> set us"
  have adj: "blk_addr p c = blk_addr p l + blk_size p l" using False A by simp
  have n: "l \<in> set ss" "c \<notin> set ss" "c \<notin> set us" "l \<in> ?L" "c \<in> ?L" "l \<noteq> c" "l \<notin> set us"
    using I(2,3,9) A by auto
  have k: "links p ?L (A' @ l # c # D) ss us" using I(1) A by simp
  from k n(1-3) adj obtain p' where p': "mergeLeft p c = Some (l, p')"
    "links p' (?L - {c}) (A' @ l # D) (remove1 l ss) us" "geom p' = with_size p l (blk_size p l + blk_size p c)"
    by (rule mergeLeft_merges)
  note m = tiled_merge [OF I(4) n(4-6) adj p'(3)]
  have L: "?L - {c} = set (A' @ l # D) \<union> set us" using I(2,9) A by auto
  have r: "set (remove1 l ss) = set (A' @ D)" using I(3,9,10) A by auto
  have "l \<notin> set (A' @ D) \<union> set us" using I(9) A n(7) by auto
  then have e: "blk_addr p' x = blk_addr p x \<and> blk_size p' x = blk_size p x" if "x \<in> set (A' @ D) \<union> set us" for x
    using geom_eq [OF p'(3)] that by auto
  have "apart p (A' @ D)" using I(5) A apart_remove [of p A' l D] by simp
  moreover have "apart p' (A' @ D) = apart p (A' @ D)" by (rule apart_cong) (use e in blast)
  ultimately have "apart p' (A' @ D)" by simp
  moreover have "by_size p' (remove1 l ss) = by_size p (remove1 l ss)"
    by (rule by_size_cong) (use e r in blast)
  with by_size_remove1 [OF I(6)] have "by_size p' (remove1 l ss)" by simp
  moreover have left: "\<forall>x \<in> set A'. ba p' x + bs p' x < ba p' l"
    using I(5) A e geom_eq [OF p'(3)] by (auto simp: apart_def sorted_wrt_append)
  moreover have "\<forall>x \<in> set D. ba p' l + bs p' l \<le> ba p' x"
    using I(8) m(2-4) n(6) by (simp add: fun_eq_iff add.assoc)
  ultimately have "releasing p' A' l D (remove1 l ss) us"
    using p'(2) m(1) r I(2) A unfolding releasing_def L by (auto intro: less_imp_le)
  moreover have "same_on p p' (set us)" using e geom_eq [OF p'(3)] by (auto simp: same_on_def)
  ultimately show thesis using that p'(1) left by blast
qed

lemma mergeRight_releasing:
  assumes i: "releasing p A c D ss us" and left: "\<forall>x \<in> set A. ba p x + bs p x < ba p c"
  obtains p' D' ss' where "mergeRight p c = Some p'" "releasing p' A c D' ss' us" "apart p' (A @ c # D')"
    "same_on p p' (set us)"
proof (cases "D = [] \<or> blk_addr p (hd D) \<noteq> blk_addr p c + blk_size p c")
  case True
  note I = releasingD [OF i]
  have "mergeRight p c = Some p" using I(1) True by (rule mergeRight_keeps)
  moreover have "ba p c + bs p c < ba p x" if x: "x \<in> set D" for x
  proof -
    obtain d D' where D: "D = d # D'" using x by (cases D) auto
    have "ba p d \<noteq> ba p c + bs p c"
      using True D tiled_block(1) [OF I(4), of c] unat_add_exact [of "blk_addr p c" "blk_size p c"]
      by (auto simp: word_unat_eq_iff)
    moreover have "x \<noteq> d \<Longrightarrow> ba p d + bs p d < ba p x" using I(5) x D by (auto simp: apart_def sorted_wrt_append)
    ultimately show ?thesis using I(8) x D by (cases "x = d") force+
  qed
  then have "apart p (A @ c # D)" using I(5) left by (auto simp: apart_def sorted_wrt_append)
  moreover have "same_on p p (set us)" by (simp add: same_on_def)
  ultimately show thesis using that i by blast
next
  case False
  note I = releasingD [OF i]
  then obtain r D' where D: "D = r # D'" using False by (cases D) auto
  let ?L = "set (A @ c # D) \<union> set us"
  have adj: "blk_addr p r = blk_addr p c + blk_size p c" using False D by simp
  have n: "r \<in> set ss" "r \<notin> set us" "c \<in> ?L" "r \<in> ?L" "c \<noteq> r" "c \<notin> set us"
    using I(2,3,9) D by auto
  have k: "links p ?L (A @ c # r # D') ss us" using I(1) D by simp
  from k n(1,2) adj obtain p' where p': "mergeRight p c = Some p'"
    "links p' (?L - {r}) (A @ c # D') (remove1 r ss) us" "geom p' = with_size p c (blk_size p c + blk_size p r)"
    by (rule mergeRight_merges)
  note m = tiled_merge [OF I(4) n(3-5) adj p'(3)]
  have L: "?L - {r} = set (A @ c # D') \<union> set us" using I(2,9) D by auto
  have s: "set (remove1 r ss) = set (A @ D')" using I(3,9,10) D by auto
  have "c \<notin> set (A @ D') \<union> set us" using I(9) D n(6) by auto
  then have e: "blk_addr p' x = blk_addr p x \<and> blk_size p' x = blk_size p x" if "x \<in> set (A @ D') \<union> set us" for x
    using geom_eq [OF p'(3)] that by auto
  have "apart p (A @ D')" using I(5) D apart_remove [of p A r D'] by simp
  moreover have "apart p' (A @ D') = apart p (A @ D')" by (rule apart_cong) (use e in blast)
  ultimately have ap: "apart p' (A @ D')" by simp
  have "by_size p' (remove1 r ss) = by_size p (remove1 r ss)"
    by (rule by_size_cong) (use e s in blast)
  with by_size_remove1 [OF I(6)] have "by_size p' (remove1 r ss)" by simp
  moreover have lt: "\<forall>x \<in> set A. ba p' x + bs p' x < ba p' c" using left e geom_eq [OF p'(3)] by auto
  moreover have rt: "\<forall>x \<in> set D'. ba p' c + bs p' c < ba p' x"
    using I(5) D m(2-4) n(5) by (auto simp: fun_eq_iff apart_def sorted_wrt_append add.assoc)
  ultimately have "releasing p' A c D' (remove1 r ss) us"
    using p'(2) m(1) s I(2) D ap unfolding releasing_def L by (auto intro: less_imp_le)
  moreover have "apart p' (A @ c # D')" using ap lt rt by (auto simp: apart_def sorted_wrt_append)
  moreover have "same_on p p' (set us)" using e geom_eq [OF p'(3)] by (auto simp: same_on_def)
  ultimately show thesis using that p'(1) by blast
qed

lemma page_release_inv:
  assumes i: "page_inv p ms ss (xs @ b # ys)"
  obtains p' ms' ss' where "page_release p b = Some p'" "page_inv p' ms' ss' (xs @ ys)"
    "same_on p p' (set (xs @ ys))"
proof -
  from i obtain p1 p2 A D where 1: "removeUsedList p b = Some p1" "insertFreeMList p1 b = Some p2"
    "releasing p2 A b D ss (xs @ ys)" "geom p2 = geom p"
    by (rule remove_insertM_releasing)
  from 1(3) obtain p3 A' c ss3 where 3: "mergeLeft p2 b = Some (c, p3)" "releasing p3 A' c D ss3 (xs @ ys)"
    "\<forall>x \<in> set A'. ba p3 x + bs p3 x < ba p3 c" "same_on p2 p3 (set (xs @ ys))"
    by (rule mergeLeft_releasing)
  from 3(2,3) obtain p4 D' ss4 where 4: "mergeRight p3 c = Some p4" "releasing p4 A' c D' ss4 (xs @ ys)"
    "apart p4 (A' @ c # D')" "same_on p3 p4 (set (xs @ ys))"
    by (rule mergeRight_releasing)
  let ?L = "set (A' @ c # D') \<union> set (xs @ ys)"
  note I = releasingD [OF 4(2)]
  have c: "c \<in> ?L" "c \<notin> set ss4" using I(3,9) by auto
  from I(1) c obtain p5 where 5: "insertFreeSList p4 c = Some p5"
    "links p5 ?L (A' @ c # D') (insert_while (\<lambda>x. blk_size p4 x > blk_size p4 c) c ss4) (xs @ ys)"
    "geom p5 = geom p4"
    by (rule links_insertS)
  have "page_release p b = Some p5" using 1(1,2) 3(1) 4(1) 5(1) by (simp add: page_release_def)
  moreover have "page_inv p5 (A' @ c # D') (insert_while (\<lambda>x. blk_size p4 x > blk_size p4 c) c ss4) (xs @ ys)"
    using 5(2) I(2-4) 4(3) by_size_insert [OF I(6)]
    unfolding page_inv_def tiled_geom [OF 5(3)] apart_geom [OF 5(3)] by_size_geom [OF 5(3)] by simp
  moreover have "same_on p p5 (set (xs @ ys))"
    using 3(4) 4(4) geom_same [OF 1(4)] geom_same [OF 5(3)] unfolding same_on_def by simp
  ultimately show thesis by (rule that)
qed

subsection \<open>Finding blocks\<close>

lemma walkFits_path:
  assumes "dpath (nextFreeS p) (prevFreeS p) q (Some b) (b # xs) r None" "all_live p (set (b # xs))"
  shows "walkFits p s b = Some (last (b # takeWhile (\<lambda>x. s \<le> blk_size p x) xs))"
  using assms
proof (induction xs arbitrary: q b)
  case Nil
  then show ?case by (subst walkFits.simps) simp
next
  case (Cons c xs)
  then have "nextFreeS p b = Some c" "blk_live p b" "blk_live p c" by auto
  with Cons show ?case by (subst walkFits.simps) simp
qed

lemma findFreeBlock_path:
  assumes "page_inv p ms ss us"
  shows "findFreeBlock p s = 
    Some (let ys = takeWhile (\<lambda>x. s \<le> blk_size p x) ss in if ys = [] then None else Some (last ys))"
proof -
  note I = page_invD [OF assms]
  obtain r where d: "dpath (nextFreeS p) (prevFreeS p) None (freeSList p) ss r None" and "all_live p (set ss)"
    using I(1) by (auto simp: links_def)
  then show ?thesis
    using walkFits_path [of p None]
    by (cases ss) (auto simp: findFreeBlock_def)
qed

text \<open>Best fit: the block returned is a free block that is large enough and of least size.\<close>

lemma findFreeBlock_best:
  assumes i: "page_inv p ms ss us"
  obtains (some) b where "findFreeBlock p s = Some (Some b)" "b \<in> set ms" "s \<le> blk_size p b"
      "\<forall>x \<in> set ms. s \<le> blk_size p x \<longrightarrow> blk_size p b \<le> blk_size p x"
    | (none) "findFreeBlock p s = Some None" "\<forall>x \<in> set ms. blk_size p x < s"
proof -
  let ?P = "\<lambda>x. s \<le> blk_size p x"
  note I = page_invD [OF i]
  have so: "sorted_wrt (\<lambda>x y. blk_size p y \<le> blk_size p x) ss"
    using I(6) by (simp add: by_size_def word_le_nat_alt)
  have tl: "x \<in> set (takeWhile ?P ss)" if "x \<in> set ss" "?P x" for x
    using so that
  proof (induction ss)
    case (Cons y ys)
    then show ?case by (auto intro: order_trans)
  qed simp
  show thesis
  proof (cases "takeWhile ?P ss" rule: rev_cases)
    case Nil
    have "\<forall>x \<in> set ms. blk_size p x < s"
    proof
      fix x assume "x \<in> set ms"
      with I(3) tl [of x] Nil show "blk_size p x < s" by (cases "s \<le> blk_size p x") simp_all
    qed
    with Nil none findFreeBlock_path [OF i, of s] show ?thesis by simp
  next
    case (snoc ys b)
    have b: "b \<in> set ms" "?P b" using snoc I(3) set_takeWhileD [of b ?P ss] by auto
    have "sorted_wrt (\<lambda>x y. blk_size p y \<le> blk_size p x) (ys @ [b])"
      using so snoc by (metis sorted_wrt_append takeWhile_dropWhile_id)
    then have "\<forall>x \<in> set ms. ?P x \<longrightarrow> blk_size p b \<le> blk_size p x"
      using tl I(3) snoc by (auto simp: sorted_wrt_append)
    moreover have "findFreeBlock p s = Some (Some b)"
      using snoc findFreeBlock_path [OF i, of s] by simp
    ultimately show ?thesis using some b by blast
  qed
qed

lemma walkUsed_path:
  assumes "dpath (nextUsed p) (prevUsed p) q h xs r None" "all_live p (set xs)"
  shows "walkUsed p a h = Some (List.find (\<lambda>x. blk_addr p x = a) xs)"
  using assms
proof (induction xs arbitrary: q h)
  case Nil
  then show ?case by (subst walkUsed.simps) simp
next
  case (Cons c xs)
  then have "h = Some c" "blk_live p c" by auto
  with Cons show ?case by (subst walkUsed.simps) auto
qed

lemma findUsedBlock_spec:
  assumes i: "page_inv p ms ss us"
  shows "findUsedBlock p a = Some (List.find (\<lambda>x. blk_addr p x = a) us)"
proof -
  note I = page_invD [OF i]
  obtain r where d: "dpath (nextUsed p) (prevUsed p) None (usedList p) us r None" and "all_live p (set us)"
    using I(1) by (auto simp: links_def)
  then have w: "walkUsed p a (usedList p) = Some (List.find (\<lambda>x. blk_addr p x = a) us)" by (rule walkUsed_path)
  have hi: "unat (pg_addr p + pg_size p) = pg_hi p" using I(4) by (simp add: tiled_def unat_simps)
  have "pg_addr p \<le> blk_addr p x \<and> blk_addr p x < pg_addr p + pg_size p" if "x \<in> set us" for x
    using tiled_block(2-4) [OF I(4), of x] that hi by (simp add: word_le_nat_alt word_less_nat_alt)
  then have "List.find (\<lambda>x. blk_addr p x = a) us = None"
    if "\<not> (pg_addr p \<le> a \<and> a < pg_addr p + pg_size p)"
    using that by (auto simp: find_None_iff)
  with w show ?thesis by (auto simp: findUsedBlock_def)
qed

lemma page_delete_empty:
  assumes i: "page_inv p ms ss []" and "0 < unat (pg_size p)"
  shows "page_empty p" "page_delete p = Some ()"
proof -
  note I = page_invD [OF i]
  have "\<exists>x. ms = [x]"
    using I(4,5) assms(2) tiling_gaps_single [of _ "ba p" "bs p" ms "pg_lo p" "pg_hi p"]
    by (auto simp: tiled_def apart_def)
  then obtain x where "ms = [x]" by blast
  with I(1) show "page_empty p" "page_delete p = Some ()"
    by (auto simp: links_def page_empty_def page_delete_def delete_block_def)
qed

lemma page_empty_iff: "page_inv p ms ss us \<Longrightarrow> page_empty p \<longleftrightarrow> us = []"
  by (drule page_invD(1)) (cases us, auto simp: links_def page_empty_def)

end
