(* ===== verification/Mem_Alloc_Spec.thy ===== *)
theory Mem_Alloc_Spec
  imports Mem_Alloc_Inv
begin

text \<open>
  A page as a set of ranges: \<open>page_rep\<close> abstracts a page to the address ranges of its
  used blocks. Every operation of the page is shown to return, to keep the representation and
  to act on the set of ranges as the abstract operation does.
\<close>

subsection \<open>Alignment\<close>

lemma alignSize_pow2:
  assumes "k < 64" "unat sz + 2 ^ k \<le> 2 ^ 64"
  shows "\<exists>r. alignSize sz (2 ^ k) = Some r \<and> unat r = round_up (2 ^ k) (unat sz)"
proof -
  let ?x = "sz + (2 ^ k - 1) :: u64"
  have "unat (2 ^ k - 1 :: u64) = 2 ^ k - 1"
    using unat_pow2 [where 'a = 64, of k] assms(1) by (subst unat_sub) (simp_all add: word_le_nat_alt)
  moreover have "unat sz + (2 ^ k - 1) < 2 ^ 64" using assms(2) by simp
  ultimately have "unat ?x = unat sz + 2 ^ k - 1"
    by (subst unat_add_exact) simp_all
  then have "unat (?x AND NOT (2 ^ k - 1)) = round_up (2 ^ k) (unat sz)"
    unfolding and_not_mask round_up_def
    by (subst unat_sub) (simp_all add: unat_take_bit word_le_nat_alt minus_mod_eq_div_mult)
  then show ?thesis by (simp add: alignSize_def pow2_and_pred add_diff_eq)
qed

subsection \<open>A page as a set of ranges\<close>

type_synonym range = "u64 \<times> u64"

definition page_rep :: "page_t \<Rightarrow> range set \<Rightarrow> bool" where
  "page_rep p M \<longleftrightarrow> (\<exists>ms ss us. page_inv p ms ss us \<and> M = (\<lambda>b. (blk_addr p b, blk_size p b)) ` set us)"

fun disjoint_ranges :: "range \<Rightarrow> range \<Rightarrow> bool" where
  "disjoint_ranges (a, s) (b, t) \<longleftrightarrow> unat a + unat s \<le> unat b \<or> unat b + unat t \<le> unat a"

definition range_in :: "nat \<Rightarrow> nat \<Rightarrow> range \<Rightarrow> bool" where
  "range_in lo hi r \<longleftrightarrow> 0 < unat (snd r) \<and> lo \<le> unat (fst r) \<and> unat (fst r) + unat (snd r) \<le> hi"

lemma page_rep_range:
  assumes "page_rep p M" "r \<in> M"
  shows "range_in (pg_lo p) (pg_hi p) r" "unat (pg_blockAlign p) dvd unat (fst r)"
    "unat (pg_blockAlign p) dvd unat (snd r)"
proof -
  from assms obtain ms ss us b where b: "page_inv p ms ss us" "b \<in> set us" "r = (blk_addr p b, blk_size p b)"
    by (auto simp: page_rep_def)
  note t = tiled_block [OF page_invD(4) [OF b(1)], of b]
  from t b show "range_in (pg_lo p) (pg_hi p) r" "unat (pg_blockAlign p) dvd unat (fst r)"
    "unat (pg_blockAlign p) dvd unat (snd r)"
    by (simp_all add: range_in_def)
qed

lemma page_rep_disjoint:
  assumes "page_rep p M" "r \<in> M" "q \<in> M" "r \<noteq> q"
  shows "disjoint_ranges r q"
proof -
  from assms(1-3) obtain ms ss us b c where b: "page_inv p ms ss us" "b \<in> set us" "c \<in> set us"
    "r = (blk_addr p b, blk_size p b)" "q = (blk_addr p c, blk_size p c)"
    by (auto simp: page_rep_def)
  moreover from this assms(4) have "b \<noteq> c" by auto
  ultimately show ?thesis
    using tiled_disjoint [OF page_invD(4) [OF b(1)], of b c] by simp
qed

lemma page_rep_hi: "page_rep p M \<Longrightarrow> pg_hi p < 2 ^ 64 \<and> 0 < unat (pg_blockAlign p) \<and> finite M"
  by (auto simp: page_rep_def dest!: page_invD(4) simp: tiled_def)

lemma page_rep_new:
  assumes "0 < unat s" "0 < unat al" "unat al dvd unat a" "unat al dvd unat s" "unat a + unat s < 2 ^ 64"
  shows "page_rep (page_new a s al) {}"
    and "findFreeBlock (page_new a s al) t = Some (if t \<le> s then Some 0 else None)"
proof -
  from assms have i: "page_inv (page_new a s al) [0] [0] []" by (rule page_inv_new)
  then show "page_rep (page_new a s al) {}" by (force simp: page_rep_def)
  show "findFreeBlock (page_new a s al) t = Some (if t \<le> s then Some 0 else None)"
    unfolding findFreeBlock_path [OF i] by (simp add: page_new_def new_block_def Let_def)
qed

lemma page_rep_find:
  assumes "page_rep p M"
  shows "\<exists>r. findFreeBlock p s = Some r"
  using assms findFreeBlock_path by (force simp: page_rep_def)

lemma page_rep_allocate:
  assumes r: "page_rep p M" and f: "findFreeBlock p s = Some (Some b)"
    and s: "0 < unat s" "unat (pg_blockAlign p) dvd unat s"
  obtains p' a where "page_allocate p s b = Some p'" "rd blk_addr p' b = Some a"
    "page_rep p' (insert (a, s) M)" "\<forall>q \<in> M. disjoint_ranges (a, s) q"
    "pg_addr p' = pg_addr p" "pg_size p' = pg_size p" "pg_blockAlign p' = pg_blockAlign p"
proof -
  from r obtain ms ss us where i: "page_inv p ms ss us" "M = (\<lambda>b. (blk_addr p b, blk_size p b)) ` set us"
    by (auto simp: page_rep_def)
  have b: "b \<in> set ms" "s \<le> blk_size p b" by (rule findFreeBlock_best [OF i(1), of s]; use f in simp)+
  from i(1) b s obtain p' ms' ss' where p': "page_allocate p s b = Some p'" "page_inv p' ms' ss' (b # us)"
    "same_on p p' (set us)" "blk_addr p' b = blk_addr p b" "blk_size p' b = s"
    by (rule page_allocate_inv)
  have M: "(\<lambda>b. (blk_addr p' b, blk_size p' b)) ` set us = M"
    unfolding i(2) using p'(3) by (intro image_cong) (simp_all add: same_on_def)
  have "blk_live p' b" using page_invD(1) [OF p'(2)] by (simp add: links_live)
  moreover have rep: "page_rep p' (insert (blk_addr p' b, s) M)"
    unfolding page_rep_def using p'(2,5) M by (intro exI [of _ ms'] exI [of _ ss'] exI [of _ "b # us"]) simp
  moreover have "disjoint_ranges (blk_addr p' b, s) q" if "q \<in> M" for q
  proof -
    from that M obtain c where c: "c \<in> set us" "q = (blk_addr p' c, blk_size p' c)" by auto
    then have "b \<noteq> c" using page_invD(9) [OF p'(2)] by auto
    with c show ?thesis
      using tiled_disjoint [OF page_invD(4) [OF p'(2)], of b c] p'(5) by simp
  qed
  ultimately show thesis using that p'(1,3) by (simp add: same_on_def)
qed

lemma page_rep_findUsed:
  assumes "page_rep p M"
  shows "\<exists>r. findUsedBlock p a = Some r \<and> (r = None \<longleftrightarrow> a \<notin> fst ` M)"
proof -
  from assms obtain ms ss us where i: "page_inv p ms ss us" "M = (\<lambda>b. (blk_addr p b, blk_size p b)) ` set us"
    by (auto simp: page_rep_def)
  then show ?thesis using findUsedBlock_spec [OF i(1), of a] by (auto simp: find_None_iff image_iff)
qed

lemma page_rep_release:
  assumes r: "page_rep p M" and f: "findUsedBlock p a = Some (Some b)"
  obtains s p' where "(a, s) \<in> M" "rd blk_size p b = Some s" "page_release p b = Some p'"
    "page_rep p' (M - {(a, s)})"
    "pg_addr p' = pg_addr p" "pg_size p' = pg_size p" "pg_blockAlign p' = pg_blockAlign p"
proof -
  let ?f = "\<lambda>p b. (blk_addr p b, blk_size p b)"
  from r obtain ms ss us where i: "page_inv p ms ss us" "M = ?f p ` set us"
    by (auto simp: page_rep_def)
  then have "List.find (\<lambda>x. blk_addr p x = a) us = Some b" using f findUsedBlock_spec [OF i(1), of a] by simp
  then have b: "b \<in> set us" "blk_addr p b = a" by (auto simp: find_Some_iff)
  then obtain xs ys where us: "us = xs @ b # ys" by (meson split_list)
  from i(1) obtain p' ms' ss' where p': "page_release p b = Some p'" "page_inv p' ms' ss' (xs @ ys)"
    "same_on p p' (set (xs @ ys))" unfolding us by (rule page_release_inv)
  have ne: "?f p c \<noteq> ?f p b" if "c \<in> set (xs @ ys)" for c
  proof -
    have "b \<noteq> c" "c \<in> set us" using page_invD(9) [OF i(1)] us that by auto
    then show ?thesis using tiled_block(2) [OF page_invD(4) [OF i(1)], of b] b(1)
        tiled_disjoint [OF page_invD(4) [OF i(1)], of b c] by auto
  qed
  have "?f p' ` set (xs @ ys) = ?f p ` set (xs @ ys)"
    using p'(3) by (intro image_cong) (simp_all add: same_on_def)
  also have "\<dots> = M - {?f p b}"
  proof -
    have "set us = insert b (set (xs @ ys))" unfolding us by simp
    then have M: "M = insert (?f p b) (?f p ` set (xs @ ys))" unfolding i(2) by (simp only: image_insert)
    have n: "?f p b \<notin> ?f p ` set (xs @ ys)"
    proof
      assume "?f p b \<in> ?f p ` set (xs @ ys)"
      then obtain c where "?f p b = ?f p c" "c \<in> set (xs @ ys)" by (rule imageE)
      with ne [of c] show False by simp
    qed
    show ?thesis unfolding M by (rule Diff_insert_absorb [OF n, symmetric])
  qed
  finally have "page_rep p' (M - {?f p b})"
    unfolding page_rep_def using p'(2) by (intro exI [of _ ms'] exI [of _ ss'] exI [of _ "xs @ ys"] conjI) simp_all
  moreover have "blk_live p b" using page_invD(1) [OF i(1)] b by (simp add: links_live)
  moreover have "(a, blk_size p b) \<in> M" unfolding i(2) using b by blast
  ultimately show thesis using that [of "blk_size p b" p'] p'(1,3) b(2) by (simp add: same_on_def)
qed

lemma page_rep_empty:
  assumes "page_rep p M" "0 < unat (pg_size p)"
  shows "page_empty p \<longleftrightarrow> M = {}" and "page_empty p \<Longrightarrow> page_delete p = Some ()"
  using assms page_empty_iff page_delete_empty by (fastforce simp: page_rep_def)+

end
