(* ===== verification/Mem_Alloc_Pages.thy ===== *)
theory Mem_Alloc_Pages
  imports Mem_Alloc_Spec
begin

text \<open>
  The page list of the allocator: the configuration the code relies on, the order and the
  placement of the pages, where \<open>createPage\<close> inserts, what \<open>findNextAddress\<close> finds and when
  it finds nothing.
\<close>

subsection \<open>The page list\<close>

definition alloc_cfg :: "allocator \<Rightarrow> bool" where
  "alloc_cfg A \<longleftrightarrow> (\<exists>j k. j \<le> k \<and> k < 32 \<and> pageAlign A = 2 ^ k \<and> blockAlign A = 2 ^ j) \<and>
     unat (pageAlign A) dvd unat (baseAddress A) \<and> unat (pageAlign A) dvd unat (capacity A) \<and>
     unat (baseAddress A) + 2 * unat (capacity A) < 2 ^ 64"

abbreviation al_lo :: "allocator \<Rightarrow> nat" where "al_lo A \<equiv> unat (baseAddress A)"
abbreviation al_hi :: "allocator \<Rightarrow> nat" where "al_hi A \<equiv> unat (baseAddress A) + unat (capacity A)"

definition good_page :: "allocator \<Rightarrow> page_t \<Rightarrow> bool" where
  "good_page A p \<longleftrightarrow> unat (pageAlign A) dvd pg_lo p \<and> unat (pageAlign A) dvd unat (pg_size p) \<and>
     0 < unat (pg_size p) \<and> al_lo A \<le> pg_lo p \<and> pg_hi p \<le> al_hi A \<and> pg_blockAlign p = blockAlign A"

definition page_before :: "page_t \<Rightarrow> page_t \<Rightarrow> bool" where
  "page_before p q \<longleftrightarrow> pg_hi p \<le> pg_lo q"

definition alloc_pages :: "allocator \<Rightarrow> range set list \<Rightarrow> bool" where
  "alloc_pages A Ms \<longleftrightarrow> alloc_cfg A \<and> list_all2 page_rep (pages A) Ms \<and>
     (\<forall>p \<in> set (pages A). good_page A p) \<and> sorted_wrt page_before (pages A)"

lemma alloc_cfgE:
  assumes "alloc_cfg A"
  obtains j k where "j \<le> k" "k < 32" "pageAlign A = 2 ^ k" "blockAlign A = 2 ^ j"
    "unat (pageAlign A) = 2 ^ k" "unat (blockAlign A) = 2 ^ j" "2 ^ k dvd al_lo A" "2 ^ k dvd unat (capacity A)" "al_hi A + unat (capacity A) < 2 ^ 64"
proof -
  from assms obtain j k where "j \<le> k" "k < 32" "pageAlign A = 2 ^ k" "blockAlign A = 2 ^ j"
    by (auto simp: alloc_cfg_def)
  moreover from this have "unat (pageAlign A) = 2 ^ k" "unat (blockAlign A) = 2 ^ j"
    by (simp_all add: unat_pow2)
  ultimately show thesis using assms that by (simp add: alloc_cfg_def)
qed

lemma block_dvd_page: "alloc_cfg A \<Longrightarrow> unat (blockAlign A) dvd unat (pageAlign A)"
  by (erule alloc_cfgE) (simp add: le_imp_power_dvd)

lemma alignSize_cfg:
  assumes "alloc_cfg A" "unat sz \<le> unat (capacity A)" and "al = pageAlign A \<or> al = blockAlign A"
  obtains r where "alignSize sz (ucast al) = Some r" "unat r = round_up (unat al) (unat sz)"
proof -
  obtain k where k: "k < 32" "al = 2 ^ k" "unat al = 2 ^ k" "2 * unat (capacity A) < 2 ^ 64"
    using assms(1,3) by (elim alloc_cfgE) (auto intro: le_less_trans)
  have "2 ^ k \<le> (2 ^ 32 :: nat)" using k(1) by (intro power_increasing) simp_all
  with assms(2) k have "unat sz + 2 ^ k \<le> 2 ^ 64" by simp
  with k alignSize_pow2 [of k sz] that show thesis by (auto simp: ucast_pow2_u32)
qed

text \<open>The position at which \<open>createPage\<close> inserts keeps the pages sorted.\<close>

lemma insert_page_while:
  assumes "\<forall>q \<in> set ps. pg_addr q \<noteq> pg_addr p"
  shows "take (insert_page p ps) ps @ p # drop (insert_page p ps) ps
    = insert_while (\<lambda>q. pg_addr q < pg_addr p) p ps"
    and "insert_page p ps = length (takeWhile (\<lambda>q. pg_addr q < pg_addr p) ps)"
proof -
  show i: "insert_page p ps = length (takeWhile (\<lambda>q. pg_addr q < pg_addr p) ps)"
  proof (cases ps)
    case (Cons q qs)
    with assms have "pg_addr q \<noteq> pg_addr p" by simp
    then have "pg_addr p < pg_addr q \<longleftrightarrow> \<not> pg_addr q < pg_addr p" by (metis linorder_neqE order_less_asym)
    with Cons show ?thesis by (simp add: insert_page_def)
  qed (simp add: insert_page_def)
  show "take (insert_page p ps) ps @ p # drop (insert_page p ps) ps
    = insert_while (\<lambda>q. pg_addr q < pg_addr p) p ps"
    unfolding i insert_while_def by (simp flip: takeWhile_eq_take dropWhile_eq_drop)
qed

lemma createPage_pages:
  assumes P: "alloc_pages A Ms" and g: "good_page A (page_new addr sz (blockAlign A))"
    and d: "\<forall>p \<in> set (pages A). unat addr + unat sz \<le> pg_lo p \<or> pg_hi p \<le> unat addr"
  obtains i A' where "createPage A addr sz = (i, A')" "i < length (pages A')"
    "pages A' ! i = page_new addr sz (blockAlign A)" "alloc_pages A' (take i Ms @ {} # drop i Ms)"
    "A' = A\<lparr>pages := pages A'\<rparr>" "i \<le> length Ms"
proof -
  let ?n = "page_new addr sz (blockAlign A)"
  let ?i = "insert_page ?n (pages A)"
  let ?ps = "take ?i (pages A) @ ?n # drop ?i (pages A)"
  have n: "pg_addr ?n = addr" "pg_size ?n = sz" "pg_blockAlign ?n = blockAlign A"
    by (simp_all add: page_new_def new_block_def Let_def)
  from P have cfg: "alloc_cfg A" and r: "list_all2 page_rep (pages A) Ms"
    and gp: "\<forall>p \<in> set (pages A). good_page A p" and so: "sorted_wrt page_before (pages A)"
    by (simp_all add: alloc_pages_def)
  have ne: "\<forall>q \<in> set (pages A). pg_addr q \<noteq> pg_addr ?n"
    using d g gp n by (force simp: good_page_def)
  note w = insert_page_while [OF ne]
  have i: "?i \<le> length (pages A)" by (simp add: w(2) length_takeWhile_le)
  have bd: "unat (blockAlign A) dvd unat addr" "unat (blockAlign A) dvd unat sz"
    using block_dvd_page [OF cfg] g n by (auto simp: good_page_def intro: dvd_trans)
  have "page_rep ?n {}"
    using g n bd cfg by (intro page_rep_new) (auto simp: good_page_def elim: alloc_cfgE)
  then have "list_all2 page_rep ?ps (take ?i Ms @ {} # drop ?i Ms)"
    using r by (auto intro!: list_all2_appendI list_all2_takeI list_all2_dropI)
  moreover have "sorted_wrt page_before ?ps"
    unfolding w(1)
  proof (rule sorted_insert_while [OF so])
    fix x y show "page_before x y \<Longrightarrow> pg_addr y < pg_addr ?n \<Longrightarrow> pg_addr x < pg_addr ?n"
      by (simp add: page_before_def unat_simps)
  next
    fix x assume x: "x \<in> set (pages A)"
    have "unat addr + unat sz \<le> pg_lo x \<or> pg_hi x \<le> unat addr" using d x by blast
    with g gp x n show "pg_addr x < pg_addr ?n \<Longrightarrow> page_before x ?n"
      "\<not> pg_addr x < pg_addr ?n \<Longrightarrow> page_before ?n x"
      by (force simp: page_before_def unat_simps good_page_def)+
  qed
  ultimately have "alloc_pages (A\<lparr>pages := ?ps\<rparr>) (take ?i Ms @ {} # drop ?i Ms)"
    using cfg g gp unfolding alloc_pages_def
    by (auto simp: alloc_cfg_def good_page_def dest: in_set_takeD in_set_dropD)
  moreover have "createPage A addr sz = (?i, A\<lparr>pages := ?ps\<rparr>)" by (simp add: createPage_def Let_def)
  moreover have "?i < length ?ps" "?ps ! ?i = ?n" "?i \<le> length Ms"
    using i list_all2_lengthD [OF r] by (simp_all add: nth_append)
  ultimately show thesis using that by simp
qed

subsection \<open>Searching the page list\<close>

abbreviation clear_of :: "nat \<Rightarrow> nat \<Rightarrow> page_t \<Rightarrow> bool" where
  "clear_of a n p \<equiv> a + n \<le> pg_lo p \<or> pg_hi p \<le> a"

lemma walkPages_cases:
  assumes "sorted_wrt page_before ps" "\<forall>p \<in> set ps. unat e \<le> pg_lo p \<and> pg_hi p \<le> hi \<and> al dvd pg_lo p \<and> al dvd unat (pg_size p)"
    and "unat e \<le> hi" "hi + unat sz < 2 ^ 64" "al dvd unat e"
  shows "(\<exists>a. walkPages sz e ps = Inl a \<and> unat e \<le> unat a \<and> unat a + unat sz \<le> hi \<and> al dvd unat a \<and>
           (\<forall>p \<in> set ps. clear_of (unat a) (unat sz) p)) \<or>
         (\<exists>a. walkPages sz e ps = Inr a \<and> unat e \<le> unat a \<and> unat a \<le> hi \<and> al dvd unat a \<and>
           (\<forall>p \<in> set ps. pg_hi p \<le> unat a) \<and>
           (\<forall>b. unat e \<le> b \<and> (\<forall>p \<in> set ps. clear_of b (unat sz) p) \<longrightarrow> unat a \<le> b))"
  using assms
proof (induction ps arbitrary: e)
  case Nil
  then show ?case by simp
next
  case (Cons p ps)
  have e: "unat (e + sz) = unat e + unat sz" using Cons.prems(3,4) by (intro unat_add_exact) simp
  have h: "unat (pg_addr p + pg_size p) = pg_hi p" using Cons.prems(2,4) by (intro unat_add_exact) simp
  show ?case
  proof (cases "e + sz \<le> pg_addr p")
    case True
    then have "unat e + unat sz \<le> pg_lo p" using e by (simp add: unat_simps)
    moreover from this Cons.prems(1) have "\<forall>q \<in> set ps. unat e + unat sz \<le> pg_lo q"
      by (fastforce simp: page_before_def)
    moreover from calculation Cons.prems(2) have "unat e + unat sz \<le> hi" by auto
    ultimately show ?thesis using True Cons.prems(5) by auto
  next
    case False
    have lt: "pg_lo p < unat e + unat sz" using False e by (simp add: unat_simps)
    have "al dvd unat (pg_addr p + pg_size p)" using Cons.prems(2) h by simp
    moreover have "\<forall>q \<in> set ps. unat (pg_addr p + pg_size p) \<le> pg_lo q \<and> pg_hi q \<le> hi \<and> al dvd pg_lo q \<and> al dvd unat (pg_size q)"
      using Cons.prems(1,2) h by (simp add: page_before_def)
    moreover have "unat (pg_addr p + pg_size p) \<le> hi" using Cons.prems(2) h by simp
    moreover have "sorted_wrt page_before ps" using Cons.prems(1) by simp
    ultimately have IH: "(\<exists>a. walkPages sz (pg_addr p + pg_size p) ps = Inl a \<and> pg_hi p \<le> unat a \<and> unat a + unat sz \<le> hi \<and> al dvd unat a \<and>
           (\<forall>p \<in> set ps. clear_of (unat a) (unat sz) p)) \<or>
         (\<exists>a. walkPages sz (pg_addr p + pg_size p) ps = Inr a \<and> pg_hi p \<le> unat a \<and> unat a \<le> hi \<and> al dvd unat a \<and>
           (\<forall>p \<in> set ps. pg_hi p \<le> unat a) \<and>
           (\<forall>b. pg_hi p \<le> b \<and> (\<forall>p \<in> set ps. clear_of b (unat sz) p) \<longrightarrow> unat a \<le> b))"
      using Cons.IH [of "pg_addr p + pg_size p"] Cons.prems(4) h by simp
    have lo: "unat e \<le> pg_lo p" using Cons.prems(2) by simp
    have st: "walkPages sz e (p # ps) = walkPages sz (pg_addr p + pg_size p) ps" using False by simp
    from IH show ?thesis
    proof (elim disjE exE conjE)
      fix a assume "walkPages sz (pg_addr p + pg_size p) ps = Inl a" "pg_hi p \<le> unat a" "unat a + unat sz \<le> hi"
        "al dvd unat a" "\<forall>p \<in> set ps. clear_of (unat a) (unat sz) p"
      with st lo show ?thesis by simp
    next
      fix a assume a: "walkPages sz (pg_addr p + pg_size p) ps = Inr a" "pg_hi p \<le> unat a" "unat a \<le> hi" "al dvd unat a"
        "\<forall>p \<in> set ps. pg_hi p \<le> unat a"
        "\<forall>b. pg_hi p \<le> b \<and> (\<forall>p \<in> set ps. clear_of b (unat sz) p) \<longrightarrow> unat a \<le> b"
      have "unat a \<le> b" if "unat e \<le> b" "\<forall>q \<in> set (p # ps). clear_of b (unat sz) q" for b
        using that lt a(6) by force
      with a st lo show ?thesis by simp
    qed
  qed
qed

lemma findNextAddress_spec:
  assumes P: "alloc_pages A Ms" and sz: "unat sz \<le> unat (capacity A)"
  shows "case findNextAddress A sz of
     Some a \<Rightarrow> al_lo A \<le> unat a \<and> unat a + unat sz \<le> al_hi A \<and> unat (pageAlign A) dvd unat a \<and>
       (\<forall>p \<in> set (pages A). clear_of (unat a) (unat sz) p)
   | None \<Rightarrow> \<forall>b. al_lo A \<le> b \<and> b + unat sz \<le> al_hi A \<longrightarrow> (\<exists>p \<in> set (pages A). \<not> clear_of b (unat sz) p)"
proof (cases "pages A = []")
  case True
  with assms show ?thesis by (auto simp: findNextAddress_def alloc_pages_def alloc_cfg_def)
next
  case False
  let ?e = "baseAddress A" and ?hi = "al_hi A"
  from P have so: "sorted_wrt page_before (pages A)"
    and gp: "\<forall>p \<in> set (pages A). unat ?e \<le> pg_lo p \<and> pg_hi p \<le> ?hi \<and> unat (pageAlign A) dvd pg_lo p \<and> unat (pageAlign A) dvd unat (pg_size p)"
    and c: "?hi + unat sz < 2 ^ 64" "unat (pageAlign A) dvd unat ?e"
    using sz by (auto simp: alloc_pages_def good_page_def alloc_cfg_def)
  have h: "unat (baseAddress A + capacity A) = al_hi A" using c by (intro unat_add_exact) simp
  have le: "unat ?e \<le> ?hi" by simp
  from walkPages_cases [OF so gp le c] show ?thesis
  proof (elim disjE exE conjE, goal_cases)
    case (1 a)
    then show ?case using False by (simp add: findNextAddress_def)
  next
    case (2 a)
    have a: "unat (a + sz) = unat a + unat sz" using 2(3) c by (intro unat_add_exact) simp
    show ?case
    proof (cases "a + sz \<le> baseAddress A + capacity A")
      case True
      with 2 h a False show ?thesis by (simp add: findNextAddress_def word_le_nat_alt)
    next
      case no: False
      then have "al_hi A < unat a + unat sz" using h a by (simp add: word_le_nat_alt)
      then have "\<exists>p \<in> set (pages A). \<not> clear_of b (unat sz) p" if "al_lo A \<le> b" "b + unat sz \<le> al_hi A" for b
        using that 2(6) by (meson add_le_mono1 le_trans linorder_not_le)
      with 2(1) no False show ?thesis by (simp add: findNextAddress_def)
    qed
  qed
qed

lemma findPage_cases:
  assumes "\<forall>p \<in> set ps. f p \<noteq> None"
  shows "(\<exists>i b. findPage f ps = Some (Some (i, b)) \<and> i < length ps \<and> f (ps ! i) = Some (Some b)) \<or>
    (findPage f ps = Some None \<and> (\<forall>p \<in> set ps. f p = Some None))"
  using assms
proof (induction ps)
  case (Cons p ps)
  obtain r where r: "f p = Some r" using Cons.prems by auto
  have IH: "(\<exists>i b. findPage f ps = Some (Some (i, b)) \<and> i < length ps \<and> f (ps ! i) = Some (Some b)) \<or>
    (findPage f ps = Some None \<and> (\<forall>p \<in> set ps. f p = Some None))"
    using Cons by simp
  show ?case
  proof (cases r)
    case None
    with r IH show ?thesis by (force intro: exI [of _ "Suc _"])
  qed (use r in simp)
qed simp

end
