(* ===== verification/Mem_Alloc_Rep.thy ===== *)
theory Mem_Alloc_Rep
  imports Mem_Alloc_Pages
begin

text \<open>
  The allocator as a set of ranges: \<open>alloc_rep A M\<close> says that the live allocations of \<open>A\<close> are
  the ranges \<open>M\<close>. Every operation of the class is related to its effect on \<open>M\<close>.
\<close>

subsection \<open>The allocator as a set of ranges\<close>

definition alloc_rep :: "allocator \<Rightarrow> range set \<Rightarrow> bool" where
  "alloc_rep A M \<longleftrightarrow> (\<exists>Ms. alloc_pages A Ms \<and> M = \<Union> (set Ms) \<and> {} \<notin> set Ms \<and> allocated A = sum snd M)"

lemma alloc_pagesD:
  assumes "alloc_pages A Ms"
  shows "alloc_cfg A" "length Ms = length (pages A)" "sorted_wrt page_before (pages A)"
    "\<And>i. i < length (pages A) \<Longrightarrow> page_rep (pages A ! i) (Ms ! i) \<and> good_page A (pages A ! i)"
    "finite (\<Union> (set Ms))"
proof -
  from assms have l: "list_all2 page_rep (pages A) Ms" by (simp add: alloc_pages_def)
  show "alloc_cfg A" "length Ms = length (pages A)" "sorted_wrt page_before (pages A)"
    using assms list_all2_lengthD [OF l] by (simp_all add: alloc_pages_def)
  show r: "page_rep (pages A ! i) (Ms ! i) \<and> good_page A (pages A ! i)" if "i < length (pages A)" for i
    using that assms list_all2_nthD [OF l that] by (simp add: alloc_pages_def)
  show "finite (\<Union> (set Ms))"
    using r page_rep_hi list_all2_lengthD [OF l] by (auto simp: in_set_conv_nth)
qed

lemma alloc_pages_range:
  assumes P: "alloc_pages A Ms" and r: "r \<in> \<Union> (set Ms)"
  shows "range_in (al_lo A) (al_hi A) r" "unat (blockAlign A) dvd unat (fst r)" "unat (blockAlign A) dvd unat (snd r)"
proof -
  from r obtain i where i: "i < length (pages A)" "r \<in> Ms ! i"
    using alloc_pagesD(2) [OF P] by (auto simp: in_set_conv_nth)
  note g = alloc_pagesD(4) [OF P i(1)]
  from g i(2) have "range_in (pg_lo (pages A ! i)) (pg_hi (pages A ! i)) r"
    "unat (pg_blockAlign (pages A ! i)) dvd unat (fst r)" "unat (pg_blockAlign (pages A ! i)) dvd unat (snd r)"
    by (auto dest: page_rep_range)
  with g show "range_in (al_lo A) (al_hi A) r" "unat (blockAlign A) dvd unat (fst r)"
    "unat (blockAlign A) dvd unat (snd r)"
    by (auto simp: range_in_def good_page_def)
qed

lemma alloc_pages_across:
  assumes P: "alloc_pages A Ms" and i: "i < length (pages A)" "j < length (pages A)" "i \<noteq> j"
    and r: "range_in (pg_lo (pages A ! i)) (pg_hi (pages A ! i)) r" and q: "q \<in> Ms ! j"
  shows "disjoint_ranges r q"
proof -
  have b: "pg_hi (pages A ! i) \<le> pg_lo (pages A ! j) \<or> pg_hi (pages A ! j) \<le> pg_lo (pages A ! i)"
    using sorted_wrt_nth_less [OF alloc_pagesD(3) [OF P]] i by (auto simp: page_before_def neq_iff)
  have "range_in (pg_lo (pages A ! j)) (pg_hi (pages A ! j)) q"
    using alloc_pagesD(4) [OF P i(2)] q by (auto dest: page_rep_range)
  with b r show ?thesis by (cases r; cases q) (auto simp: range_in_def)
qed

lemma alloc_pages_disjoint:
  assumes P: "alloc_pages A Ms" and r: "r \<in> \<Union> (set Ms)" "q \<in> \<Union> (set Ms)" "r \<noteq> q"
  shows "disjoint_ranges r q"
proof -
  from r obtain i j where i: "i < length (pages A)" "r \<in> Ms ! i" and j: "j < length (pages A)" "q \<in> Ms ! j"
    using alloc_pagesD(2) [OF P] by (auto simp: in_set_conv_nth)
  show ?thesis
  proof (cases "i = j")
    case True
    with i j r(3) alloc_pagesD(4) [OF P i(1)] page_rep_disjoint show ?thesis by blast
  next
    case False
    have "range_in (pg_lo (pages A ! i)) (pg_hi (pages A ! i)) r"
      using alloc_pagesD(4) [OF P i(1)] i(2) by (auto dest: page_rep_range)
    with P i(1) j(1) False show ?thesis using j(2) by (rule alloc_pages_across)
  qed
qed

lemma alloc_pages_put:
  assumes P: "alloc_pages A Ms" and i: "i < length (pages A)" and r: "page_rep p N"
    and e: "pg_addr p = pg_addr (pages A ! i)" "pg_size p = pg_size (pages A ! i)"
      "pg_blockAlign p = pg_blockAlign (pages A ! i)"
  shows "alloc_pages (page_put A i p) (Ms[i := N])"
proof -
  from P have l: "list_all2 page_rep (pages A) Ms" by (simp add: alloc_pages_def)
  have "sorted_wrt page_before ((pages A)[i := p])"
    using alloc_pagesD(3) [OF P] e i
    by (auto simp: sorted_wrt_iff_nth_less nth_list_update page_before_def)
  moreover have "\<forall>q \<in> set ((pages A)[i := p]). good_page A q"
    using alloc_pagesD(4) [OF P] i e by (auto simp: in_set_conv_nth nth_list_update good_page_def)
  ultimately show ?thesis
    using P list_all2_update_cong [OF l r, of i]
    by (simp add: alloc_pages_def page_put_def alloc_cfg_def good_page_def)
qed

lemma Union_nth: "\<Union> (set Ms) = (\<Union>j < length Ms. Ms ! j)"
  by (auto simp: in_set_conv_nth intro: nth_mem)

lemma Union_insert_at:
  assumes "i < length Ms"
  shows "\<Union> (set (Ms[i := insert r (Ms ! i)])) = insert r (\<Union> (set Ms))"
  using assms unfolding Union_nth by (auto simp: nth_list_update split: if_splits)

lemma Union_delete_at:
  assumes "i < length Ms" "\<And>j. j < length Ms \<Longrightarrow> j \<noteq> i \<Longrightarrow> r \<notin> Ms ! j"
  shows "\<Union> (set (Ms[i := Ms ! i - {r}])) = \<Union> (set Ms) - {r}"
  using assms unfolding Union_nth by (auto simp: nth_list_update split: if_splits)

lemma not_disjoint_self: "range_in lo hi r \<Longrightarrow> \<not> disjoint_ranges r r"
  by (cases r) (simp add: range_in_def)

lemma alloc_at:
  assumes P: "alloc_pages A Ms" and ne: "\<And>j. j < length (pages A) \<Longrightarrow> j \<noteq> i \<Longrightarrow> Ms ! j \<noteq> {}"
    and al: "allocated A = sum snd (\<Union> (set Ms))" and i: "i < length (pages A)"
    and f: "findFreeBlock (pages A ! i) s = Some (Some b)" and s: "0 < unat s" "unat (blockAlign A) dvd unat s"
  obtains p' a where "page_allocate (pages A ! i) s b = Some p'" "rd blk_addr p' b = Some a"
    "alloc_rep ((page_put A i p')\<lparr>allocated := allocated A + s\<rparr>) (insert (a, s) (\<Union> (set Ms)))"
    "\<forall>q \<in> \<Union> (set Ms). disjoint_ranges (a, s) q" "range_in (al_lo A) (al_hi A) (a, s)"
    "unat (blockAlign A) dvd unat a"
proof -
  note D = alloc_pagesD [OF P]
  have r: "page_rep (pages A ! i) (Ms ! i)" and g: "good_page A (pages A ! i)" using D(4) [OF i] by simp_all
  have s2: "unat (pg_blockAlign (pages A ! i)) dvd unat s" using g s(2) by (simp add: good_page_def)
  from r f s(1) s2 obtain p' a where p': "page_allocate (pages A ! i) s b = Some p'" "rd blk_addr p' b = Some a"
    "page_rep p' (insert (a, s) (Ms ! i))" "\<forall>q \<in> Ms ! i. disjoint_ranges (a, s) q"
    "pg_addr p' = pg_addr (pages A ! i)" "pg_size p' = pg_size (pages A ! i)"
    "pg_blockAlign p' = pg_blockAlign (pages A ! i)"
    by (rule page_rep_allocate)
  let ?A = "(page_put A i p')\<lparr>allocated := allocated A + s\<rparr>" and ?Ms = "Ms[i := insert (a, s) (Ms ! i)]"
  have P': "alloc_pages (page_put A i p') ?Ms" using P i p'(3,5-7) by (rule alloc_pages_put)
  have i': "i < length Ms" using D(2) i by simp
  have U: "\<Union> (set ?Ms) = insert (a, s) (\<Union> (set Ms))" using i' by (rule Union_insert_at)
  have "(a, s) \<in> insert (a, s) (Ms ! i)" by simp
  from page_rep_range(1) [OF p'(3) this]
  have in_page: "range_in (pg_lo (pages A ! i)) (pg_hi (pages A ! i)) (a, s)" using p'(5-6) by simp
  have dj: "disjoint_ranges (a, s) q" if q: "q \<in> \<Union> (set Ms)" for q
  proof -
    from q obtain j where j: "j < length (pages A)" "q \<in> Ms ! j" using D(2) by (auto simp: in_set_conv_nth)
    show ?thesis
    proof (cases "j = i")
      case False
      show ?thesis using P i j(1) False [symmetric] in_page j(2) by (rule alloc_pages_across)
    qed (use p'(4) j in blast)
  qed
  have in_al: "range_in (al_lo A) (al_hi A) (a, s)" and "unat (blockAlign A) dvd unat a"
    using alloc_pages_range [OF P', of "(a, s)"] U by (simp_all add: page_put_def)
  have "(a, s) \<notin> \<Union> (set Ms)" using dj not_disjoint_self [OF in_al] by blast
  then have "allocated ?A = sum snd (insert (a, s) (\<Union> (set Ms)))" using D(5) al by simp
  moreover have "{} \<notin> set ?Ms" using ne D(2) i' by (auto simp: in_set_conv_nth nth_list_update)
  moreover have "alloc_pages ?A ?Ms" using P' by (simp add: alloc_pages_def alloc_cfg_def good_page_def)
  ultimately have "alloc_rep ?A (insert (a, s) (\<Union> (set Ms)))" using U unfolding alloc_rep_def by metis
  with p'(1,2) dj in_al \<open>unat (blockAlign A) dvd unat a\<close> that show thesis by blast
qed

subsection \<open>Allocating\<close>

lemma alloc_rep_new:
  assumes "alloc_cfg (allocator_new base cap pal bal)"
  shows "alloc_rep (allocator_new base cap pal bal) {}"
  using assms unfolding alloc_rep_def alloc_pages_def
  by (intro exI [of _ "[]"]) (simp add: allocator_new_def)

lemma alloc_rep_cfg: "alloc_rep A M \<Longrightarrow> alloc_cfg A"
  by (auto simp: alloc_rep_def alloc_pages_def)

definition same_cfg :: "allocator \<Rightarrow> allocator \<Rightarrow> bool" where
  "same_cfg A B \<longleftrightarrow> baseAddress B = baseAddress A \<and> capacity B = capacity A \<and>
     pageAlign B = pageAlign A \<and> blockAlign B = blockAlign A"

text \<open>A page created where nothing else is: its only block is free and as large as the page.\<close>

lemma createPage_alloc:
  assumes P: "alloc_pages A Ms" and ne: "{} \<notin> set Ms" and al: "allocated A = sum snd (\<Union> (set Ms))"
    and n: "unat (pageAlign A) dvd unat addr" "unat (pageAlign A) dvd unat psz" "al_lo A \<le> unat addr"
      "unat addr + unat psz \<le> al_hi A" "\<forall>p \<in> set (pages A). clear_of (unat addr) (unat psz) p"
    and s: "0 < unat s" "unat (blockAlign A) dvd unat s" "s \<le> psz"
  obtains i A1 p' a where "createPage A addr psz = (i, A1)" "findFreeBlock (pages A1 ! i) s = Some (Some 0)"
    "page_allocate (pages A1 ! i) s 0 = Some p'" "rd blk_addr p' 0 = Some a"
    "alloc_rep ((page_put A1 i p')\<lparr>allocated := allocated A1 + s\<rparr>) (insert (a, s) (\<Union> (set Ms)))"
    "\<forall>q \<in> \<Union> (set Ms). disjoint_ranges (a, s) q" "range_in (unat addr) (unat addr + unat psz) (a, s)"
    "unat (blockAlign A) dvd unat a" "same_cfg A A1" "allocated A1 = allocated A"
proof -
  let ?n = "page_new addr psz (blockAlign A)"
  have z: "0 < unat psz" using s(1,3) by (simp add: unat_simps)
  have f: "pg_addr ?n = addr" "pg_size ?n = psz" "pg_blockAlign ?n = blockAlign A"
    by (simp_all add: page_new_def new_block_def Let_def)
  have g: "good_page A ?n" using n z f by (simp add: good_page_def)
  from P g n(5) obtain i A1 where c: "createPage A addr psz = (i, A1)" "i < length (pages A1)"
    "pages A1 ! i = ?n" "alloc_pages A1 (take i Ms @ {} # drop i Ms)" "A1 = A\<lparr>pages := pages A1\<rparr>" "i \<le> length Ms"
    by (rule createPage_pages)
  have A1: "allocated A1 = allocated A" "same_cfg A A1"
    using arg_cong [OF c(5), of allocated] arg_cong [OF c(5), of baseAddress] arg_cong [OF c(5), of capacity]
      arg_cong [OF c(5), of pageAlign] arg_cong [OF c(5), of blockAlign]
    by (simp_all add: same_cfg_def)
  let ?Ms = "take i Ms @ {} # drop i Ms"
  have U: "\<Union> (set ?Ms) = \<Union> (set Ms)" by (metis Un_insert_right Union_insert append_take_drop_id list.simps(15) set_append sup_bot.left_neutral)
  note cfg = alloc_pagesD(1) [OF P]
  have bd: "unat (blockAlign A) dvd unat addr" "unat (blockAlign A) dvd unat psz" "0 < unat (blockAlign A)"
      "unat addr + unat psz < 2 ^ 64"
    using block_dvd_page [OF cfg] n(1,2,4) cfg by (auto elim: alloc_cfgE intro: dvd_trans)
  have ff: "findFreeBlock (pages A1 ! i) s = Some (Some 0)"
    using page_rep_new(2) [OF z bd(3,1,2,4), of s] s(3) c(3) by simp
  have nz: "?Ms ! j \<noteq> {}" if "j < length (pages A1)" "j \<noteq> i" for j
  proof -
    have "?Ms ! j \<in> set Ms"
      using that c(6) alloc_pagesD(2) [OF c(4)] by (auto simp: nth_append nth_Cons' intro!: nth_mem)
    with ne show ?thesis by metis
  qed
  have bl: "blockAlign A1 = blockAlign A" using A1(2) by (simp add: same_cfg_def)
  have al1: "allocated A1 = sum snd (\<Union> (set ?Ms))" using al A1 U by simp
  from c(4) nz al1 c(2) ff s(1) s(2) [folded bl]
  obtain p' a where r: "page_allocate (pages A1 ! i) s 0 = Some p'" "rd blk_addr p' 0 = Some a"
    "alloc_rep ((page_put A1 i p')\<lparr>allocated := allocated A1 + s\<rparr>) (insert (a, s) (\<Union> (set ?Ms)))"
    "\<forall>q \<in> \<Union> (set ?Ms). disjoint_ranges (a, s) q" "unat (blockAlign A1) dvd unat a"
    by (rule alloc_at)
  have new: "page_rep (pages A1 ! i) {}" using page_rep_new(1) [OF z bd(3,1,2,4)] c(3) by simp
  have s2: "unat (pg_blockAlign (pages A1 ! i)) dvd unat s" using s(2) c(3) f by simp
  from new ff s(1) s2 obtain q b where q: "page_allocate (pages A1 ! i) s 0 = Some q" "rd blk_addr q 0 = Some b"
    "page_rep q (insert (b, s) {})" "pg_addr q = pg_addr (pages A1 ! i)" "pg_size q = pg_size (pages A1 ! i)"
    by (rule page_rep_allocate)
  have "range_in (unat addr) (unat addr + unat psz) (a, s)"
    using page_rep_range(1) [OF q(3), of "(b, s)"] q r(1,2) c(3) f by simp
  with c(1) ff r A1 U bl that show thesis by simp
qed

lemma round_up_cap:
  assumes "alloc_cfg A" "n \<le> unat (capacity A)" "al = pageAlign A \<or> al = blockAlign A"
  shows "round_up (unat al) n \<le> unat (capacity A)" "n \<le> round_up (unat al) n"
proof -
  have d: "unat al dvd unat (capacity A)" "0 < unat al"
    using assms(1,3) block_dvd_page [OF assms(1)] by (auto simp: alloc_cfg_def unat_pow2 intro: dvd_trans)
  from d(2,1) assms(2) show "round_up (unat al) n \<le> unat (capacity A)" by (rule round_up_least)
  from d(2) show "n \<le> round_up (unat al) n" by (rule round_up_bounds)
qed

lemma findFree_total: "alloc_pages A Ms \<Longrightarrow> p \<in> set (pages A) \<Longrightarrow> findFreeBlock p s \<noteq> None"
  using page_rep_find by (fastforce simp: alloc_pages_def list_all2_conv_all_nth in_set_conv_nth)

lemma allocate_cases:
  assumes R: "alloc_rep A M" and sz: "0 < unat sz" "unat sz \<le> unat (capacity A)"
  obtains (fits) a s A' where "allocate A sz True = Some (Inr (a, A'))"
      "unat s = round_up (unat (blockAlign A)) (unat sz)" "alloc_rep A' (insert (a, s) M)" "same_cfg A A'"
      "\<forall>q \<in> M. disjoint_ranges (a, s) q" "range_in (al_lo A) (al_hi A) (a, s)" "unat (blockAlign A) dvd unat a"
  | (full) "allocate A sz True = Some (Inl OutOfMemory)"
      "\<forall>b. al_lo A \<le> b \<and> b + round_up (unat (pageAlign A)) (unat sz) \<le> al_hi A \<longrightarrow>
         (\<exists>p \<in> set (pages A). \<not> clear_of b (round_up (unat (pageAlign A)) (unat sz)) p)"
proof -
  note cfg = alloc_rep_cfg [OF R]
  from R obtain Ms where P: "alloc_pages A Ms" and M: "M = \<Union> (set Ms)" and ne: "{} \<notin> set Ms"
    and al: "allocated A = sum snd (\<Union> (set Ms))" by (auto simp: alloc_rep_def)
  obtain s where s: "alignSize sz (ucast (blockAlign A)) = Some s" "unat s = round_up (unat (blockAlign A)) (unat sz)"
    using alignSize_cfg [OF cfg sz(2)] by blast
  have sc: "unat s \<le> unat (capacity A)" "0 < unat s" "unat (blockAlign A) dvd unat s"
    using round_up_cap [OF cfg sz(2), of "blockAlign A"] sz(1) s(2) by simp_all
  obtain ps where ps: "alignSize s (ucast (pageAlign A)) = Some ps" "unat ps = round_up (unat (pageAlign A)) (unat s)"
    using alignSize_cfg [OF cfg sc(1)] by blast
  have rr: "round_up (unat (pageAlign A)) (unat s) = round_up (unat (pageAlign A)) (unat sz)"
    unfolding s(2) using cfg block_dvd_page [OF cfg] by (intro round_up_round_up) (auto elim: alloc_cfgE)
  have pc: "unat ps \<le> unat (capacity A)" "s \<le> ps" "unat (pageAlign A) dvd unat ps"
    using round_up_cap [OF cfg sc(1), of "pageAlign A"] ps(2) by (simp_all add: unat_simps)
  have sz0: "sz \<noteq> 0" using sz(1) by auto
  have f: "\<forall>p \<in> set (pages A). findFreeBlock p s \<noteq> None" using findFree_total [OF P] by blast
  from findPage_cases [of "pages A" "\<lambda>p. findFreeBlock p s", OF f] show thesis
  proof (elim disjE exE conjE)
    fix i b assume ib: "findPage (\<lambda>p. findFreeBlock p s) (pages A) = Some (Some (i, b))" "i < length (pages A)"
      "findFreeBlock (pages A ! i) s = Some (Some b)"
    have nz: "\<And>j. j < length (pages A) \<Longrightarrow> j \<noteq> i \<Longrightarrow> Ms ! j \<noteq> {}"
      using ne alloc_pagesD(2) [OF P] by (metis nth_mem)
    from P nz al ib(2,3) sc(2,3) obtain p' a where r: "page_allocate (pages A ! i) s b = Some p'" "rd blk_addr p' b = Some a"
      "alloc_rep ((page_put A i p')\<lparr>allocated := allocated A + s\<rparr>) (insert (a, s) (\<Union> (set Ms)))"
      "\<forall>q \<in> \<Union> (set Ms). disjoint_ranges (a, s) q" "range_in (al_lo A) (al_hi A) (a, s)"
      "unat (blockAlign A) dvd unat a"
      by (rule alloc_at)
    have eq: "allocate A sz True = Some (Inr (a, (page_put A i p')\<lparr>allocated := allocated A + s\<rparr>))"
      using s(1) sz0 ib(1) r(1,2) by (simp add: allocate_def page_put_def)
    show thesis using r(3-6) M by (intro fits [OF eq s(2)]) (simp_all add: same_cfg_def page_put_def)
  next
    assume no: "findPage (\<lambda>p. findFreeBlock p s) (pages A) = Some None"
    show thesis
    proof (cases "findNextAddress A ps")
      case None
      with findNextAddress_spec [OF P pc(1)] ps(2) rr
      show ?thesis by (intro full) (simp_all add: allocate_def sz0 s(1) no ps(1))
    next
      case (Some addr)
      with findNextAddress_spec [OF P pc(1)] have n: "al_lo A \<le> unat addr" "unat addr + unat ps \<le> al_hi A"
        "unat (pageAlign A) dvd unat addr" "\<forall>p \<in> set (pages A). clear_of (unat addr) (unat ps) p" by auto
      from P ne al n(3) pc(3) n(1,2,4) sc(2,3) pc(2)
      obtain i A1 p' a where c: "createPage A addr ps = (i, A1)" "findFreeBlock (pages A1 ! i) s = Some (Some 0)"
        "page_allocate (pages A1 ! i) s 0 = Some p'" "rd blk_addr p' 0 = Some a"
        "alloc_rep ((page_put A1 i p')\<lparr>allocated := allocated A1 + s\<rparr>) (insert (a, s) (\<Union> (set Ms)))"
        "\<forall>q \<in> \<Union> (set Ms). disjoint_ranges (a, s) q" "range_in (unat addr) (unat addr + unat ps) (a, s)"
        "unat (blockAlign A) dvd unat a" "same_cfg A A1" "allocated A1 = allocated A"
        by (rule createPage_alloc)
      have eq: "allocate A sz True = Some (Inr (a, (page_put A1 i p')\<lparr>allocated := allocated A1 + s\<rparr>))"
        using s(1) sz0 no ps(1) Some c(1-4) by (simp add: allocate_def page_put_def)
      show thesis using c(5-9) M n(1,2) by (intro fits [OF eq s(2)]) (simp_all add: same_cfg_def page_put_def range_in_def)
    qed
  qed
qed

end
