(* ===== verification/Mem_Alloc_Release.thy ===== *)
theory Mem_Alloc_Release
  imports Mem_Alloc_Rep
begin

text \<open>
  Releasing, reserving and destroying: each operation related to its effect on the set of
  live ranges, and the accounting of allocated bytes.
\<close>

subsection \<open>Releasing\<close>

lemma findUsed_page:
  assumes "alloc_pages A Ms" "i < length (pages A)"
  shows "\<exists>r. findUsedBlock (pages A ! i) a = Some r \<and> (r = None \<longleftrightarrow> a \<notin> fst ` (Ms ! i))"
  using alloc_pagesD(4) [OF assms] page_rep_findUsed by blast

lemma release_unknown:
  assumes R: "alloc_rep A M" and a: "a \<notin> fst ` M"
  shows "release A a = Some (Inl AddressNotFound)"
proof -
  from R obtain Ms where P: "alloc_pages A Ms" and M: "M = \<Union> (set Ms)" by (auto simp: alloc_rep_def)
  have "findUsedBlock (pages A ! i) a = Some None" if i: "i < length (pages A)" for i
  proof -
    have "Ms ! i \<subseteq> M" using M i alloc_pagesD(2) [OF P] by (metis Union_upper nth_mem)
    with a have "a \<notin> fst ` (Ms ! i)" by blast
    with findUsed_page [OF P i, of a] show ?thesis by auto
  qed
  then have "\<forall>p \<in> set (pages A). findUsedBlock p a = Some None" by (auto simp: in_set_conv_nth)
  with findPage_cases [of "pages A" "\<lambda>p. findUsedBlock p a"]
  have "findPage (\<lambda>p. findUsedBlock p a) (pages A) = Some None" by (auto dest: nth_mem)
  then show ?thesis by (simp add: release_def)
qed

lemma release_found:
  assumes P: "alloc_pages A Ms" and r: "(a, s) \<in> \<Union> (set Ms)"
  obtains i b where "findPage (\<lambda>p. findUsedBlock p a) (pages A) = Some (Some (i, b))" "i < length (pages A)"
    "findUsedBlock (pages A ! i) a = Some (Some b)"
proof -
  have t: "\<forall>p \<in> set (pages A). findUsedBlock p a \<noteq> None"
    using findUsed_page [OF P, of _ a] by (fastforce simp: in_set_conv_nth)
  from r obtain j where j: "j < length (pages A)" "(a, s) \<in> Ms ! j"
    using alloc_pagesD(2) [OF P] by (auto simp: in_set_conv_nth)
  have "a \<in> fst ` (Ms ! j)" using j(2) by force
  with findUsed_page [OF P j(1), of a] have "findUsedBlock (pages A ! j) a \<noteq> Some None" by auto
  with j(1) have "\<not> (\<forall>p \<in> set (pages A). findUsedBlock p a = Some None)" by (auto dest: nth_mem)
  with findPage_cases [of "pages A" "\<lambda>p. findUsedBlock p a", OF t] that show thesis by blast
qed

lemma alloc_pages_delete:
  assumes "alloc_pages A Ms" "i < length (pages A)"
  shows "alloc_pages (A\<lparr>pages := take i (pages A) @ drop (Suc i) (pages A)\<rparr>) (take i Ms @ drop (Suc i) Ms)"
proof -
  let ?ps = "take i (pages A) @ drop (Suc i) (pages A)"
  have "pages A = take i (pages A) @ pages A ! i # drop (Suc i) (pages A)" using assms(2) by (rule id_take_nth_drop)
  then have "sorted_wrt page_before ?ps"
    using alloc_pagesD(3) [OF assms(1)] by (metis (no_types, lifting) list.set_intros(2) sorted_wrt.simps(2) sorted_wrt_append)
  moreover have "list_all2 page_rep ?ps (take i Ms @ drop (Suc i) Ms)"
    using assms(1) by (auto simp: alloc_pages_def intro!: list_all2_appendI list_all2_takeI list_all2_dropI)
  moreover have "\<forall>p \<in> set ?ps. good_page A p"
    using assms(1) by (auto simp: alloc_pages_def dest: in_set_takeD in_set_dropD)
  ultimately show ?thesis
    using assms(1) by (simp add: alloc_pages_def alloc_cfg_def good_page_def)
qed

lemma release_at:
  assumes R: "alloc_rep A M" and r: "(a, s) \<in> M"
  obtains i p' Ms where "{} \<notin> set Ms" "i < length Ms" "alloc_pages (page_put A i p') (Ms[i := Ms ! i - {(a, s)}])"
    "\<Union> (set (Ms[i := Ms ! i - {(a, s)}])) = M - {(a, s)}" "allocated A - s = sum snd (M - {(a, s)})"
    "release A a = do { B \<leftarrow> if page_empty p' then deletePage (page_put A i p') i else Some (page_put A i p');
       Some (Inr (B\<lparr>allocated := allocated B - s\<rparr>)) }"
proof -
  from R obtain Ms where P: "alloc_pages A Ms" and M: "M = \<Union> (set Ms)" and ne: "{} \<notin> set Ms"
    and al: "allocated A = sum snd M" by (auto simp: alloc_rep_def)
  note D = alloc_pagesD [OF P]
  from release_found [OF P, of a s] r M obtain i b
    where f: "findPage (\<lambda>p. findUsedBlock p a) (pages A) = Some (Some (i, b))" and i: "i < length (pages A)"
      and u: "findUsedBlock (pages A ! i) a = Some (Some b)" by blast
  have pr: "page_rep (pages A ! i) (Ms ! i)" using D(4) [OF i] by simp
  from pr u obtain t p' where p': "(a, t) \<in> Ms ! i" "rd blk_size (pages A ! i) b = Some t"
    "page_release (pages A ! i) b = Some p'" "page_rep p' (Ms ! i - {(a, t)})"
    "pg_addr p' = pg_addr (pages A ! i)" "pg_size p' = pg_size (pages A ! i)"
    "pg_blockAlign p' = pg_blockAlign (pages A ! i)"
    by (rule page_rep_release)
  have i': "i < length Ms" using i D(2) by simp
  then have t: "(a, t) \<in> M" using p'(1) M by auto
  have st: "t = s"
    using alloc_pages_disjoint [OF P, of "(a, t)" "(a, s)"] t r M
      alloc_pages_range(1) [OF P, of "(a, t)"] alloc_pages_range(1) [OF P, of "(a, s)"]
    by (auto simp: range_in_def)
  let ?Ms = "Ms[i := Ms ! i - {(a, s)}]"
  have P': "alloc_pages (page_put A i p') ?Ms" using P i p'(4) [unfolded st] p'(5-7) by (rule alloc_pages_put)
  have "(a, s) \<notin> Ms ! j" if j: "j < length Ms" "j \<noteq> i" for j
  proof
    assume q: "(a, s) \<in> Ms ! j"
    have ri: "range_in (pg_lo (pages A ! i)) (pg_hi (pages A ! i)) (a, s)"
      using page_rep_range(1) [OF pr p'(1)] st by simp
    have "disjoint_ranges (a, s) (a, s)"
      using P i _ j(2) [symmetric] ri q by (rule alloc_pages_across) (use j D(2) in simp)
    with not_disjoint_self [OF ri] show False by blast
  qed
  then have U: "\<Union> (set ?Ms) = M - {(a, s)}" unfolding M using i' by (intro Union_delete_at) auto
  have sm: "allocated A - s = sum snd (M - {(a, s)})"
    using al r D(5) M sum.remove [of M "(a, s)" snd] by simp
  have "release A a = do { B \<leftarrow> if page_empty p' then deletePage (page_put A i p') i else Some (page_put A i p');
       Some (Inr (B\<lparr>allocated := allocated B - s\<rparr>)) }"
    using f p'(2,3) st by (simp add: release_def Let_def)
  with ne i' P' U sm show thesis by (rule that)
qed

lemma release_known:
  assumes R: "alloc_rep A M" and r: "(a, s) \<in> M"
  obtains A' where "release A a = Some (Inr A')" "alloc_rep A' (M - {(a, s)})" "same_cfg A A'"
proof -
  from R r obtain i p' Ms where ne: "{} \<notin> set Ms" and i: "i < length Ms"
    and P: "alloc_pages (page_put A i p') (Ms[i := Ms ! i - {(a, s)}])"
    and U: "\<Union> (set (Ms[i := Ms ! i - {(a, s)}])) = M - {(a, s)}" and sm: "allocated A - s = sum snd (M - {(a, s)})"
    and eq: "release A a = do { B \<leftarrow> if page_empty p' then deletePage (page_put A i p') i else Some (page_put A i p');
       Some (Inr (B\<lparr>allocated := allocated B - s\<rparr>)) }"
    by (rule release_at)
  let ?B = "page_put A i p'" and ?Ms = "Ms[i := Ms ! i - {(a, s)}]"
  have l: "i < length (pages ?B)" "pages ?B ! i = p'" using alloc_pagesD(2) [OF P] i by (simp_all add: page_put_def)
  have rep: "page_rep p' (Ms ! i - {(a, s)})" and sz: "0 < unat (pg_size p')"
    using alloc_pagesD(4) [OF P l(1)] l(2) i by (simp_all add: good_page_def)
  have B: "allocated ?B = allocated A" "same_cfg A ?B" by (simp_all add: page_put_def same_cfg_def)
  show thesis
  proof (cases "page_empty p'")
    case False
    then have "Ms ! i - {(a, s)} \<noteq> {}" using page_rep_empty(1) [OF rep sz] by blast
    then have "{} \<notin> set ?Ms" using ne set_update_subset_insert by fastforce
    moreover have "alloc_pages (?B\<lparr>allocated := allocated A - s\<rparr>) ?Ms"
      using P by (simp add: alloc_pages_def alloc_cfg_def good_page_def)
    ultimately have "alloc_rep (?B\<lparr>allocated := allocated A - s\<rparr>) (M - {(a, s)})"
      unfolding alloc_rep_def using U sm by (intro exI [of _ ?Ms]) simp
    with eq False B that show ?thesis by (simp add: same_cfg_def)
  next
    case True
    let ?C = "?B\<lparr>pages := take i (pages ?B) @ drop (Suc i) (pages ?B)\<rparr>"
    let ?Ns = "take i Ms @ drop (Suc i) Ms"
    have del: "deletePage ?B i = Some ?C" using l page_rep_empty(2) [OF rep sz True] by (simp add: deletePage_def)
    have e: "Ms ! i - {(a, s)} = {}" using page_rep_empty(1) [OF rep sz] True by blast
    have "alloc_pages ?C (take i ?Ms @ drop (Suc i) ?Ms)" using P l(1) by (rule alloc_pages_delete)
    then have "alloc_pages (?C\<lparr>allocated := allocated A - s\<rparr>) ?Ns"
      by (simp add: alloc_pages_def alloc_cfg_def good_page_def)
    moreover have "\<Union> (set ?Ns) = M - {(a, s)}"
      using U i e by (simp add: upd_conv_take_nth_drop)
    moreover have "{} \<notin> set ?Ns" using ne by (auto dest: in_set_takeD in_set_dropD)
    ultimately have "alloc_rep (?C\<lparr>allocated := allocated A - s\<rparr>) (M - {(a, s)})"
      unfolding alloc_rep_def using sm by (intro exI [of _ ?Ns]) simp
    with eq True del B that show ?thesis by (simp add: same_cfg_def)
  qed
qed

subsection \<open>Reserving\<close>

lemma hasPageOverlap_iff:
  assumes P: "alloc_pages A Ms" and a: "unat addr + unat sz < 2 ^ 64"
  shows "hasPageOverlap A addr sz \<noteq> None \<longleftrightarrow> (\<exists>p \<in> set (pages A). \<not> clear_of (unat addr) (unat sz) p)"
proof -
  have "(addr < pg_addr p + pg_size p \<and> addr + sz > pg_addr p) \<longleftrightarrow> \<not> clear_of (unat addr) (unat sz) p"
    if "p \<in> set (pages A)" for p
  proof -
    have "pg_hi p < 2 ^ 64" using P that page_rep_hi
      by (auto simp: alloc_pages_def list_all2_conv_all_nth in_set_conv_nth)
    with a show ?thesis by (auto simp: unat_simps)
  qed
  then show ?thesis by (auto simp: hasPageOverlap_def find_None_iff)
qed

lemma reserve_cases:
  assumes R: "alloc_rep A M" and sz: "0 < unat sz" "unat sz \<le> unat (capacity A)"
    and a: "unat (pageAlign A) dvd unat addr" "al_lo A \<le> unat addr" "unat addr \<le> al_hi A"
  obtains (out) "reserve A addr sz = Some (Inl OutOfBounds)"
      "al_hi A < unat addr + round_up (unat (pageAlign A)) (unat sz)"
  | (overlap) "reserve A addr sz = Some (Inl RangeOverlap)"
      "unat addr + round_up (unat (pageAlign A)) (unat sz) \<le> al_hi A"
      "\<exists>p \<in> set (pages A). \<not> clear_of (unat addr) (round_up (unat (pageAlign A)) (unat sz)) p"
  | (fits) s A' where "reserve A addr sz = Some (Inr A')" "unat s = round_up (unat (pageAlign A)) (unat sz)"
      "alloc_rep A' (insert (addr, s) M)" "same_cfg A A'" "\<forall>q \<in> M. disjoint_ranges (addr, s) q"
      "unat addr + unat s \<le> al_hi A" "\<forall>p \<in> set (pages A). clear_of (unat addr) (unat s) p"
proof -
  note cfg = alloc_rep_cfg [OF R]
  from R obtain Ms where P: "alloc_pages A Ms" and M: "M = \<Union> (set Ms)" and ne: "{} \<notin> set Ms"
    and al: "allocated A = sum snd (\<Union> (set Ms))" by (auto simp: alloc_rep_def)
  obtain s where s: "alignSize sz (ucast (pageAlign A)) = Some s" "unat s = round_up (unat (pageAlign A)) (unat sz)"
    using alignSize_cfg [OF cfg sz(2)] by blast
  have sc: "unat s \<le> unat (capacity A)" "0 < unat s" "unat (pageAlign A) dvd unat s"
    using round_up_cap [OF cfg sz(2), of "pageAlign A"] sz(1) s(2) by simp_all
  have w: "unat addr + unat s < 2 ^ 64" "al_hi A < 2 ^ 64" using a(3) sc(1) cfg by (auto simp: alloc_cfg_def)
  have b: "addr + s > baseAddress A + capacity A \<longleftrightarrow> al_hi A < unat addr + unat s"
    using w by (simp add: unat_simps)
  have sz0: "sz \<noteq> 0" using sz(1) by auto
  consider "al_hi A < unat addr + unat s"
    | "unat addr + unat s \<le> al_hi A" "\<exists>p \<in> set (pages A). \<not> clear_of (unat addr) (unat s) p"
    | "unat addr + unat s \<le> al_hi A" "\<forall>p \<in> set (pages A). clear_of (unat addr) (unat s) p"
    by (meson linorder_not_le)
  then show thesis
  proof cases
    case 1
    with out b s sz0 show ?thesis by (simp add: reserve_def)
  next
    case 2
    with overlap b s sz0 hasPageOverlap_iff [OF P w(1)] show ?thesis by (simp add: reserve_def)
  next
    case 3
    have bl: "unat (blockAlign A) dvd unat s" using block_dvd_page [OF cfg] sc(3) by (rule dvd_trans)
    from P ne al a(1) sc(3) a(2) 3(1,2) sc(2) bl order_refl
    obtain i A1 p' c where c: "createPage A addr s = (i, A1)" "findFreeBlock (pages A1 ! i) s = Some (Some 0)"
      "page_allocate (pages A1 ! i) s 0 = Some p'"
      "alloc_rep ((page_put A1 i p')\<lparr>allocated := allocated A1 + s\<rparr>) (insert (c, s) (\<Union> (set Ms)))"
      "\<forall>q \<in> \<Union> (set Ms). disjoint_ranges (c, s) q" "range_in (unat addr) (unat addr + unat s) (c, s)" "same_cfg A A1"
      by (rule createPage_alloc)
    have "c = addr" using c(6) by (simp add: range_in_def word_unat_eq_iff)
    have "\<not> (addr + s > baseAddress A + capacity A)" "hasPageOverlap A addr s = None"
      using b 3 hasPageOverlap_iff [OF P w(1)] by (auto simp del: not_None_eq)
    then have eq: "reserve A addr sz = Some (Inr ((page_put A1 i p')\<lparr>allocated := allocated A1 + s\<rparr>))"
      using s(1) sz0 c(1-3) by (simp add: reserve_def page_put_def)
    show ?thesis using c(4,5,7) M 3 \<open>c = addr\<close>
      by (intro fits [OF eq s(2)]) (simp_all add: same_cfg_def page_put_def)
  qed
qed

subsection \<open>The destructor\<close>

lemma releaseUsed_all:
  assumes "page_inv p ms ss us"
  shows "\<exists>p' ms' ss'. releaseUsed p (usedList p) = Some p' \<and> page_inv p' ms' ss' [] \<and> pg_size p' = pg_size p"
  using assms
proof (induction us arbitrary: p ms ss)
  case Nil
  then have "usedList p = None" using page_empty_iff by (auto simp: page_empty_def)
  with Nil show ?case by (subst releaseUsed.simps) auto
next
  case (Cons b us)
  have l: "links p (set ms \<union> set (b # us)) ms ss (b # us)" using page_invD(1) [OF Cons.prems] .
  then obtain r where d: "dpath (nextUsed p) (prevUsed p) None (usedList p) (b # us) r None" by (auto simp: links_def)
  have h: "usedList p = Some b" "blk_live p b" "nextUsed p b = (case us of [] \<Rightarrow> None | c # _ \<Rightarrow> Some c)"
    using d l by (auto simp: links_live split: list.split)
  from Cons.prems obtain p' ms' ss' where p': "page_release p b = Some p'" "page_inv p' ms' ss' us" "same_on p p' (set us)"
    using page_release_inv [of p ms ss "[]" b us] by auto
  have "usedList p' = (case us of [] \<Rightarrow> None | c # _ \<Rightarrow> Some c)"
    using page_invD(1) [OF p'(2)] by (auto simp: links_def split: list.splits)
  then have "releaseUsed p (usedList p) = releaseUsed p' (usedList p')"
    using h p'(1) by (subst releaseUsed.simps) simp
  with Cons.IH [OF p'(2)] p'(3) show ?case by (auto simp: same_on_def)
qed

lemma deletePages_vm:
  assumes "list_all2 page_rep ps Ms" "\<forall>p \<in> set ps. 0 < unat (pg_size p)"
  shows "deletePages True ps = Some ()"
  using assms
proof (induction ps arbitrary: Ms)
  case (Cons p ps)
  then obtain ms ss us where i: "page_inv p ms ss us" by (auto simp: list_all2_Cons1 page_rep_def)
  obtain p' ms' ss' where p': "releaseUsed p (usedList p) = Some p'" "page_inv p' ms' ss' []" "pg_size p' = pg_size p"
    using releaseUsed_all [OF i] by auto
  have "page_delete p' = Some ()" using page_delete_empty(2) [OF p'(2)] p'(3) Cons.prems(2) by simp
  with Cons p'(1) show ?case by (auto simp: list_all2_Cons1)
qed simp

lemma allocator_delete_rep:
  assumes R: "alloc_rep A M"
  shows "allocator_delete True A = Some ()"
    and "allocator_delete False A = (if M = {} then Some () else None)"
proof -
  from R obtain Ms where P: "alloc_pages A Ms" and M: "M = \<Union> (set Ms)" and ne: "{} \<notin> set Ms"
    by (auto simp: alloc_rep_def)
  from P show "allocator_delete True A = Some ()"
    unfolding allocator_delete_def by (intro deletePages_vm) (auto simp: alloc_pages_def good_page_def)
  show "allocator_delete False A = (if M = {} then Some () else None)"
  proof (cases "pages A")
    case Nil
    with P M show ?thesis by (simp add: alloc_pages_def allocator_delete_def)
  next
    case (Cons p ps)
    with P obtain N Ns where N: "Ms = N # Ns" "page_rep p N" "0 < unat (pg_size p)"
      by (auto simp: alloc_pages_def list_all2_Cons1 good_page_def)
    with ne have "N \<noteq> {}" "M \<noteq> {}" using M by auto
    with page_rep_empty(1) [OF N(2,3)] Cons show ?thesis
      by (auto simp: allocator_delete_def page_delete_def page_empty_def bind_check)
  qed
qed

subsection \<open>Accounting\<close>

lemma alloc_rep_ranges:
  assumes "alloc_rep A M"
  shows "finite M" "\<And>r. r \<in> M \<Longrightarrow> range_in (al_lo A) (al_hi A) r"
    "\<And>r. r \<in> M \<Longrightarrow> unat (blockAlign A) dvd unat (fst r)"
    "\<And>r q. r \<in> M \<Longrightarrow> q \<in> M \<Longrightarrow> r \<noteq> q \<Longrightarrow> disjoint_ranges r q"
proof -
  from assms obtain Ms where P: "alloc_pages A Ms" and M: "M = \<Union> (set Ms)" by (auto simp: alloc_rep_def)
  show "finite M" "\<And>r. r \<in> M \<Longrightarrow> range_in (al_lo A) (al_hi A) r"
    "\<And>r. r \<in> M \<Longrightarrow> unat (blockAlign A) dvd unat (fst r)"
    "\<And>r q. r \<in> M \<Longrightarrow> q \<in> M \<Longrightarrow> r \<noteq> q \<Longrightarrow> disjoint_ranges r q"
    unfolding M by (fact alloc_pagesD(5) [OF P] alloc_pages_range(1,2) [OF P] alloc_pages_disjoint [OF P])+
qed

lemma sum_ranges_le:
  assumes f: "finite M" and i: "\<And>r. r \<in> M \<Longrightarrow> range_in lo hi r"
    and d: "\<And>r q. r \<in> M \<Longrightarrow> q \<in> M \<Longrightarrow> r \<noteq> q \<Longrightarrow> disjoint_ranges r q"
  shows "(\<Sum>r \<in> M. unat (snd r)) \<le> hi - lo"
proof -
  let ?I = "\<lambda>r :: range. {unat (fst r) ..< unat (fst r) + unat (snd r)}"
  have "?I r \<inter> ?I q = {}" if "r \<in> M" "q \<in> M" "r \<noteq> q" for r q
    using d [OF that] by (cases r; cases q) auto
  then have "card (\<Union>r \<in> M. ?I r) = (\<Sum>r \<in> M. card (?I r))"
    using f by (intro card_UN_disjoint) auto
  moreover have "(\<Union>r \<in> M. ?I r) \<subseteq> {lo ..< hi}" using i by (fastforce simp: range_in_def)
  then have "card (\<Union>r \<in> M. ?I r) \<le> hi - lo" using card_mono [of "{lo ..< hi}"] by simp
  ultimately show ?thesis by simp
qed

lemma allocated_exact:
  assumes R: "alloc_rep A M"
  shows "unat (allocated A) = (\<Sum>r \<in> M. unat (snd r))" "allocated A \<le> capacity A"
proof -
  note D = alloc_rep_ranges [OF R]
  have le: "(\<Sum>r \<in> M. unat (snd r)) \<le> unat (capacity A)"
    using sum_ranges_le [of M "al_lo A" "al_hi A"] D by simp
  have s: "allocated A = of_nat (\<Sum>r \<in> M. unat (snd r))" using R by (auto simp: alloc_rep_def)
  have "(\<Sum>r \<in> M. unat (snd r)) < 2 ^ 64" using le alloc_rep_cfg [OF R] by (simp add: alloc_cfg_def)
  then show "unat (allocated A) = (\<Sum>r \<in> M. unat (snd r))"
    unfolding s unsigned_of_nat by (simp add: take_bit_nat_eq_self)
  with le show "allocated A \<le> capacity A" by (simp add: word_le_nat_alt)
qed

end
