(* ===== verification/Mem_Alloc_Props.thy ===== *)
theory Mem_Alloc_Props
  imports Mem_Alloc_Release
begin

text \<open>
  The contract the runtime relies on, as a locale with its client lemma and its interpretation
  on the model, and the properties of the allocator.
\<close>

subsection \<open>The contract of a range allocator\<close>

text \<open>
  What the runtime relies on: allocation returns a fresh range inside the managed region or
  reports an error, and freeing a live address removes exactly its range.
\<close>

datatype client_req = Malloc u64 | Mfree u64

fun run_client :: "('a \<Rightarrow> u64 \<Rightarrow> (alloc_error + u64 \<times> 'a) option) \<Rightarrow> ('a \<Rightarrow> u64 \<Rightarrow> (alloc_error + 'a) option) \<Rightarrow>
    'a \<Rightarrow> client_req list \<Rightarrow> 'a option" where
  "run_client al fr A [] = Some A"
| "run_client al fr A (Malloc sz # rs) = do {
     r \<leftarrow> al A sz;
     run_client al fr (case r of Inl _ \<Rightarrow> A | Inr (_, A') \<Rightarrow> A') rs }"
| "run_client al fr A (Mfree a # rs) = do {
     r \<leftarrow> fr A a;
     run_client al fr (case r of Inl _ \<Rightarrow> A | Inr A' \<Rightarrow> A') rs }"

locale range_allocator =
  fixes rep :: "'a \<Rightarrow> range set \<Rightarrow> bool"
    and lim :: "'a \<Rightarrow> nat"
    and al :: "'a \<Rightarrow> u64 \<Rightarrow> (alloc_error + u64 \<times> 'a) option"
    and fr :: "'a \<Rightarrow> u64 \<Rightarrow> (alloc_error + 'a) option"
  assumes al_law: "rep A M \<Longrightarrow> unat sz \<le> lim A \<Longrightarrow>
      (\<exists>a s A'. al A sz = Some (Inr (a, A')) \<and> rep A' (insert (a, s) M) \<and> lim A' = lim A \<and>
         (\<forall>q \<in> M. disjoint_ranges (a, s) q)) \<or> (\<exists>e. al A sz = Some (Inl e))"
    and fr_known: "rep A M \<Longrightarrow> (a, s) \<in> M \<Longrightarrow>
      \<exists>A'. fr A a = Some (Inr A') \<and> rep A' (M - {(a, s)}) \<and> lim A' = lim A"
    and fr_unknown: "rep A M \<Longrightarrow> a \<notin> fst ` M \<Longrightarrow> \<exists>e. fr A a = Some (Inl e)"
begin

lemma run_safe:
  assumes "rep A M" "\<forall>sz. Malloc sz \<in> set rs \<longrightarrow> unat sz \<le> lim A"
  shows "\<exists>A' M'. run_client al fr A rs = Some A' \<and> rep A' M' \<and> lim A' = lim A"
  using assms
proof (induction rs arbitrary: A M)
  case (Cons r rs)
  show ?case
  proof (cases r)
    case (Malloc sz)
    then have "unat sz \<le> lim A" using Cons.prems(2) by simp
    then obtain r A' M' where "al A sz = Some r" "(case r of Inl _ \<Rightarrow> A | Inr (_, A') \<Rightarrow> A') = A'" "rep A' M'" "lim A' = lim A"
      using al_law [OF Cons.prems(1), of sz] Cons.prems(1) that [of "Inl _"] that [of "Inr (_, _)"] by auto
    then show ?thesis using Cons.IH [of A' M'] Cons.prems(2) Malloc by simp
  next
    case (Mfree a)
    consider s where "(a, s) \<in> M" | "a \<notin> fst ` M" by force
    then obtain r A' M' where "fr A a = Some r" "(case r of Inl _ \<Rightarrow> A | Inr A' \<Rightarrow> A') = A'" "rep A' M'" "lim A' = lim A"
    proof cases
      case (1 s)
      with fr_known [OF Cons.prems(1) 1] that [of "Inr _"] show ?thesis by auto
    next
      case 2
      with fr_unknown [OF Cons.prems(1) 2] that [of "Inl _"] Cons.prems(1) show ?thesis by auto
    qed
    then show ?thesis using Cons.IH [of A' M'] Cons.prems(2) Mfree by simp
  qed
qed auto

end

lemma allocate_zero: "allocate A 0 b = Some (Inl InvalidArguments)"
  by (simp add: allocate_def)

interpretation device_mem: range_allocator alloc_rep "\<lambda>A. unat (capacity A)" "\<lambda>A sz. allocate A sz True" release
proof
  fix A M and sz :: u64 assume R: "alloc_rep A M" and sz: "unat sz \<le> unat (capacity A)"
  show "(\<exists>a s A'. allocate A sz True = Some (Inr (a, A')) \<and> alloc_rep A' (insert (a, s) M) \<and>
      unat (capacity A') = unat (capacity A) \<and> (\<forall>q \<in> M. disjoint_ranges (a, s) q)) \<or>
    (\<exists>e. allocate A sz True = Some (Inl e))"
  proof (cases "0 < unat sz")
    case True
    from R True sz show ?thesis by (rule allocate_cases) (auto simp: same_cfg_def)
  next
    case False
    then have "sz = 0" by (simp add: unsigned_eq_0_iff)
    then show ?thesis by (simp add: allocate_zero)
  qed
next
  fix A M a s assume "alloc_rep A M" "(a, s) \<in> M"
  then show "\<exists>A'. release A a = Some (Inr A') \<and> alloc_rep A' (M - {(a, s)}) \<and> unat (capacity A') = unat (capacity A)"
    by (rule release_known) (auto simp: same_cfg_def)
next
  fix A M a assume "alloc_rep A M" "a \<notin> fst ` M"
  then show "\<exists>e. release A a = Some (Inl e)" using release_unknown by blast
qed

subsection \<open>Properties\<close>

text \<open>The configuration of the witnesses: 1 MiB from 64 KiB, 4 KiB pages, 64 byte blocks.\<close>

definition small_mem :: allocator where
  "small_mem = allocator_new 65536 1048576 4096 64"

text \<open>C3. \<open>allocate\<close> never reads freed memory or fails an assertion. For a request of at most the
  capacity it either returns an aligned range of the rounded size that lies in the managed
  region and is disjoint from every live range, and the live ranges then are the old ones and
  the new one; or it reports that memory is out, and then no page of the needed size fits
  anywhere between the existing pages.\<close>

theorem allocate_correct:
  assumes "alloc_rep A M" "0 < unat sz" "unat sz \<le> unat (capacity A)"
  shows "(\<exists>a s A'. allocate A sz True = Some (Inr (a, A')) \<and>
      unat s = round_up (unat (blockAlign A)) (unat sz) \<and> alloc_rep A' (insert (a, s) M) \<and>
      (\<forall>q \<in> M. disjoint_ranges (a, s) q) \<and> range_in (al_lo A) (al_hi A) (a, s) \<and>
      unat (blockAlign A) dvd unat a) \<or>
    (allocate A sz True = Some (Inl OutOfMemory) \<and>
     (\<forall>b. al_lo A \<le> b \<and> b + round_up (unat (pageAlign A)) (unat sz) \<le> al_hi A \<longrightarrow>
       (\<exists>p \<in> set (pages A). \<not> clear_of b (round_up (unat (pageAlign A)) (unat sz)) p)))"
  using assms by (rule allocate_cases) blast+

lemma small_mem_cfg: "alloc_cfg small_mem"
  unfolding alloc_cfg_def small_mem_def allocator_new_def
  by (intro conjI exI [of _ 6] exI [of _ 12]) simp_all

lemma small_mem_rep: "alloc_rep small_mem {}"
  using alloc_rep_new small_mem_cfg unfolding small_mem_def by blast

lemma small_mem_simps [simp]:
  "capacity small_mem = 1048576" "baseAddress small_mem = 65536" "pageAlign small_mem = 4096"
  "blockAlign small_mem = 64" "pages small_mem = []"
  by (simp_all add: small_mem_def allocator_new_def)

lemma small_mem_alloc:
  "\<exists>a s A'. allocate small_mem 100 True = Some (Inr (a, A')) \<and> alloc_rep A' {(a, s)}"
proof (rule allocate_cases [OF small_mem_rep, of 100])
  assume "\<forall>b. al_lo small_mem \<le> b \<and> b + round_up (unat (pageAlign small_mem)) (unat (100 :: u64)) \<le> al_hi small_mem \<longrightarrow>
    (\<exists>p \<in> set (pages small_mem). \<not> clear_of b (round_up (unat (pageAlign small_mem)) (unat (100 :: u64))) p)"
  then have False using spec [of _ 65536] by (auto simp: round_up_def)
  then show ?thesis ..
qed auto

lemma allocate_correct_witness:
  "\<exists>a s A'. allocate small_mem 100 True = Some (Inr (a, A')) \<and> unat s = 128 \<and> alloc_rep A' {(a, s)} \<and>
     range_in 65536 1114112 (a, s) \<and> 64 dvd unat a"
  using allocate_correct [OF small_mem_rep, of 100] by (auto simp: round_up_def)

text \<open>C10. \<open>release\<close> of a live address returns and removes exactly that range from the live ones
  (freeing the page when it was the last of the page); of any other address it reports an
  error and changes nothing.\<close>

theorem release_correct:
  assumes "alloc_rep A M"
  shows "(\<forall>s. (a, s) \<in> M \<longrightarrow> (\<exists>A'. release A a = Some (Inr A') \<and> alloc_rep A' (M - {(a, s)}) \<and> same_cfg A A')) \<and>
    (a \<notin> fst ` M \<longrightarrow> release A a = Some (Inl AddressNotFound))"
  using release_known [OF assms, of a] release_unknown [OF assms, of a] by blast

lemma release_correct_witness:
  "\<exists>A a s B. alloc_rep A {(a, s)} \<and> release A a = Some (Inr B) \<and> alloc_rep B {}"
proof -
  obtain a s A' where A: "alloc_rep A' {(a, s)}" using small_mem_alloc by blast
  with release_correct [OF A, of a] show ?thesis by force
qed





text \<open>C13. Whatever sequence of allocations (of at most the capacity) and releases a client makes on
  a new allocator, none of them touches freed memory, fails an assertion or does not return,
  and the live ranges stay inside the region, aligned and pairwise disjoint; \<open>allocated\<close> is
  exactly the number of live bytes, at most the capacity.\<close>

theorem client_safe:
  assumes "alloc_cfg (allocator_new base cap pal bal)" "\<forall>sz. Malloc sz \<in> set rs \<longrightarrow> unat sz \<le> unat cap"
  shows "\<exists>A M. run_client (\<lambda>A sz. allocate A sz True) release (allocator_new base cap pal bal) rs = Some A \<and>
    alloc_rep A M \<and> (\<forall>r \<in> M. range_in (al_lo A) (al_hi A) r \<and> unat (blockAlign A) dvd unat (fst r)) \<and>
    (\<forall>r \<in> M. \<forall>q \<in> M. r \<noteq> q \<longrightarrow> disjoint_ranges r q) \<and>
    unat (allocated A) = (\<Sum>r \<in> M. unat (snd r)) \<and> allocated A \<le> capacity A"
proof -
  let ?A = "allocator_new base cap pal bal"
  have c: "\<forall>sz. Malloc sz \<in> set rs \<longrightarrow> unat sz \<le> unat (capacity ?A)"
    using assms(2) by (simp add: allocator_new_def)
  obtain A M where A: "run_client (\<lambda>A sz. allocate A sz True) release ?A rs = Some A" "alloc_rep A M"
    using device_mem.run_safe [OF alloc_rep_new [OF assms(1)] c] by blast
  with alloc_rep_ranges [OF A(2)] allocated_exact [OF A(2)] show ?thesis by blast
qed

lemma client_safe_witness:
  "\<exists>A. run_client (\<lambda>A sz. allocate A sz True) release small_mem
     [Malloc 100, Malloc 5000, Mfree 65536, Malloc 64, Mfree 3] = Some A"
  using client_safe [of 65536 1048576 4096 64 "[Malloc 100, Malloc 5000, Mfree 65536, Malloc 64, Mfree 3]"]
    small_mem_cfg unfolding small_mem_def by auto

text \<open>C26. The destructor: with virtual memory enabled it releases every block and every assertion of
  the page destructor holds; without it, it succeeds exactly when nothing is live.\<close>

theorem destructor_correct:
  assumes "alloc_rep A M"
  shows "allocator_delete True A = Some () \<and> (allocator_delete False A = Some () \<longleftrightarrow> M = {})"
  using allocator_delete_rep [OF assms] by simp

lemma destructor_correct_witness:
  "\<exists>A a s. alloc_rep A {(a, s)} \<and> allocator_delete True A = Some () \<and> allocator_delete False A \<noteq> Some ()"
proof -
  obtain a s A' where A: "alloc_rep A' {(a, s)}" using small_mem_alloc by blast
  with destructor_correct [OF A] show ?thesis by blast
qed

text \<open>C27. \<open>findFreeBlock\<close> returns and is best fit: a free block that is large enough and of least size
  among those, or none exactly when every free block is too small.\<close>

theorem findFreeBlock_best_fit:
  assumes "page_inv p ms ss us"
  shows "\<exists>r. findFreeBlock p s = Some r \<and>
    (case r of None \<Rightarrow> \<forall>x \<in> set ms. blk_size p x < s
     | Some b \<Rightarrow> b \<in> set ms \<and> s \<le> blk_size p b \<and>
         (\<forall>x \<in> set ms. s \<le> blk_size p x \<longrightarrow> blk_size p b \<le> blk_size p x))"
  by (rule findFreeBlock_best [OF assms, of s]) (simp_all split: option.split)

lemma new_page_inv: "page_inv (page_new 4096 8192 64) [0] [0] []"
  by (rule page_inv_new) simp_all

lemma findFreeBlock_best_fit_witness:
  "\<exists>b. findFreeBlock (page_new 4096 8192 64) 100 = Some (Some b)"
  using findFreeBlock_best_fit [OF new_page_inv, of 100]
  by (auto simp: page_new_def new_block_def split: option.splits)

text \<open>C23. \<open>page_t::release\<close> returns and keeps the page invariant: the three lists stay well linked, the
  free and used blocks tile the page, the released block is merged with both neighbours so
  that no two free blocks touch, and no other used block moves.\<close>

theorem page_release_invariant:
  assumes "page_inv p ms ss (xs @ b # ys)"
  shows "\<exists>p' ms' ss'. page_release p b = Some p' \<and> page_inv p' ms' ss' (xs @ ys) \<and>
    apart p' ms' \<and> same_on p p' (set (xs @ ys))"
  using assms by (rule page_release_inv) (auto dest: page_invD(5))

lemma page_release_invariant_witness:
  "\<exists>p p' ms' ss'. page_allocate (page_new 4096 8192 64) 128 0 = Some p \<and> page_release p 0 = Some p' \<and>
     page_inv p' ms' ss' []"
proof -
  have "(0 :: nat) \<in> set [0]" "128 \<le> blk_size (page_new 4096 8192 64) 0" "0 < unat (128 :: u64)"
    "unat (pg_blockAlign (page_new 4096 8192 64)) dvd unat (128 :: u64)"
    by (simp_all add: page_new_def new_block_def)
  with new_page_inv obtain p ms ss where p: "page_allocate (page_new 4096 8192 64) 128 0 = Some p" "page_inv p ms ss [0]"
    by (rule page_allocate_inv)
  with page_release_invariant [of p ms ss "[]" 0 "[]"] show ?thesis by auto
qed

text \<open>C38. With no page yet, \<open>findNextAddress\<close> answers the base address without looking at the
  capacity: the first allocation succeeds for any size, however small the capacity.\<close>

theorem first_allocation_ignores_capacity:
  assumes j: "j \<le> k" "k < 32" and b: "2 ^ k dvd unat base"
    and sz: "0 < unat sz" "unat base + round_up (2 ^ k) (unat sz) + 2 ^ k < 2 ^ 64"
  shows "\<exists>A'. allocate (allocator_new base cap (2 ^ k) (2 ^ j)) sz True = Some (Inr (base, A'))"
proof -
  let ?A = "allocator_new base cap (2 ^ k) (2 ^ j)"
  have al: "unat (2 ^ j :: u32) = 2 ^ j" "unat (2 ^ k :: u32) = 2 ^ k" using j by (simp_all add: unat_pow2)
  have r: "unat sz \<le> round_up (2 ^ j) (unat sz)" "round_up (2 ^ j) (unat sz) < unat sz + 2 ^ j"
    "unat sz \<le> round_up (2 ^ k) (unat sz)" "(2 :: nat) ^ j \<le> 2 ^ k"
    using j by (simp_all add: round_up_bounds)
  have b1: "unat sz + 2 ^ j \<le> 2 ^ 64" using sz(2) r(3,4) by linarith
  obtain s where s: "alignSize sz (2 ^ j) = Some s" "unat s = round_up (2 ^ j) (unat sz)"
    using alignSize_pow2 [OF _ b1] j by auto
  have rr: "round_up (2 ^ k) (unat s) = round_up (2 ^ k) (unat sz)"
    unfolding s(2) using j(1) by (intro round_up_round_up) (simp_all add: le_imp_power_dvd)
  have sl: "unat s \<le> round_up (2 ^ k) (unat s)" by (simp add: round_up_bounds)
  then have b2: "unat s + 2 ^ k \<le> 2 ^ 64" using sz(2) rr by linarith
  obtain ps where ps: "alignSize s (2 ^ k) = Some ps" "unat ps = round_up (2 ^ k) (unat sz)"
    using alignSize_pow2 [OF _ b2] j rr by auto
  have le: "s \<le> ps" using sl ps(2) rr by (simp add: word_le_nat_alt)
  let ?p = "page_new base ps (2 ^ j)"
  have d: "(2 :: nat) ^ j dvd 2 ^ k" using j(1) by (rule le_imp_power_dvd)
  have pre: "0 < unat ps" "0 < unat (2 ^ j :: u32)" "unat (2 ^ j :: u32) dvd unat base" "unat (2 ^ j :: u32) dvd unat ps"
      "unat base + unat ps < 2 ^ 64" "0 < unat s" "unat (2 ^ j :: u32) dvd unat s"
    using al r sz b ps(2) s(2) dvd_trans [OF d] by simp_all
  have i: "page_inv ?p [0] [0] []" using pre(1-5) by (rule page_inv_new)
  have f: "findFreeBlock ?p s = Some (Some 0)" using page_rep_new(2) [OF pre(1-5), of s] le by simp
  have q: "(0 :: nat) \<in> set [0]" "s \<le> blk_size ?p 0" "unat (pg_blockAlign ?p) dvd unat s" "blk_addr ?p 0 = base"
    using le pre(7) by (simp_all add: page_new_def new_block_def)
  obtain p' ms' ss' where p': "page_allocate ?p s 0 = Some p'" "page_inv p' ms' ss' [0]" "blk_addr p' 0 = base"
    using page_allocate_inv [OF i q(1,2) pre(6) q(3)] q(4) by metis
  have "rd blk_addr p' 0 = Some base" using page_invD(1) [OF p'(2)] p'(3) by (simp add: links_live)
  moreover have "sz \<noteq> 0" using sz(1) by auto
  ultimately show ?thesis
    using s(1) ps(1) f p'(1) j
    by (simp add: allocate_def allocator_new_def findNextAddress_def createPage_def insert_page_def Let_def ucast_pow2_u32)
qed

lemma first_allocation_ignores_capacity_witness:
  "\<exists>A'. allocate (allocator_new 65536 4096 (2 ^ 12) (2 ^ 6)) 1000000 True = Some (Inr (65536, A'))"
  using first_allocation_ignores_capacity [of 6 12 65536 1000000 4096] by (simp add: round_up_def)

end
