(* ===== verification/Kmu.thy ===== *)
theory Kmu
  imports Prelude
begin

text \<open>
  The kernel management unit, \<open>Kmu\<close> of \<open>sim/simx/kmu/kmu.{h,cpp}\<close>. It holds the kernel descriptor
  that the host programs through device configuration registers and walks the grid, one
  request per \<open>step\<close>: the CTAs of a cluster first, then the clusters in X, Y, Z order.
\<close>

unbundle bit_operations_syntax

record dim3 =
  dim_x :: u32
  dim_y :: u32
  dim_z :: u32

abbreviation dim3_of :: "u32 \<Rightarrow> u32 \<Rightarrow> u32 \<Rightarrow> dim3" where
  "dim3_of x y z \<equiv> \<lparr>dim_x = x, dim_y = y, dim_z = z\<rparr>"

record kmu_req_t =
  req_PC :: u64
  req_entry :: u64
  req_param :: u64
  req_cta_id :: u32
  req_block_idx :: dim3
  req_block_dim :: dim3
  req_grid_dim :: dim3
  req_lmem_size :: u32
  req_block_size :: u32
  req_warp_step :: dim3
  req_cluster_dim :: dim3
  is_first_of_cluster :: bool

record kmu =
  kmu_PC :: u64
  kmu_entry :: u64
  kmu_param :: u64
  kmu_block_dim :: dim3
  kmu_grid_dim :: dim3
  kmu_lmem_size :: u32
  kmu_block_size :: u32
  kmu_warp_step :: dim3
  kmu_cluster_dim :: dim3
  kmu_running :: bool
  kmu_cta_id :: u32
  group_origin :: dim3
  intra_offset :: dim3

definition kmu_new :: kmu where
  "kmu_new = \<lparr>kmu_PC = 0, kmu_entry = 0, kmu_param = 0, kmu_block_dim = dim3_of 1 1 1,
     kmu_grid_dim = dim3_of 1 1 1, kmu_lmem_size = 0, kmu_block_size = 0, kmu_warp_step = dim3_of 1 1 1,
     kmu_cluster_dim = dim3_of 1 1 1, kmu_running = False, kmu_cta_id = 0,
     group_origin = dim3_of 0 0 0, intra_offset = dim3_of 0 0 0\<rparr>"

definition kmu_on_reset :: "kmu \<Rightarrow> kmu" where
  "kmu_on_reset k = k\<lparr>kmu_running := False, kmu_cta_id := 0, group_origin := dim3_of 0 0 0,
     intra_offset := dim3_of 0 0 0\<rparr>"

text \<open>The register numbers, from \<open>sw/VX_types.h\<close>.\<close>

abbreviation VX_DCR_KMU_STARTUP_ADDR0 :: u32 where "VX_DCR_KMU_STARTUP_ADDR0 \<equiv> 0x010"
abbreviation VX_DCR_KMU_STARTUP_ADDR1 :: u32 where "VX_DCR_KMU_STARTUP_ADDR1 \<equiv> 0x011"
abbreviation VX_DCR_KMU_KERNEL_ENTRY0 :: u32 where "VX_DCR_KMU_KERNEL_ENTRY0 \<equiv> 0x012"
abbreviation VX_DCR_KMU_KERNEL_ENTRY1 :: u32 where "VX_DCR_KMU_KERNEL_ENTRY1 \<equiv> 0x013"
abbreviation VX_DCR_KMU_STARTUP_ARG0 :: u32 where "VX_DCR_KMU_STARTUP_ARG0 \<equiv> 0x014"
abbreviation VX_DCR_KMU_STARTUP_ARG1 :: u32 where "VX_DCR_KMU_STARTUP_ARG1 \<equiv> 0x015"
abbreviation VX_DCR_KMU_BLOCK_DIM_X :: u32 where "VX_DCR_KMU_BLOCK_DIM_X \<equiv> 0x016"
abbreviation VX_DCR_KMU_BLOCK_DIM_Y :: u32 where "VX_DCR_KMU_BLOCK_DIM_Y \<equiv> 0x017"
abbreviation VX_DCR_KMU_BLOCK_DIM_Z :: u32 where "VX_DCR_KMU_BLOCK_DIM_Z \<equiv> 0x018"
abbreviation VX_DCR_KMU_GRID_DIM_X :: u32 where "VX_DCR_KMU_GRID_DIM_X \<equiv> 0x019"
abbreviation VX_DCR_KMU_GRID_DIM_Y :: u32 where "VX_DCR_KMU_GRID_DIM_Y \<equiv> 0x01A"
abbreviation VX_DCR_KMU_GRID_DIM_Z :: u32 where "VX_DCR_KMU_GRID_DIM_Z \<equiv> 0x01B"
abbreviation VX_DCR_KMU_LMEM_SIZE :: u32 where "VX_DCR_KMU_LMEM_SIZE \<equiv> 0x01C"
abbreviation VX_DCR_KMU_BLOCK_SIZE :: u32 where "VX_DCR_KMU_BLOCK_SIZE \<equiv> 0x01D"
abbreviation VX_DCR_KMU_WARP_STEP_X :: u32 where "VX_DCR_KMU_WARP_STEP_X \<equiv> 0x01E"
abbreviation VX_DCR_KMU_WARP_STEP_Y :: u32 where "VX_DCR_KMU_WARP_STEP_Y \<equiv> 0x01F"
abbreviation VX_DCR_KMU_WARP_STEP_Z :: u32 where "VX_DCR_KMU_WARP_STEP_Z \<equiv> 0x020"
abbreviation VX_DCR_KMU_CLUSTER_DIM_X :: u32 where "VX_DCR_KMU_CLUSTER_DIM_X \<equiv> 0x021"
abbreviation VX_DCR_KMU_CLUSTER_DIM_Y :: u32 where "VX_DCR_KMU_CLUSTER_DIM_Y \<equiv> 0x022"
abbreviation VX_DCR_KMU_CLUSTER_DIM_Z :: u32 where "VX_DCR_KMU_CLUSTER_DIM_Z \<equiv> 0x023"

text \<open>A 64-bit register written through its low and its high half.\<close>

definition set_lo32 :: "u64 \<Rightarrow> u32 \<Rightarrow> u64" where
  "set_lo32 r v = (r AND NOT 0xFFFFFFFF) OR ucast v"

definition set_hi32 :: "u64 \<Rightarrow> u32 \<Rightarrow> u64" where
  "set_hi32 r v = (r AND 0xFFFFFFFF) OR push_bit 32 (ucast v)"

definition kmu_dcr_write :: "kmu \<Rightarrow> u32 \<Rightarrow> u32 \<Rightarrow> kmu" where
  "kmu_dcr_write k addr v =
     (if addr = VX_DCR_KMU_STARTUP_ADDR0 then k\<lparr>kmu_PC := set_lo32 (kmu_PC k) v\<rparr>
      else if addr = VX_DCR_KMU_STARTUP_ADDR1 then k\<lparr>kmu_PC := set_hi32 (kmu_PC k) v\<rparr>
      else if addr = VX_DCR_KMU_KERNEL_ENTRY0 then k\<lparr>kmu_entry := set_lo32 (kmu_entry k) v\<rparr>
      else if addr = VX_DCR_KMU_KERNEL_ENTRY1 then k\<lparr>kmu_entry := set_hi32 (kmu_entry k) v\<rparr>
      else if addr = VX_DCR_KMU_STARTUP_ARG0 then k\<lparr>kmu_param := set_lo32 (kmu_param k) v\<rparr>
      else if addr = VX_DCR_KMU_STARTUP_ARG1 then k\<lparr>kmu_param := set_hi32 (kmu_param k) v\<rparr>
      else if addr = VX_DCR_KMU_BLOCK_DIM_X then k\<lparr>kmu_block_dim := (kmu_block_dim k)\<lparr>dim_x := v\<rparr>\<rparr>
      else if addr = VX_DCR_KMU_BLOCK_DIM_Y then k\<lparr>kmu_block_dim := (kmu_block_dim k)\<lparr>dim_y := v\<rparr>\<rparr>
      else if addr = VX_DCR_KMU_BLOCK_DIM_Z then k\<lparr>kmu_block_dim := (kmu_block_dim k)\<lparr>dim_z := v\<rparr>\<rparr>
      else if addr = VX_DCR_KMU_GRID_DIM_X then k\<lparr>kmu_grid_dim := (kmu_grid_dim k)\<lparr>dim_x := v\<rparr>\<rparr>
      else if addr = VX_DCR_KMU_GRID_DIM_Y then k\<lparr>kmu_grid_dim := (kmu_grid_dim k)\<lparr>dim_y := v\<rparr>\<rparr>
      else if addr = VX_DCR_KMU_GRID_DIM_Z then k\<lparr>kmu_grid_dim := (kmu_grid_dim k)\<lparr>dim_z := v\<rparr>\<rparr>
      else if addr = VX_DCR_KMU_LMEM_SIZE then k\<lparr>kmu_lmem_size := v\<rparr>
      else if addr = VX_DCR_KMU_BLOCK_SIZE then k\<lparr>kmu_block_size := v\<rparr>
      else if addr = VX_DCR_KMU_WARP_STEP_X then k\<lparr>kmu_warp_step := (kmu_warp_step k)\<lparr>dim_x := v\<rparr>\<rparr>
      else if addr = VX_DCR_KMU_WARP_STEP_Y then k\<lparr>kmu_warp_step := (kmu_warp_step k)\<lparr>dim_y := v\<rparr>\<rparr>
      else if addr = VX_DCR_KMU_WARP_STEP_Z then k\<lparr>kmu_warp_step := (kmu_warp_step k)\<lparr>dim_z := v\<rparr>\<rparr>
      else if addr = VX_DCR_KMU_CLUSTER_DIM_X then k\<lparr>kmu_cluster_dim := (kmu_cluster_dim k)\<lparr>dim_x := v\<rparr>\<rparr>
      else if addr = VX_DCR_KMU_CLUSTER_DIM_Y then k\<lparr>kmu_cluster_dim := (kmu_cluster_dim k)\<lparr>dim_y := v\<rparr>\<rparr>
      else if addr = VX_DCR_KMU_CLUSTER_DIM_Z then k\<lparr>kmu_cluster_dim := (kmu_cluster_dim k)\<lparr>dim_z := v\<rparr>\<rparr>
      else k)"

definition kmu_start :: "kmu \<Rightarrow> kmu" where
  "kmu_start k =
     (let run = (kmu_block_size k > 0 \<and>
          dim_x (kmu_grid_dim k) > 0 \<and> dim_y (kmu_grid_dim k) > 0 \<and> dim_z (kmu_grid_dim k) > 0 \<and>
          dim_x (kmu_cluster_dim k) > 0 \<and> dim_y (kmu_cluster_dim k) > 0 \<and> dim_z (kmu_cluster_dim k) > 0);
          k = k\<lparr>kmu_running := run\<rparr>
      in if run then k\<lparr>kmu_cta_id := 0, group_origin := dim3_of 0 0 0, intra_offset := dim3_of 0 0 0\<rparr>
         else k)"

definition launch_delegated :: "kmu \<Rightarrow> bool" where
  "launch_delegated k \<longleftrightarrow>
     \<not> (dim_x (kmu_grid_dim k) \<noteq> 0 \<and> dim_y (kmu_grid_dim k) \<noteq> 0 \<and> dim_z (kmu_grid_dim k) \<noteq> 0)"

text \<open>The two halves of \<open>step\<close>: the request it fills in and how it advances.\<close>

definition kmu_request :: "kmu \<Rightarrow> kmu_req_t" where
  "kmu_request k =
     \<lparr>req_PC = kmu_PC k, req_entry = kmu_entry k, req_param = kmu_param k, req_cta_id = kmu_cta_id k,
      req_block_idx = dim3_of (dim_x (group_origin k) + dim_x (intra_offset k))
        (dim_y (group_origin k) + dim_y (intra_offset k)) (dim_z (group_origin k) + dim_z (intra_offset k)),
      req_block_dim = kmu_block_dim k, req_grid_dim = kmu_grid_dim k, req_lmem_size = kmu_lmem_size k,
      req_block_size = kmu_block_size k, req_warp_step = kmu_warp_step k, req_cluster_dim = kmu_cluster_dim k,
      is_first_of_cluster = (dim_x (intra_offset k) = 0 \<and> dim_y (intra_offset k) = 0 \<and> dim_z (intra_offset k) = 0)\<rparr>"

definition advance_origin :: "kmu \<Rightarrow> kmu" where
  "advance_origin k =
     (let o3 = group_origin k; c = kmu_cluster_dim k; g = kmu_grid_dim k; ox = dim_x o3 + dim_x c in
      if ox = dim_x g then
        (let o3 = o3\<lparr>dim_x := 0\<rparr>; oy = dim_y o3 + dim_y c in
         if oy = dim_y g then
           (let o3 = o3\<lparr>dim_y := 0\<rparr>; oz = dim_z o3 + dim_z c in
            if oz = dim_z g then k\<lparr>group_origin := o3\<lparr>dim_z := 0\<rparr>, kmu_running := False\<rparr>
            else k\<lparr>group_origin := o3\<lparr>dim_z := oz\<rparr>\<rparr>)
         else k\<lparr>group_origin := o3\<lparr>dim_y := oy\<rparr>\<rparr>)
      else k\<lparr>group_origin := o3\<lparr>dim_x := ox\<rparr>\<rparr>)"

definition kmu_advance :: "kmu \<Rightarrow> kmu" where
  "kmu_advance k =
     (let k = k\<lparr>kmu_cta_id := kmu_cta_id k + 1\<rparr>; i3 = intra_offset k; c = kmu_cluster_dim k in
      if dim_x i3 + 1 \<noteq> dim_x c then k\<lparr>intra_offset := i3\<lparr>dim_x := dim_x i3 + 1\<rparr>\<rparr>
      else
        (let i3 = i3\<lparr>dim_x := 0\<rparr> in
         if dim_y i3 + 1 \<noteq> dim_y c then k\<lparr>intra_offset := i3\<lparr>dim_y := dim_y i3 + 1\<rparr>\<rparr>
         else
           (let i3 = i3\<lparr>dim_y := 0\<rparr> in
            if dim_z i3 + 1 \<noteq> dim_z c then k\<lparr>intra_offset := i3\<lparr>dim_z := dim_z i3 + 1\<rparr>\<rparr>
            else advance_origin (k\<lparr>intra_offset := i3\<lparr>dim_z := 0\<rparr>\<rparr>))))"

definition kmu_step :: "kmu \<Rightarrow> kmu_req_t option \<times> kmu" where
  "kmu_step k = (if \<not> kmu_running k then (None, k) else (Some (kmu_request k), kmu_advance k))"

text \<open>Up to \<open>n\<close> steps, as long as they deliver.\<close>

fun kmu_drain :: "nat \<Rightarrow> kmu \<Rightarrow> kmu_req_t list \<times> kmu" where
  "kmu_drain 0 k = ([], k)"
| "kmu_drain (Suc n) k =
     (case kmu_step k of
        (None, k) \<Rightarrow> ([], k)
      | (Some r, k) \<Rightarrow> (let (rs, k) = kmu_drain n k in (r # rs, k)))"
end
