(* ===== verification/Cta_Dispatcher.thy ===== *)
theory Cta_Dispatcher
  imports Kmu
begin

text \<open>
  The CTA dispatcher of a core, \<open>CtaDispatcher\<close> of \<open>sim/simx/cta_dispatcher.{h,cpp}\<close>: it takes one
  CTA at a time from the kernel management unit, gives it a slot of the local memory, and hands
  its warps to free warp slots of the core, one per step.

  The build configuration is a record. Addresses and program counters are 64 bits wide, as in
  the 64-bit build. An index outside a \<open>std::vector\<close> and a failed \<open>assert\<close> are \<^const>\<open>None\<close>.
\<close>

record vx_cfg =
  num_threads :: u32
  num_warps :: u32
  num_barriers :: u32
  num_cores :: u32
  num_clusters :: u32
  lmem_base :: u64
  lmem_capacity :: u32
  mem_block_size :: u32

record cta_warp_record_t =
  rec_do_init :: bool
  rec_PC :: u64
  rec_entry :: u64
  rec_tmask :: "bool list"
  rec_mscratch :: u64
  rec_cta_id :: u32
  rec_cta_rank :: u32
  rec_cta_size :: u32
  rec_thread_idx :: dim3
  rec_block_idx :: dim3
  rec_block_dim :: dim3
  rec_grid_dim :: dim3
  rec_param :: u64
  rec_lmem_addr :: u64
  rec_cluster_size :: u32

record cta_dispatcher =
  slot_rem_warps :: "u32 list"
  wid_to_slot :: "u32 list"
  tail_slot :: u32
  has_cta :: bool
  cur_slot :: u32
  cta :: kmu_req_t
  cta_size :: u32
  rank :: u32
  block_size_rem :: u32
  thread_idx :: dim3
  lmem_addr :: u64
  has_pending :: bool
  pending_cta :: kmu_req_t
  cur_kernel_pc :: u64
  warp_init_mask :: "bool list"

definition cta_req0 :: kmu_req_t where
  "cta_req0 = \<lparr>req_PC = 0, req_entry = 0, req_param = 0, req_cta_id = 0, req_block_idx = dim3_of 0 0 0,
     req_block_dim = dim3_of 0 0 0, req_grid_dim = dim3_of 0 0 0, req_lmem_size = 0, req_block_size = 0,
     req_warp_step = dim3_of 0 0 0, req_cluster_dim = dim3_of 0 0 0, is_first_of_cluster = False\<rparr>"

definition cta_dispatcher_new :: "vx_cfg \<Rightarrow> cta_dispatcher" where
  "cta_dispatcher_new c =
     \<lparr>slot_rem_warps = replicate (unat (num_warps c)) 0, wid_to_slot = replicate (unat (num_warps c)) (num_warps c),
      tail_slot = 0, has_cta = False, cur_slot = 0, cta = cta_req0, cta_size = 0, rank = 0, block_size_rem = 0,
      thread_idx = dim3_of 0 0 0, lmem_addr = 0, has_pending = False, pending_cta = cta_req0, cur_kernel_pc = 0,
      warp_init_mask = replicate (unat (num_warps c)) False\<rparr>"

definition cta_on_reset :: "vx_cfg \<Rightarrow> cta_dispatcher \<Rightarrow> cta_dispatcher" where
  "cta_on_reset c D = D\<lparr>has_cta := False, has_pending := False, tail_slot := 0,
     slot_rem_warps := replicate (unat (num_warps c)) 0,
     wid_to_slot := replicate (unat (num_warps c)) (num_warps c),
     warp_init_mask := replicate (unat (num_warps c)) False, cur_kernel_pc := 0\<rparr>"

definition usable_slots :: "vx_cfg \<Rightarrow> u32 \<Rightarrow> u32" where
  "usable_slots c stride =
     (if stride = 0 then num_warps c
      else let fit = lmem_capacity c div stride;
               fit = (if fit > num_warps c then num_warps c else fit)
           in if fit = 0 then 1 else fit)"

text \<open>The next warp of the current CTA.\<close>

definition cta_warp_mask :: "vx_cfg \<Rightarrow> cta_dispatcher \<Rightarrow> bool list" where
  "cta_warp_mask c D =
     (let active = (if block_size_rem D \<ge> num_threads c then num_threads c else block_size_rem D)
      in map (\<lambda>t. t < unat active) [0 ..< unat (num_threads c)])"

definition advance_thread_idx :: "dim3 \<Rightarrow> dim3 \<Rightarrow> dim3 \<Rightarrow> dim3" where
  "advance_thread_idx t step b =
     (let next_x = dim_x t + dim_x step;
          wrap_x = next_x \<ge> dim_x b;
          x = (if wrap_x then next_x - dim_x b else next_x);
          next_y = dim_y t + dim_y step + (if wrap_x then 1 else 0);
          wrap_y = next_y \<ge> dim_y b;
          y = (if wrap_y then next_y - dim_y b else next_y);
          z = dim_z t + dim_z step + (if wrap_y then 1 else 0)
      in dim3_of x y z)"

definition next_warp :: "vx_cfg \<Rightarrow> cta_dispatcher \<Rightarrow> bool \<Rightarrow> (cta_warp_record_t \<times> cta_dispatcher) option" where
  "next_warp c D do_init =
     (if \<not> has_cta D then None
      else
        let q = cta D;
            out = \<lparr>rec_do_init = do_init, rec_PC = req_PC q, rec_entry = req_entry q, rec_tmask = cta_warp_mask c D,
                   rec_mscratch = req_param q, rec_cta_id = cur_slot D, rec_cta_rank = rank D,
                   rec_cta_size = cta_size D, rec_thread_idx = thread_idx D, rec_block_idx = req_block_idx q,
                   rec_block_dim = req_block_dim q, rec_grid_dim = req_grid_dim q, rec_param = req_param q,
                   rec_lmem_addr = lmem_addr D,
                   rec_cluster_size = dim_x (req_cluster_dim q) * dim_y (req_cluster_dim q) * dim_z (req_cluster_dim q)\<rparr>;
            D = D\<lparr>thread_idx := advance_thread_idx (thread_idx D) (req_warp_step q) (req_block_dim q),
                  block_size_rem := block_size_rem D -
                    (if block_size_rem D \<ge> num_threads c then num_threads c else block_size_rem D),
                  rank := rank D + 1\<rparr>
        in Some (out, if rank D \<ge> cta_size D then D\<lparr>has_cta := False\<rparr> else D))"

text \<open>
  Admission of the pending CTA: the slot it takes, or none when it has to wait. The first CTA of a
  cluster asks for as many consecutive free slots as the cluster has members.
\<close>

definition cta_stride :: "vx_cfg \<Rightarrow> kmu_req_t \<Rightarrow> u32" where
  "cta_stride c q = (req_lmem_size q + mem_block_size c - 1) AND NOT (mem_block_size c - 1)"

fun window_free :: "u32 list \<Rightarrow> u32 \<Rightarrow> nat \<Rightarrow> bool option" where
  "window_free v base 0 = Some True"
| "window_free v base (Suc n) = do {
     r \<leftarrow> vat v base;
     if r \<noteq> 0 then Some False else window_free v (base + 1) n }"

definition admit_slot :: "vx_cfg \<Rightarrow> cta_dispatcher \<Rightarrow> u32 \<Rightarrow> u32 \<Rightarrow> u32 option option" where
  "admit_slot c D max_slots base =
     (let q = pending_cta D in
      if is_first_of_cluster q then
        (let k = dim_x (req_cluster_dim q) * dim_y (req_cluster_dim q) * dim_z (req_cluster_dim q);
             k = (if k = 0 then 1 else k);
             base = (if base + k > max_slots then 0 else base);
             k = (if k > max_slots then max_slots else k)
         in do { free \<leftarrow> window_free (slot_rem_warps D) base (unat k); Some (if free then Some base else None) })
      else do { r \<leftarrow> vat (slot_rem_warps D) base; Some (if r \<noteq> 0 then None else Some base) })"

definition accept_cta :: "vx_cfg \<Rightarrow> cta_dispatcher \<Rightarrow> u32 \<Rightarrow> u32 \<Rightarrow> u32 \<Rightarrow> cta_dispatcher option" where
  "accept_cta c D stride max_slots base =
     (let q = pending_cta D;
          D = (if req_PC q \<noteq> cur_kernel_pc D
               then D\<lparr>cur_kernel_pc := req_PC q, warp_init_mask := replicate (unat (num_warps c)) False\<rparr> else D);
          sz = (req_block_size q + num_threads c - 1) div num_threads c
      in do {
        check (num_threads c \<noteq> 0);
        rem \<leftarrow> vset (slot_rem_warps D) base sz;
        check (max_slots \<noteq> 0);
        Some (D\<lparr>cta := q, has_pending := False, cta_size := sz, rank := 0, block_size_rem := req_block_size q,
                thread_idx := dim3_of 0 0 0, cur_slot := base, lmem_addr := lmem_base c + ucast base * ucast stride,
                slot_rem_warps := rem, tail_slot := (base + 1) mod max_slots, has_cta := True\<rparr>) })"

text \<open>Load the next CTA; the flag says whether one is now being dispatched.\<close>

definition load_cta :: "vx_cfg \<Rightarrow> cta_dispatcher \<Rightarrow> kmu \<Rightarrow> (bool \<times> cta_dispatcher \<times> kmu) option" where
  "load_cta c D k =
     (case (if has_pending D then (Some (pending_cta D), k) else kmu_step k) of
        (None, k) \<Rightarrow> Some (False, D, k)
      | (Some q, k) \<Rightarrow>
          let D = D\<lparr>pending_cta := q, has_pending := True\<rparr>;
              stride = cta_stride c q;
              max_slots = usable_slots c stride;
              D = (if tail_slot D \<ge> max_slots then D\<lparr>tail_slot := 0\<rparr> else D)
          in do {
            s \<leftarrow> admit_slot c D max_slots (tail_slot D);
            (case s of
               None \<Rightarrow> Some (False, D, k)
             | Some base \<Rightarrow> do { D \<leftarrow> accept_cta c D stride max_slots base; Some (True, D, k) }) })"

definition free_warp :: "vx_cfg \<Rightarrow> (nat \<Rightarrow> bool) \<Rightarrow> nat option" where
  "free_warp c active = List.find (\<lambda>w. \<not> active w) [0 ..< unat (num_warps c)]"

definition cta_step :: "vx_cfg \<Rightarrow> cta_dispatcher \<Rightarrow> kmu \<Rightarrow> (nat \<Rightarrow> bool) \<Rightarrow>
    ((nat \<times> cta_warp_record_t) option \<times> cta_dispatcher \<times> kmu) option" where
  "cta_step c D k active = do {
     (ok, D, k) \<leftarrow> (if has_cta D then Some (True, D, k) else load_cta c D k);
     if \<not> ok then Some (None, D, k)
     else
       (case free_warp c active of
          None \<Rightarrow> Some (None, D, k)
        | Some w \<Rightarrow> do {
            i \<leftarrow> vat (warp_init_mask D) (of_nat w);
            (case next_warp c D (\<not> i) of
               None \<Rightarrow> Some (None, D, k)
             | Some (out, D) \<Rightarrow> do {
                 m \<leftarrow> vset (warp_init_mask D) (of_nat w) True;
                 s \<leftarrow> vset (wid_to_slot D) (of_nat w) (cur_slot D);
                 Some (Some (w, out), D\<lparr>warp_init_mask := m, wid_to_slot := s\<rparr>, k) }) }) }"

definition warp_done :: "vx_cfg \<Rightarrow> cta_dispatcher \<Rightarrow> u32 \<Rightarrow> cta_dispatcher option" where
  "warp_done c D wid = do {
     slot \<leftarrow> vat (wid_to_slot D) wid;
     if slot \<ge> num_warps c then Some D
     else do {
       s \<leftarrow> vset (wid_to_slot D) wid (num_warps c);
       r \<leftarrow> vat (slot_rem_warps D) slot;
       check (r > 0);
       v \<leftarrow> vset (slot_rem_warps D) slot (r - 1);
       Some (D\<lparr>wid_to_slot := s, slot_rem_warps := v\<rparr>) } }"

definition cta_running :: "cta_dispatcher \<Rightarrow> kmu \<Rightarrow> bool" where
  "cta_running D k \<longleftrightarrow> has_cta D \<or> has_pending D \<or> kmu_running k"
end
