(* ===== verification/Scheduler.thy ===== *)
theory Scheduler
  imports Cta_Dispatcher
begin

text \<open>
  The warp scheduler of a core, \<open>Scheduler\<close> of \<open>sim/simx/scheduler.{h,cpp}\<close>: the state of the warps,
  their activation by the CTA dispatcher, by \<open>wspawn\<close> and by the fragment distributor, the choice
  of the warp to fetch for, thread masks and traps.

  Warps are named by natural numbers. A \<open>ThreadMask\<close> is a list of bits, one per thread; a
  \<open>WarpMask\<close>, a \<open>std::bitset\<close>, is a list of \<open>MAX_NUM_WARPS\<close> bits. Traces lifted from the scoreboard
  are known by a number. The model is that of a 64-bit debug build with the raster extension.
\<close>

definition MAX_NUM_WARPS :: nat where "MAX_NUM_WARPS = 64"

definition mcount :: "bool list \<Rightarrow> nat" where
  "mcount m = length (filter id m)"

definition many :: "bool list \<Rightarrow> bool" where
  "many m \<longleftrightarrow> True \<in> set m"

record ipdom_entry_t =
  orig_tmask :: "bool list"
  else_PC :: u64
  fallthrough :: bool

definition ipdom_entry_new :: "bool list \<Rightarrow> u64 \<Rightarrow> ipdom_entry_t" where
  "ipdom_entry_new tmask pc = \<lparr>orig_tmask = tmask, else_PC = pc, fallthrough = False\<rparr>"

record cta_csrs_t =
  cc_cta_id :: u32
  cc_cta_rank :: u32
  cc_cta_size :: u32
  cc_thread_idx :: dim3
  cc_block_idx :: dim3
  cc_block_dim :: dim3
  cc_grid_dim :: dim3
  cc_entry :: u64
  cc_lmem_addr :: u64
  cc_cluster_size :: u32

definition cta_csrs_new :: cta_csrs_t where
  "cta_csrs_new = \<lparr>cc_cta_id = 0, cc_cta_rank = 0, cc_cta_size = 0, cc_thread_idx = dim3_of 0 0 0,
     cc_block_idx = dim3_of 0 0 0, cc_block_dim = dim3_of 1 1 1, cc_grid_dim = dim3_of 1 1 1, cc_entry = 0,
     cc_lmem_addr = 0, cc_cluster_size = 1\<rparr>"

record frag_payload_t =
  frag_pos :: u32
  frag_pid :: u32

record warp_t =
  ipdom_stack :: "ipdom_entry_t list"
  tmask :: "bool list"
  wPC :: u64
  fcsr :: u8
  uuid :: u32
  mscratch :: u64
  mstatus :: u64
  mtvec :: u64
  mepc :: u64
  mcause :: u64
  mtval :: u64
  mscratch_tmask :: "bool list"
  cta_csrs :: cta_csrs_t
  frag :: "frag_payload_t list"

text \<open>The constructor leaves \<open>fcsr\<close> and the fragment stamps as they are in memory.\<close>

definition warp_new :: "u8 \<Rightarrow> frag_payload_t list \<Rightarrow> nat \<Rightarrow> warp_t" where
  "warp_new f fr nt = \<lparr>ipdom_stack = [], tmask = replicate nt False, wPC = 0, fcsr = f, uuid = 0, mscratch = 0,
     mstatus = 0, mtvec = 0, mepc = 0, mcause = 0, mtval = 0, mscratch_tmask = replicate nt False,
     cta_csrs = cta_csrs_new, frag = fr\<rparr>"

definition warp_reset :: "warp_t \<Rightarrow> warp_t" where
  "warp_reset w = w\<lparr>tmask := replicate (length (tmask w)) False, wPC := 0, uuid := 0, fcsr := 0, mstatus := 0,
     mtvec := 0, mepc := 0, mcause := 0, mtval := 0, mscratch_tmask := replicate (length (mscratch_tmask w)) False,
     frag := replicate (length (frag w)) \<lparr>frag_pos = 0, frag_pid = 0\<rparr>\<rparr>"

record fwd_wave =
  wave_tmask :: "bool list"
  wave_payload :: "frag_payload_t list"

record sched =
  cta_disp :: cta_dispatcher
  warps :: "warp_t list"
  active_warps :: "bool list"
  stalled_warps :: "bool list"
  stalled_warps_next :: "bool list"
  in_async_trap :: "bool list"
  trap_epoch :: "u32 list"
  last_mret_cycle :: "u64 list"
  async_trap_snapshot :: "nat list list"
  wspawn_valid :: bool
  wspawn_num_warps :: u32
  wspawn_nextPC :: u64
  fwd_armed :: bool
  fwd_drained :: bool
  fwd_frag_entry :: u64
  fwd_frag_param :: u64
  fwd_launched :: u64
  fwd_retired :: u64
  fwd_reqs_outstanding :: u32
  fwd_waves :: "fwd_wave list"
  fwd_is_fragment :: "bool list"

definition ipdom_size :: "vx_cfg \<Rightarrow> u32" where
  "ipdom_size c = num_threads c - 1"

definition sched_new :: "vx_cfg \<Rightarrow> warp_t \<Rightarrow> u32 \<Rightarrow> u64 \<Rightarrow> sched" where
  "sched_new c w n pc = (let nw = unat (num_warps c) in
     \<lparr>cta_disp = cta_dispatcher_new c, warps = replicate nw w, active_warps = replicate MAX_NUM_WARPS False,
      stalled_warps = replicate MAX_NUM_WARPS False, stalled_warps_next = replicate MAX_NUM_WARPS False,
      in_async_trap = replicate nw False, trap_epoch = replicate nw 0, last_mret_cycle = replicate nw 0,
      async_trap_snapshot = replicate nw [], wspawn_valid = False, wspawn_num_warps = n, wspawn_nextPC = pc,
      fwd_armed = False, fwd_drained = False, fwd_frag_entry = 0, fwd_frag_param = 0, fwd_launched = 0,
      fwd_retired = 0, fwd_reqs_outstanding = 0, fwd_waves = [], fwd_is_fragment = replicate nw False\<rparr>)"

text \<open>A reset of the platform also resets the dispatcher, a child of the scheduler.\<close>

definition sched_on_reset :: "vx_cfg \<Rightarrow> sched \<Rightarrow> sched" where
  "sched_on_reset c S =
     S\<lparr>warps := map warp_reset (warps S), stalled_warps := replicate MAX_NUM_WARPS False,
       stalled_warps_next := replicate MAX_NUM_WARPS False, active_warps := replicate MAX_NUM_WARPS False,
       in_async_trap := map (\<lambda>_. False) (in_async_trap S), trap_epoch := map (\<lambda>_. 0) (trap_epoch S),
       wspawn_valid := False, fwd_armed := False, fwd_drained := False, fwd_launched := 0, fwd_retired := 0,
       fwd_reqs_outstanding := 0, fwd_waves := [], fwd_is_fragment := map (\<lambda>_. False) (fwd_is_fragment S),
       cta_disp := cta_on_reset c (cta_disp S)\<rparr>"

definition cta_csrs_of :: "cta_warp_record_t \<Rightarrow> cta_csrs_t" where
  "cta_csrs_of r =
     \<lparr>cc_cta_id = rec_cta_id r, cc_cta_rank = rec_cta_rank r, cc_cta_size = rec_cta_size r,
      cc_thread_idx = rec_thread_idx r, cc_block_idx = rec_block_idx r, cc_block_dim = rec_block_dim r,
      cc_grid_dim = rec_grid_dim r, cc_entry = rec_entry r, cc_lmem_addr = rec_lmem_addr r,
      cc_cluster_size = rec_cluster_size r\<rparr>"

definition activate_warp :: "sched \<Rightarrow> nat \<Rightarrow> cta_warp_record_t \<Rightarrow> sched option" where
  "activate_warp S wid r = do {
     w \<leftarrow> lat (warps S) wid;
     let w = w\<lparr>wPC := (if rec_do_init r then rec_PC r else wPC w - 20), tmask := rec_tmask r,
       mscratch := rec_mscratch r, cta_csrs := cta_csrs_of r, ipdom_stack := []\<rparr>;
     ws \<leftarrow> lset (warps S) wid w;
     a \<leftarrow> lset (active_warps S) wid True;
     s \<leftarrow> lset (stalled_warps S) wid False;
     n \<leftarrow> lset (stalled_warps_next S) wid False;
     Some (S\<lparr>warps := ws, active_warps := a, stalled_warps := s, stalled_warps_next := n\<rparr>) }"

definition suspend :: "sched \<Rightarrow> nat \<Rightarrow> sched option" where
  "suspend S wid = do {
     a \<leftarrow> lat (active_warps S) wid;
     check a;
     s \<leftarrow> lat (stalled_warps_next S) wid;
     check (\<not> s);
     n \<leftarrow> lset (stalled_warps_next S) wid True;
     Some (S\<lparr>stalled_warps_next := n\<rparr>) }"

definition resume :: "sched \<Rightarrow> nat \<Rightarrow> sched option" where
  "resume S wid = do {
     a \<leftarrow> lat (active_warps S) wid;
     check a;
     s \<leftarrow> lat (stalled_warps_next S) wid;
     check s;
     n \<leftarrow> lset (stalled_warps_next S) wid False;
     Some (S\<lparr>stalled_warps_next := n\<rparr>) }"

text \<open>The fragment distributor: ready waves go to free warps.\<close>

definition kFwdPayloadStride :: "vx_cfg \<Rightarrow> u32" where
  "kFwdPayloadStride c = num_threads c * 8"

definition fwd_record :: "vx_cfg \<Rightarrow> sched \<Rightarrow> u64 \<Rightarrow> nat \<Rightarrow> fwd_wave \<Rightarrow> cta_warp_record_t" where
  "fwd_record c S startup_pc wid wave =
     \<lparr>rec_do_init = True, rec_PC = startup_pc, rec_entry = fwd_frag_entry S, rec_tmask = wave_tmask wave,
      rec_mscratch = fwd_frag_param S, rec_cta_id = 0, rec_cta_rank = 0, rec_cta_size = 1,
      rec_thread_idx = dim3_of 0 0 0, rec_block_idx = dim3_of (of_nat wid) 0 0,
      rec_block_dim = dim3_of (num_threads c) 1 1, rec_grid_dim = dim3_of 1 1 1, rec_param = fwd_frag_param S,
      rec_lmem_addr = lmem_base c + of_nat wid * ucast (kFwdPayloadStride c), rec_cluster_size = 1\<rparr>"

fun fwd_try_inject :: "vx_cfg \<Rightarrow> u64 \<Rightarrow> fwd_wave list \<Rightarrow> sched \<Rightarrow> sched option" where
  "fwd_try_inject c startup_pc [] S = Some (S\<lparr>fwd_waves := []\<rparr>)"
| "fwd_try_inject c startup_pc (wave # waves) S =
     (case free_warp c (\<lambda>w. active_warps S ! w) of
        None \<Rightarrow> Some (S\<lparr>fwd_waves := wave # waves\<rparr>)
      | Some wid \<Rightarrow> do {
          S \<leftarrow> activate_warp S wid (fwd_record c S startup_pc wid wave);
          w \<leftarrow> lat (warps S) wid;
          ws \<leftarrow> lset (warps S) wid (w\<lparr>frag := wave_payload wave\<rparr>);
          f \<leftarrow> lset (fwd_is_fragment S) wid True;
          fwd_try_inject c startup_pc waves
            (S\<lparr>warps := ws, fwd_is_fragment := f, fwd_launched := fwd_launched S + 1\<rparr>) })"

text \<open>A pending \<open>wspawn\<close> takes effect once a single warp is active.\<close>

fun spawn_warps :: "u64 \<Rightarrow> u64 \<Rightarrow> nat list \<Rightarrow> sched \<Rightarrow> sched option" where
  "spawn_warps pc ms [] S = Some S"
| "spawn_warps pc ms (i # is) S = do {
     w \<leftarrow> lat (warps S) i;
     tm \<leftarrow> lset (tmask w) 0 True;
     ws \<leftarrow> lset (warps S) i (w\<lparr>wPC := pc, tmask := tm, mscratch := ms\<rparr>);
     a \<leftarrow> lset (active_warps S) i True;
     s \<leftarrow> lset (stalled_warps S) i False;
     n \<leftarrow> lset (stalled_warps_next S) i False;
     spawn_warps pc ms is (S\<lparr>warps := ws, active_warps := a, stalled_warps := s, stalled_warps_next := n\<rparr>) }"

definition process_wspawn :: "sched \<Rightarrow> sched option" where
  "process_wspawn S =
     (if wspawn_valid S \<and> mcount (active_warps S) = 1 then do {
        w0 \<leftarrow> lat (warps S) 0;
        S \<leftarrow> spawn_warps (wspawn_nextPC S) (mscratch w0) [1 ..< unat (wspawn_num_warps S)] S;
        resume (S\<lparr>wspawn_valid := False\<rparr>) 0 }
      else Some S)"

definition pick_warp :: "vx_cfg \<Rightarrow> sched \<Rightarrow> bool list \<Rightarrow> nat option" where
  "pick_warp c S warp_mask =
     List.find (\<lambda>w. active_warps S ! w \<and> \<not> stalled_warps S ! w \<and> warp_mask ! w) [0 ..< unat (num_warps c)]"

record trace_hdr =
  tr_uuid :: u64
  tr_cid :: u32
  tr_wid :: nat
  tr_cta_id :: u32
  tr_PC :: u64
  tr_tmask :: "bool list"
  tr_trap_epoch :: u32

definition fetch_warp :: "vx_cfg \<Rightarrow> u32 \<Rightarrow> sched \<Rightarrow> nat \<Rightarrow> (trace_hdr \<times> sched) option" where
  "fetch_warp c cid S wid = do {
     w \<leftarrow> lat (warps S) wid;
     check (many (tmask w));
     let g_wid = cid * num_warps c + of_nat wid;
     let id = push_bit 32 (ucast g_wid) OR ucast (uuid w);
     ws \<leftarrow> lset (warps S) wid (w\<lparr>uuid := uuid w + 1\<rparr>);
     e \<leftarrow> lat (trap_epoch S) wid;
     S \<leftarrow> suspend (S\<lparr>warps := ws\<rparr>) wid;
     Some (\<lparr>tr_uuid = id, tr_cid = cid, tr_wid = wid, tr_cta_id = cc_cta_id (cta_csrs w), tr_PC = wPC w,
            tr_tmask = tmask w, tr_trap_epoch = e\<rparr>, S) }"

definition dispatch_cta :: "vx_cfg \<Rightarrow> sched \<Rightarrow> kmu \<Rightarrow> (sched \<times> kmu) option" where
  "dispatch_cta c S k = do {
     (r, D, k) \<leftarrow> cta_step c (cta_disp S) k (\<lambda>w. active_warps S ! w);
     S \<leftarrow> (case r of None \<Rightarrow> Some (S\<lparr>cta_disp := D\<rparr>) | Some (wid, rc) \<Rightarrow> activate_warp (S\<lparr>cta_disp := D\<rparr>) wid rc);
     Some (S, k) }"

definition schedule :: "vx_cfg \<Rightarrow> u32 \<Rightarrow> sched \<Rightarrow> kmu \<Rightarrow> bool list \<Rightarrow> (trace_hdr option \<times> sched \<times> kmu) option" where
  "schedule c cid S k warp_mask = do {
     (S, k) \<leftarrow> dispatch_cta c S k;
     S \<leftarrow> (if fwd_armed S then fwd_try_inject c (kmu_PC k) (fwd_waves S) S else Some S);
     S \<leftarrow> process_wspawn S;
     (t, S) \<leftarrow> (case pick_warp c S warp_mask of
        None \<Rightarrow> Some (None, S)
      | Some wid \<Rightarrow> do { (t, S) \<leftarrow> fetch_warp c cid S wid; Some (Some t, S) });
     Some (t, S\<lparr>stalled_warps := stalled_warps_next S\<rparr>, k) }"

definition sched_running :: "sched \<Rightarrow> kmu \<Rightarrow> bool" where
  "sched_running S k \<longleftrightarrow> many (active_warps S) \<or> cta_running (cta_disp S) k \<or> fwd_armed S"

definition advance_pc :: "sched \<Rightarrow> trace_hdr \<Rightarrow> u32 \<Rightarrow> sched option" where
  "advance_pc S t inc = do {
     e \<leftarrow> lat (trap_epoch S) (tr_wid t);
     if tr_trap_epoch t \<noteq> e then Some S
     else do {
       w \<leftarrow> lat (warps S) (tr_wid t);
       ws \<leftarrow> lset (warps S) (tr_wid t) (w\<lparr>wPC := wPC w + ucast inc\<rparr>);
       Some (S\<lparr>warps := ws\<rparr>) } }"

definition setTmask :: "vx_cfg \<Rightarrow> sched \<Rightarrow> nat \<Rightarrow> bool list \<Rightarrow> (bool \<times> sched) option" where
  "setTmask c S wid tm = do {
     w \<leftarrow> lat (warps S) wid;
     ws \<leftarrow> lset (warps S) wid (w\<lparr>tmask := tm\<rparr>);
     let S = S\<lparr>warps := ws\<rparr>;
     if \<not> many tm then do {
       a \<leftarrow> lset (active_warps S) wid False;
       fr \<leftarrow> lat (fwd_is_fragment S) wid;
       let S = (if fr then S\<lparr>fwd_is_fragment := (fwd_is_fragment S)[wid := False], fwd_retired := fwd_retired S + 1\<rparr> else S);
       D \<leftarrow> warp_done c (cta_disp S) (of_nat wid);
       Some (False, S\<lparr>active_warps := a, cta_disp := D\<rparr>) }
     else Some (True, S) }"

definition wspawn :: "vx_cfg \<Rightarrow> sched \<Rightarrow> u32 \<Rightarrow> u64 \<Rightarrow> bool \<times> sched" where
  "wspawn c S n nextPC =
     (let n = min n (num_warps c) in
      if n < 2 \<and> mcount (active_warps S) = 1 then (True, S)
      else (False, S\<lparr>wspawn_valid := True, wspawn_num_warps := n, wspawn_nextPC := nextPC\<rparr>))"

text \<open>Traps.\<close>

definition TRAP_CAUSE_BREAKPOINT :: u64 where "TRAP_CAUSE_BREAKPOINT = 3"
definition TRAP_CAUSE_ECALL_MMODE :: u64 where "TRAP_CAUSE_ECALL_MMODE = 11"

definition raise_trap :: "sched \<Rightarrow> nat \<Rightarrow> u64 \<Rightarrow> u64 \<Rightarrow> sched option" where
  "raise_trap S wid cause trap_pc = do {
     w \<leftarrow> lat (warps S) wid;
     ws \<leftarrow> lset (warps S) wid (w\<lparr>mepc := trap_pc, mcause := cause, mtval := 0, mscratch_tmask := tmask w,
       wPC := mtvec w AND NOT 3\<rparr>);
     Some (S\<lparr>warps := ws\<rparr>) }"

text \<open>
  \<open>flushed\<close> is the program counter that flushing the pipeline of the warp returns, 0 if nothing was
  flushed, and \<open>snap\<close> the traces that are lifted from the scoreboard.
\<close>

definition raise_async_trap :: "sched \<Rightarrow> nat \<Rightarrow> u64 \<Rightarrow> u64 \<Rightarrow> bool list \<Rightarrow> u64 \<Rightarrow> nat list \<Rightarrow> sched option" where
  "raise_async_trap S wid cause trap_pc new_tmask flushed snap = do {
     let resume_pc = (if flushed = 0 then trap_pc else flushed);
     S \<leftarrow> raise_trap S wid cause resume_pc;
     w \<leftarrow> lat (warps S) wid;
     ws \<leftarrow> lset (warps S) wid (w\<lparr>tmask := new_tmask\<rparr>);
     t \<leftarrow> lset (in_async_trap S) wid True;
     let S = S\<lparr>warps := ws, in_async_trap := t\<rparr>;
     st \<leftarrow> lat (stalled_warps_next S) wid;
     S \<leftarrow> (if st then resume S wid else Some S);
     sn \<leftarrow> lset (async_trap_snapshot S) wid snap;
     e \<leftarrow> lat (trap_epoch S) wid;
     es \<leftarrow> lset (trap_epoch S) wid (e + 1);
     Some (S\<lparr>async_trap_snapshot := sn, trap_epoch := es\<rparr>) }"

text \<open>The list returned is what the scoreboard gets back.\<close>

definition mret :: "sched \<Rightarrow> nat \<Rightarrow> u64 \<Rightarrow> (nat list \<times> sched) option" where
  "mret S wid cycle = do {
     w \<leftarrow> lat (warps S) wid;
     let w = w\<lparr>wPC := mepc w\<rparr>;
     let w = (if many (mscratch_tmask w) then w\<lparr>tmask := mscratch_tmask w\<rparr> else w);
     ws \<leftarrow> lset (warps S) wid w;
     snap \<leftarrow> lat (async_trap_snapshot S) wid;
     sn \<leftarrow> lset (async_trap_snapshot S) wid [];
     t \<leftarrow> lset (in_async_trap S) wid False;
     l \<leftarrow> lset (last_mret_cycle S) wid cycle;
     Some (snap, S\<lparr>warps := ws, async_trap_snapshot := sn, in_async_trap := t, last_mret_cycle := l\<rparr>) }"

definition trigger_ecall :: "sched \<Rightarrow> nat \<Rightarrow> u64 \<Rightarrow> sched option" where
  "trigger_ecall S wid trap_pc = raise_trap S wid TRAP_CAUSE_ECALL_MMODE trap_pc"

definition trigger_ebreak :: "sched \<Rightarrow> nat \<Rightarrow> u64 \<Rightarrow> sched option" where
  "trigger_ebreak S wid trap_pc = raise_trap S wid TRAP_CAUSE_BREAKPOINT trap_pc"

text \<open>Requests of the fragment distributor.\<close>

definition fwd_arm :: "sched \<Rightarrow> u64 \<Rightarrow> u64 \<Rightarrow> sched" where
  "fwd_arm S entry param = S\<lparr>fwd_armed := True, fwd_drained := False, fwd_frag_entry := entry, fwd_frag_param := param,
     fwd_launched := 0, fwd_retired := 0, fwd_reqs_outstanding := 0\<rparr>"

definition fwd_wave_queue_full :: "vx_cfg \<Rightarrow> sched \<Rightarrow> bool" where
  "fwd_wave_queue_full c S \<longleftrightarrow> length (fwd_waves S) \<ge> unat (num_warps c)"

definition fwd_push_wave :: "sched \<Rightarrow> fwd_wave \<Rightarrow> sched" where
  "fwd_push_wave S wave = S\<lparr>fwd_waves := fwd_waves S @ [wave]\<rparr>"

definition fwd_mark_drained :: "sched \<Rightarrow> sched" where
  "fwd_mark_drained S = S\<lparr>fwd_drained := True\<rparr>"

definition fwd_can_request :: "vx_cfg \<Rightarrow> sched \<Rightarrow> bool" where
  "fwd_can_request c S \<longleftrightarrow> \<not> fwd_drained S \<and> length (fwd_waves S) + unat (fwd_reqs_outstanding S) < unat (num_warps c)"

definition fwd_on_request :: "sched \<Rightarrow> sched" where
  "fwd_on_request S = S\<lparr>fwd_reqs_outstanding := fwd_reqs_outstanding S + 1\<rparr>"

definition fwd_on_response :: "sched \<Rightarrow> sched" where
  "fwd_on_response S = (if fwd_reqs_outstanding S \<noteq> 0 then S\<lparr>fwd_reqs_outstanding := fwd_reqs_outstanding S - 1\<rparr> else S)"

definition fwd_done :: "sched \<Rightarrow> bool" where
  "fwd_done S \<longleftrightarrow> fwd_armed S \<and> fwd_drained S \<and> fwd_waves S = [] \<and> fwd_reqs_outstanding S = 0 \<and>
     fwd_launched S = fwd_retired S"

definition fwd_disarm :: "sched \<Rightarrow> sched" where
  "fwd_disarm S = S\<lparr>fwd_armed := False\<rparr>"
end
