(* ===== verification/Cta_Dispatcher_Inv.thy ===== *)
theory Cta_Dispatcher_Inv
  imports Cta_Dispatcher
begin

text \<open>
  The slot accounting of the CTA dispatcher: what a slot still counts is the number of warps that
  hold it plus the warps of the current CTA that are not handed out yet, and the threads that remain
  belong to those. Every operation keeps this, and none of them reads outside its tables.
\<close>

subsection \<open>The slot accounting invariant\<close>

lemma count_list_update:
  "i < length xs \<Longrightarrow> count_list (xs[i := y]) x + (if xs ! i = x then 1 else 0) = count_list xs x + (if y = x then 1 else 0)"
proof (induction xs arbitrary: i)
  case (Cons a xs)
  show ?case
  proof (cases i)
    case (Suc j)
    with Cons.IH [of j] Cons.prems show ?thesis by (auto split: if_splits)
  qed simp
qed simp

lemma count_list_pos: "i < length xs \<Longrightarrow> 0 < count_list xs (xs ! i)"
  by (metis count_list_0_iff neq0_conv nth_mem)

lemma count_list_replicate: "count_list (replicate n a) x = (if a = x then n else 0)"
  by (induction n) auto

definition pending_warps :: "cta_dispatcher \<Rightarrow> u32 \<Rightarrow> nat" where
  "pending_warps D s = (if has_cta D \<and> cur_slot D = s then unat (cta_size D) - unat (rank D) else 0)"

definition req_ok :: "vx_cfg \<Rightarrow> kmu_req_t \<Rightarrow> bool" where
  "req_ok c q \<longleftrightarrow> 0 < unat (req_block_size q) \<and> unat (req_block_size q) + unat (num_threads c) < 2 ^ 32 \<and>
     unat (dim_x (req_cluster_dim q) * dim_y (req_cluster_dim q) * dim_z (req_cluster_dim q)) + unat (num_warps c) < 2 ^ 32"

definition warps_of :: "vx_cfg \<Rightarrow> kmu_req_t \<Rightarrow> nat" where
  "warps_of c q = (unat (req_block_size q) + unat (num_threads c) - 1) div unat (num_threads c)"

definition rem_threads :: "vx_cfg \<Rightarrow> cta_dispatcher \<Rightarrow> bool" where
  "rem_threads c D \<longleftrightarrow> unat (cta_size D) = warps_of c (cta D) \<and>
     unat (block_size_rem D) + unat (rank D) * unat (num_threads c) = unat (req_block_size (cta D))"

definition cta_inv :: "vx_cfg \<Rightarrow> cta_dispatcher \<Rightarrow> bool" where
  "cta_inv c D \<longleftrightarrow> 0 < unat (num_warps c) \<and> 2 * unat (num_warps c) < 2 ^ 32 \<and> 0 < unat (num_threads c) \<and>
     length (slot_rem_warps D) = unat (num_warps c) \<and> length (wid_to_slot D) = unat (num_warps c) \<and>
     length (warp_init_mask D) = unat (num_warps c) \<and> tail_slot D < num_warps c \<and>
     (has_cta D \<longrightarrow> cur_slot D < num_warps c \<and> rank D < cta_size D \<and> req_ok c (cta D) \<and> rem_threads c D) \<and>
     (has_pending D \<longrightarrow> req_ok c (pending_cta D)) \<and>
     (\<forall>s < num_warps c. unat (slot_rem_warps D ! unat s) = count_list (wid_to_slot D) s + pending_warps D s)"

definition kmu_ok :: "vx_cfg \<Rightarrow> kmu \<Rightarrow> bool" where
  "kmu_ok c k \<longleftrightarrow> (kmu_running k \<longrightarrow> req_ok c (kmu_request k))"

lemma cta_inv_new:
  assumes "0 < unat (num_warps c)" "2 * unat (num_warps c) < 2 ^ 32" "0 < unat (num_threads c)"
  shows "cta_inv c (cta_dispatcher_new c)"
  using assms by (auto simp: cta_inv_def cta_dispatcher_new_def pending_warps_def word_less_nat_alt count_list_replicate)

lemma kmu_ok_step:
  assumes "kmu_ok c k" "kmu_step k = (Some q, k')"
  shows "req_ok c q" "kmu_ok c k'"
proof -
  have "kmu_running k" "q = kmu_request k" "k' = kmu_advance k" using assms(2) by (auto simp: kmu_step_def split: if_splits)
  with assms(1) show "req_ok c q" "kmu_ok c k'"
    by (simp_all add: kmu_ok_def req_ok_def kmu_request_def kmu_advance_def advance_origin_def Let_def)
qed

lemma usable_slots_bounds:
  assumes "0 < unat (num_warps c)"
  shows "0 < usable_slots c s" "usable_slots c s \<le> num_warps c"
proof -
  show "0 < usable_slots c s"
    using assms by (auto simp: usable_slots_def Let_def word_gt_0 unat_gt_0)
  show "usable_slots c s \<le> num_warps c"
    using assms by (auto simp: usable_slots_def Let_def word_less_nat_alt word_le_nat_alt Suc_le_eq)
qed

lemma window_free_spec:
  assumes "unat base + n \<le> length v" "length v < 2 ^ 32"
  shows "window_free v base n = Some (\<forall>i < n. v ! (unat base + i) = 0)"
  using assms(1)
proof (induction n arbitrary: base)
  case (Suc n)
  have b: "unat base < length v" using Suc.prems by simp
  then have s: "unat (base + 1) = Suc (unat base)" using assms(2) by (simp add: unat_word_ariths)
  have e: "(\<forall>i < Suc n. v ! (unat base + i) = 0) \<longleftrightarrow> v ! unat base = 0 \<and> (\<forall>i < n. v ! (unat (base + 1) + i) = 0)"
    unfolding s by (auto simp: less_Suc_eq_0_disj)
  have "window_free v (base + 1) n = Some (\<forall>i < n. v ! (unat (base + 1) + i) = 0)"
    using Suc.prems s by (intro Suc.IH) simp
  with b e show ?case by (simp add: lat_Some)
qed simp

text \<open>A slot that is given out is free, and lies among the usable ones.\<close>

lemma admit_slot_spec:
  assumes "cta_inv c D" "req_ok c (pending_cta D)" "base < m" "m \<le> num_warps c"
  obtains "admit_slot c D m base = Some None" "\<exists>i < unat (num_warps c). slot_rem_warps D ! i \<noteq> 0"
  | b where "admit_slot c D m base = Some (Some b)" "b < m" "slot_rem_warps D ! unat b = 0"
      "is_first_of_cluster (pending_cta D) \<Longrightarrow>
        \<forall>i < unat (dim_x (req_cluster_dim (pending_cta D)) * dim_y (req_cluster_dim (pending_cta D)) *
          dim_z (req_cluster_dim (pending_cta D))). unat b + i < unat m \<longrightarrow> slot_rem_warps D ! (unat b + i) = 0"
proof -
  let ?q = "pending_cta D"
  let ?k0 = "dim_x (req_cluster_dim ?q) * dim_y (req_cluster_dim ?q) * dim_z (req_cluster_dim ?q)"
  define k1 where "k1 = (if ?k0 = 0 then 1 else ?k0)"
  define b where "b = (if base + k1 > m then 0 else base)"
  define k where "k = (if k1 > m then m else k1)"
  have len: "length (slot_rem_warps D) = unat (num_warps c)" "2 * unat (num_warps c) < 2 ^ 32"
    using assms(1) by (simp_all add: cta_inv_def)
  have bm: "unat base < unat m" "unat m \<le> unat (num_warps c)" using assms(3,4) by (simp_all add: unat_simps)
  show thesis
  proof (cases "is_first_of_cluster ?q")
    case False
    have "vat (slot_rem_warps D) base = Some (slot_rem_warps D ! unat base)" using bm len by (intro lat_Some) simp
    with False have eq: "admit_slot c D m base = Some (if slot_rem_warps D ! unat base \<noteq> 0 then None else Some base)"
      by (simp add: admit_slot_def Let_def)
    show ?thesis
    proof (cases "slot_rem_warps D ! unat base = 0")
      case True
      with eq False assms(3) show ?thesis by (intro that(2) [of base]) simp_all
    next
      case False
      have "unat base < unat (num_warps c)" using bm by simp
      with eq False show ?thesis by (intro that(1)) auto
    qed
  next
    case True
    have k1: "0 < unat k1" "unat k1 + unat (num_warps c) < 2 ^ 32"
      using assms(2) len(2) by (auto simp: k1_def req_ok_def unat_gt_0)
    then have "unat (base + k1) = unat base + unat k1" using bm by (simp add: unat_word_ariths)
    then have r: "unat b + unat k \<le> unat m" "0 < unat k" "unat b < unat m"
      using bm k1 by (auto simp: b_def k_def word_less_nat_alt)
    have w: "window_free (slot_rem_warps D) b (unat k) = Some (\<forall>i < unat k. slot_rem_warps D ! (unat b + i) = 0)"
      using r bm len by (intro window_free_spec) simp_all
    have "admit_slot c D m base = do { free \<leftarrow> window_free (slot_rem_warps D) b (unat k); Some (if free then Some b else None) }"
      unfolding admit_slot_def Let_def b_def k_def k1_def using True by (simp only: if_True)
    then have eq: "admit_slot c D m base = Some (if \<forall>i < unat k. slot_rem_warps D ! (unat b + i) = 0 then Some b else None)"
      using w by simp
    show ?thesis
    proof (cases "\<forall>i < unat k. slot_rem_warps D ! (unat b + i) = 0")
      case all: True
      have z: "slot_rem_warps D ! unat b = 0" using all r(2) by (metis add.right_neutral)
      have "slot_rem_warps D ! (unat b + i) = 0" if "i < unat ?k0" "unat b + i < unat m" for i
        using all that r by (cases "k1 > m") (auto simp: k_def k1_def b_def split: if_splits)
      with eq all z r(3) that(2) [of b] show ?thesis by (auto simp: word_less_nat_alt)
    next
      case False
      then obtain i where "i < unat k" "slot_rem_warps D ! (unat b + i) \<noteq> 0" by blast
      then have "unat b + i < unat (num_warps c) \<and> slot_rem_warps D ! (unat b + i) \<noteq> 0" using r(1) bm(2) by simp
      then have "\<exists>i < unat (num_warps c). slot_rem_warps D ! i \<noteq> 0" by blast
      with eq False show ?thesis by (intro that(1)) simp_all
    qed
  qed
qed

lemma cta_size_pos:
  assumes "req_ok c q" "0 < unat (num_threads c)"
  shows "unat ((req_block_size q + num_threads c - 1) div num_threads c) = warps_of c q"
    and "0 < (req_block_size q + num_threads c - 1) div num_threads c"
proof -
  let ?b = "unat (req_block_size q)" and ?t = "unat (num_threads c)"
  have "unat (req_block_size q + num_threads c) = ?b + ?t" using assms by (simp add: req_ok_def unat_word_ariths)
  moreover have "1 \<le> req_block_size q + num_threads c"
    using assms calculation by (simp add: word_le_nat_alt req_ok_def)
  ultimately have e: "unat (req_block_size q + num_threads c - 1) = ?b + ?t - 1" by (simp add: unat_sub)
  then show u: "unat ((req_block_size q + num_threads c - 1) div num_threads c) = warps_of c q"
    by (simp add: unat_div warps_of_def)
  have "0 < warps_of c q" using assms by (simp add: warps_of_def div_greater_zero_iff req_ok_def) linarith
  with u show "0 < (req_block_size q + num_threads c - 1) div num_threads c" by (simp add: word_less_nat_alt)
qed

lemma accept_cta_inv:
  assumes i: "cta_inv c D" "\<not> has_cta D" "req_ok c (pending_cta D)"
    and b: "base < m" "m \<le> num_warps c" "slot_rem_warps D ! unat base = 0"
  obtains D' where "accept_cta c D stride m base = Some D'" "cta_inv c D'" "has_cta D'" "\<not> has_pending D'"
    "cur_slot D' = base" "cta D' = pending_cta D" "wid_to_slot D' = wid_to_slot D" "rank D' = 0"
    "thread_idx D' = dim3_of 0 0 0" "block_size_rem D' = req_block_size (pending_cta D)"
    "lmem_addr D' = lmem_base c + ucast base * ucast stride"
proof -
  let ?q = "pending_cta D" and ?sz = "(req_block_size (pending_cta D) + num_threads c - 1) div num_threads c"
  have nt: "0 < unat (num_threads c)" "num_threads c \<noteq> 0" using i(1) by (auto simp: cta_inv_def)
  have bl: "base < num_warps c" "unat base < length (slot_rem_warps D)" "m \<noteq> 0"
    using b i(1) by (auto simp: cta_inv_def word_less_nat_alt word_le_nat_alt)
  note sz = cta_size_pos [OF i(3) nt(1)]
  obtain D' where D': "accept_cta c D stride m base = Some D'"
    using bl nt by (auto simp: accept_cta_def Let_def lset_Some)
  have "(base + 1) mod m < m" using bl(3) by (simp add: word_less_nat_alt unat_mod unat_gt_0)
  then have tail: "(base + 1) mod m < num_warps c" using b(2) by simp
  have cnt: "\<forall>s < num_warps c. unat (slot_rem_warps D ! unat s) = count_list (wid_to_slot D) s"
    using i(1,2) by (simp add: cta_inv_def pending_warps_def)
  then have "count_list (wid_to_slot D) base = 0" using b(3) bl(1) by force
  then have "\<forall>s < num_warps c. unat ((slot_rem_warps D)[unat base := ?sz] ! unat s) =
      count_list (wid_to_slot D) s + (if base = s then unat ?sz else 0)"
    using cnt bl(2) by (auto simp: nth_list_update dest: word_unat_eq_iff [THEN iffD2])
  with D' i sz tail bl nt have "cta_inv c D'"
    by (auto simp: cta_inv_def accept_cta_def Let_def lset_Some pending_warps_def rem_threads_def)
  with D' bl nt that show thesis by (auto simp: accept_cta_def Let_def lset_Some)
qed

lemma load_cta_inv:
  assumes i: "cta_inv c D" "\<not> has_cta D" and k: "kmu_ok c k"
  obtains ok D' k' where "load_cta c D k = Some (ok, D', k')" "cta_inv c D'" "kmu_ok c k'" "has_cta D' = ok"
    "wid_to_slot D' = wid_to_slot D"
    "\<not> ok \<Longrightarrow> has_pending D \<or> kmu_running k \<Longrightarrow> \<exists>i < unat (num_warps c). slot_rem_warps D ! i \<noteq> 0"
proof (cases "if has_pending D then (Some (pending_cta D), k) else kmu_step k")
  case (Pair r k')
  show thesis
  proof (cases r)
    case None
    then have "k' = k" "\<not> has_pending D" "\<not> kmu_running k" using Pair by (auto simp: kmu_step_def split: if_splits)
    with Pair None i k that [of False D k] show ?thesis by (simp add: load_cta_def)
  next
    case (Some q)
    have q: "req_ok c q" "kmu_ok c k'"
      using Pair Some i k kmu_ok_step [of c k q k'] by (auto simp: cta_inv_def split: if_splits)
    define st where "st = cta_stride c q"
    define m where "m = usable_slots c st"
    have m: "0 < m" "m \<le> num_warps c" using usable_slots_bounds [of c st] i(1) by (simp_all add: m_def cta_inv_def)
    define E where "E = (let D = D\<lparr>pending_cta := q, has_pending := True\<rparr> in if tail_slot D \<ge> m then D\<lparr>tail_slot := 0\<rparr> else D)"
    have E: "cta_inv c E" "\<not> has_cta E" "pending_cta E = q" "wid_to_slot E = wid_to_slot D" "tail_slot E < m"
      "slot_rem_warps E = slot_rem_warps D"
      using i q(1) m by (auto simp: E_def Let_def cta_inv_def pending_warps_def rem_threads_def)
    have eq: "load_cta c D k = do { s \<leftarrow> admit_slot c E m (tail_slot E);
        (case s of None \<Rightarrow> Some (False, E, k')
         | Some base \<Rightarrow> do { D \<leftarrow> accept_cta c E st m base; Some (True, D, k') }) }"
      unfolding load_cta_def E_def m_def st_def Let_def Pair Some prod.case option.case by (rule refl)
    have qE: "req_ok c (pending_cta E)" using q E by simp
    show ?thesis
    proof (rule admit_slot_spec [OF E(1) qE E(5) m(2)])
      assume "admit_slot c E m (tail_slot E) = Some None" "\<exists>i < unat (num_warps c). slot_rem_warps E ! i \<noteq> 0"
      with eq E q that [of False E k'] show ?thesis by simp
    next
      fix b assume b: "admit_slot c E m (tail_slot E) = Some (Some b)" "b < m" "slot_rem_warps E ! unat b = 0"
      from E(1,2) qE b(2) m(2) b(3) obtain D' where "accept_cta c E st m b = Some D'" "cta_inv c D'" "has_cta D'"
        "wid_to_slot D' = wid_to_slot E" by (rule accept_cta_inv)
      with eq b(1) E(4) q(2) that [of True D' k'] show ?thesis by simp
    qed
  qed
qed

definition slots_active :: "vx_cfg \<Rightarrow> cta_dispatcher \<Rightarrow> (nat \<Rightarrow> bool) \<Rightarrow> bool" where
  "slots_active c D active \<longleftrightarrow> (\<forall>w < unat (num_warps c). wid_to_slot D ! w < num_warps c \<longrightarrow> active w)"

lemma free_warp_Some: "free_warp c active = Some w \<Longrightarrow> w < unat (num_warps c) \<and> \<not> active w"
  by (auto simp: free_warp_def find_Some_iff)

lemma unat_of_nat_u32: "n < 2 ^ 32 \<Longrightarrow> unat (of_nat n :: u32) = n"
  by (simp add: unat_of_nat)

lemma warps_of_less: "0 < t \<Longrightarrow> 0 < b \<Longrightarrow> r < (b + t - 1) div t \<longleftrightarrow> r * t < b" for b t r :: nat
  by (subst less_eq_Suc_le, subst less_eq_div_iff_mult_less_eq) auto

text \<open>Of the threads that remain, each warp takes as many as it has lanes, the last one what is left.\<close>

lemma next_warp_rem:
  assumes i: "cta_inv c D" "has_cta D"
  shows "0 < unat (block_size_rem D)"
    and "rank D + 1 < cta_size D \<Longrightarrow> unat (num_threads c) < unat (block_size_rem D)"
proof -
  let ?t = "unat (num_threads c)" and ?b = "unat (req_block_size (cta D))"
  have f: "0 < ?t" "0 < ?b" "unat (block_size_rem D) + unat (rank D) * ?t = ?b"
    "unat (cta_size D) = (?b + ?t - 1) div ?t" "rank D < cta_size D"
    using i by (simp_all add: cta_inv_def req_ok_def rem_threads_def warps_of_def)
  have r: "unat (rank D + 1) = unat (rank D) + 1"
    using f(5) unat_u32_less [of "cta_size D"] by (simp add: unat_word_ariths word_less_nat_alt)
  have "unat (rank D) < (?b + ?t - 1) div ?t" using f(4,5) by (simp add: word_less_nat_alt)
  then have "unat (rank D) * ?t < ?b" by (simp only: warps_of_less [OF f(1,2)])
  with f(3) show "0 < unat (block_size_rem D)" by linarith
  assume "rank D + 1 < cta_size D"
  then have "unat (rank D) + 1 < (?b + ?t - 1) div ?t" using f(4) r by (simp add: word_less_nat_alt)
  then have "(unat (rank D) + 1) * ?t < ?b" by (simp only: warps_of_less [OF f(1,2)])
  with f(3) show "?t < unat (block_size_rem D)" by (simp add: algebra_simps)
qed

text \<open>Handing out a warp moves it from the pending warps of its slot to the assigned ones.\<close>

lemma next_warp_inv:
  assumes i: "cta_inv c D" "has_cta D" and w: "w < unat (num_warps c)" "\<not> wid_to_slot D ! w < num_warps c"
    and n: "next_warp c D b = Some (out, D')" and m: "length m = unat (num_warps c)"
  shows "cta_inv c (D'\<lparr>warp_init_mask := m, wid_to_slot := (wid_to_slot D')[w := cur_slot D']\<rparr>)"
proof -
  let ?v = "(wid_to_slot D)[w := cur_slot D]"
  have r: "rank D < cta_size D" using i by (simp add: cta_inv_def)
  then have r': "unat (rank D + 1) = unat (rank D) + 1"
    using unat_u32_less [of "cta_size D"] by (simp add: unat_word_ariths word_less_nat_alt)
  have c: "count_list ?v s + (if wid_to_slot D ! w = s then 1 else 0) =
      count_list (wid_to_slot D) s + (if cur_slot D = s then 1 else 0)" for s
    using w i by (intro count_list_update) (simp add: cta_inv_def)
  have cnt: "unat (slot_rem_warps D ! unat s) =
      count_list ?v s + (if cur_slot D = s then unat (cta_size D) - unat (rank D + 1) else 0)" if "s < num_warps c" for s
  proof -
    have "wid_to_slot D ! w \<noteq> s" using w(2) that by blast
    moreover have "unat (slot_rem_warps D ! unat s) = count_list (wid_to_slot D) s + pending_warps D s"
      using i(1) that by (simp add: cta_inv_def)
    moreover have "unat (rank D) < unat (cta_size D)" using r by (simp add: word_less_nat_alt)
    ultimately show ?thesis using c [of s] i(2) r' by (auto simp: pending_warps_def)
  qed
  have i': "0 < unat (num_warps c)" "2 * unat (num_warps c) < 2 ^ 32" "0 < unat (num_threads c)"
    "length (slot_rem_warps D) = unat (num_warps c)" "length (wid_to_slot D) = unat (num_warps c)"
    "tail_slot D < num_warps c" "cur_slot D < num_warps c" "has_pending D \<longrightarrow> req_ok c (pending_cta D)"
    using i by (simp_all add: cta_inv_def)
  show ?thesis
  proof (cases "rank D + 1 \<ge> cta_size D")
    case True
    then have "D' = D\<lparr>thread_idx := advance_thread_idx (thread_idx D) (req_warp_step (cta D)) (req_block_dim (cta D)),
        block_size_rem := block_size_rem D - (if block_size_rem D \<ge> num_threads c then num_threads c else block_size_rem D),
        rank := rank D + 1, has_cta := False\<rparr>" using n i(2) by (auto simp: next_warp_def Let_def)
    with i' cnt m True show ?thesis by (auto simp: cta_inv_def pending_warps_def word_le_nat_alt)
  next
    case False
    then have "D' = D\<lparr>thread_idx := advance_thread_idx (thread_idx D) (req_warp_step (cta D)) (req_block_dim (cta D)),
        block_size_rem := block_size_rem D - (if block_size_rem D \<ge> num_threads c then num_threads c else block_size_rem D),
        rank := rank D + 1\<rparr>" using n i(2) by (auto simp: next_warp_def Let_def)
    moreover have "unat (num_threads c) < unat (block_size_rem D)" using next_warp_rem(2) [OF i] False by simp
    then have "rem_threads c D'" "req_ok c (cta D')"
      using i r' calculation by (auto simp: cta_inv_def rem_threads_def word_le_nat_alt unat_sub)
    ultimately show ?thesis using i' i(2) cnt m False by (auto simp: cta_inv_def pending_warps_def rem_threads_def)
  qed
qed

lemma cta_warp_mask_any:
  assumes "cta_inv c D" "has_cta D"
  shows "length (cta_warp_mask c D) = unat (num_threads c)" "True \<in> set (cta_warp_mask c D)"
proof -
  have "0 < unat (num_threads c)" "0 < unat (block_size_rem D)"
    using assms next_warp_rem(1) [OF assms] by (simp_all add: cta_inv_def)
  then show "length (cta_warp_mask c D) = unat (num_threads c)" "True \<in> set (cta_warp_mask c D)"
    by (auto simp: cta_warp_mask_def Let_def intro!: image_eqI [of _ _ 0])
qed

lemma next_warp_Some:
  assumes "has_cta D"
  obtains out D' where "next_warp c D b = Some (out, D')" "wid_to_slot D' = wid_to_slot D"
    "warp_init_mask D' = warp_init_mask D" "cur_slot D' = cur_slot D" "rec_cta_id out = cur_slot D"
    "rec_tmask out = cta_warp_mask c D"
  using assms by (auto simp: next_warp_def Let_def)

lemma cta_step_inv:
  assumes i: "cta_inv c D" "slots_active c D active" and k: "kmu_ok c k"
  obtains D' k' where "cta_step c D k active = Some (None, D', k')" "cta_inv c D'" "kmu_ok c k'" "slots_active c D' active"
      "wid_to_slot D' = wid_to_slot D"
      "free_warp c active = None \<or> \<not> cta_running D k \<or>
        \<not> has_cta D \<and> (\<exists>i < unat (num_warps c). slot_rem_warps D ! i \<noteq> 0)"
  | w out D' k' where "cta_step c D k active = Some (Some (w, out), D', k')" "cta_inv c D'" "kmu_ok c k'"
      "w < unat (num_warps c)" "\<not> active w" "wid_to_slot D' = (wid_to_slot D)[w := rec_cta_id out]" "rec_cta_id out < num_warps c"
      "length (rec_tmask out) = unat (num_threads c)" "True \<in> set (rec_tmask out)"
      "slots_active c D' (active(w := True))"
proof -
  obtain ok E k' where E: "(if has_cta D then Some (True, D, k) else load_cta c D k) = Some (ok, E, k')"
    "cta_inv c E" "kmu_ok c k'" "has_cta E = ok" "wid_to_slot E = wid_to_slot D"
    and why: "\<not> ok \<Longrightarrow> cta_running D k \<Longrightarrow> \<not> has_cta D \<and> (\<exists>i < unat (num_warps c). slot_rem_warps D ! i \<noteq> 0)"
  proof (cases "has_cta D")
    case True
    with i k that [of True D k] show ?thesis by simp
  next
    case False
    show ?thesis
    proof (rule load_cta_inv [OF i(1) False k])
      fix ok E k' assume "load_cta c D k = Some (ok, E, k')" "cta_inv c E" "kmu_ok c k'" "has_cta E = ok"
        "wid_to_slot E = wid_to_slot D"
        "\<not> ok \<Longrightarrow> has_pending D \<or> kmu_running k \<Longrightarrow> \<exists>i < unat (num_warps c). slot_rem_warps D ! i \<noteq> 0"
      with False show ?thesis by (intro that [of ok E k']) (simp_all add: cta_running_def)
    qed
  qed
  have sa: "slots_active c E active" using i(2) E(5) by (simp add: slots_active_def)
  show thesis
  proof (cases "ok \<and> free_warp c active \<noteq> None")
    case False
    then have "cta_step c D k active = Some (None, E, k')" unfolding cta_step_def E(1) by auto
    with E sa why False show ?thesis by (intro that(1) [of E k']) auto
  next
    case True
    then obtain w where w: "free_warp c active = Some w" "w < unat (num_warps c)" "\<not> active w"
      using free_warp_Some by blast
    have u: "unat (of_nat w :: u32) = w" using w(2) unat_u32_less [of "num_warps c"] by (intro unat_of_nat_u32) simp
    have len: "length (warp_init_mask E) = unat (num_warps c)" "length (wid_to_slot E) = unat (num_warps c)"
      and cs: "cur_slot E < num_warps c" using E True by (simp_all add: cta_inv_def)
    have nf: "\<not> wid_to_slot E ! w < num_warps c" using sa w by (auto simp: slots_active_def)
    obtain out D' where n: "next_warp c E (\<not> warp_init_mask E ! w) = Some (out, D')" "wid_to_slot D' = wid_to_slot E"
      "warp_init_mask D' = warp_init_mask E" "cur_slot D' = cur_slot E" "rec_cta_id out = cur_slot E"
      "rec_tmask out = cta_warp_mask c E"
      using E(4) True by (blast elim: next_warp_Some)
    define m where "m = (warp_init_mask D')[w := True]"
    define F where "F = D'\<lparr>warp_init_mask := m, wid_to_slot := (wid_to_slot D')[w := cur_slot D']\<rparr>"
    have "length m = unat (num_warps c)" using n(3) len by (simp add: m_def)
    then have F: "cta_inv c F" unfolding F_def using E True w nf n by (intro next_warp_inv) auto
    have "vat (warp_init_mask E) (of_nat w) = Some (warp_init_mask E ! w)"
      "vset (warp_init_mask D') (of_nat w) True = Some m"
      "vset (wid_to_slot D') (of_nat w) (cur_slot D') = Some ((wid_to_slot D')[w := cur_slot D'])"
      using u w len n by (simp_all add: lat_def lset_def m_def)
    then have st: "cta_step c D k active = Some (Some (w, out), F, k')"
      unfolding cta_step_def E(1) F_def using True w(1) n(1) by simp
    have F2: "wid_to_slot F = (wid_to_slot D)[w := rec_cta_id out]" "slots_active c F (active(w := True))"
      using sa n w len E(5) by (auto simp: F_def slots_active_def nth_list_update)
    have "length (rec_tmask out) = unat (num_threads c)" "True \<in> set (rec_tmask out)"
      using cta_warp_mask_any [of c E] E True n(6) by simp_all
    with cs n(5) show ?thesis by (intro that(2) [OF st F E(3) w(2,3) F2(1) _ _ _ F2(2)]) simp_all
  qed
qed

text \<open>A warp that ends gives back one warp of its slot; the assertion of the code holds.\<close>

lemma warp_done_inv:
  assumes i: "cta_inv c D" and w: "w < unat (num_warps c)"
  obtains D' where "warp_done c D (of_nat w) = Some D'" "cta_inv c D'"
    "wid_to_slot D' = (wid_to_slot D)[w := (if wid_to_slot D ! w < num_warps c then num_warps c else wid_to_slot D ! w)]"
proof -
  let ?s = "wid_to_slot D ! w"
  have u: "unat (of_nat w :: u32) = w" using w unat_u32_less [of "num_warps c"] by (intro unat_of_nat_u32) simp
  have len: "length (slot_rem_warps D) = unat (num_warps c)" "length (wid_to_slot D) = unat (num_warps c)"
    using i by (simp_all add: cta_inv_def)
  show thesis
  proof (cases "?s < num_warps c")
    case False
    then have "warp_done c D (of_nat w) = Some D" using u w len by (simp add: warp_done_def lat_Some not_less)
    with i False that show ?thesis by simp
  next
    case True
    let ?r = "slot_rem_warps D ! unat ?s" and ?v = "(wid_to_slot D)[w := num_warps c]"
    define D' where "D' = D\<lparr>wid_to_slot := ?v, slot_rem_warps := (slot_rem_warps D)[unat ?s := ?r - 1]\<rparr>"
    have sl: "unat ?s < unat (num_warps c)" using True by (simp add: word_less_nat_alt)
    have c: "count_list ?v s + (if ?s = s then 1 else 0) = count_list (wid_to_slot D) s + (if num_warps c = s then 1 else 0)" for s
      using w len by (intro count_list_update) simp
    have "0 < count_list (wid_to_slot D) ?s" using w len by (intro count_list_pos) simp
    then have r: "0 < unat ?r" using i True by (simp add: cta_inv_def)
    then have r1: "unat (?r - 1) = unat ?r - 1" by (simp add: unat_sub word_le_nat_alt)
    have "warp_done c D (of_nat w) = Some D'"
      using True u w len sl r by (simp add: warp_done_def lat_def lset_def D'_def word_less_nat_alt word_le_nat_alt)
    moreover have "unat ((slot_rem_warps D)[unat ?s := ?r - 1] ! unat s) = count_list ?v s + pending_warps D s"
      if "s < num_warps c" for s
    proof -
      have "unat (slot_rem_warps D ! unat s) = count_list (wid_to_slot D) s + pending_warps D s"
        using i that by (simp add: cta_inv_def)
      moreover have "num_warps c \<noteq> s" using that by blast
      ultimately show ?thesis using c [of s] r r1 sl len
        by (cases "?s = s") (auto simp: nth_list_update dest: word_unat_eq_iff [THEN iffD2])
    qed
    then have "cta_inv c D'" using i by (simp add: cta_inv_def D'_def pending_warps_def rem_threads_def)
    ultimately show ?thesis using that True by (simp add: D'_def)
  qed
qed

end
