(* ===== verification/Scheduler_Inv.thy ===== *)
theory Scheduler_Inv
  imports Scheduler Cta_Dispatcher_Inv
begin

text \<open>
  The invariant of the scheduler and that every operation keeps it. Each lemma also says that the
  operation returns: no assertion of the code fails and no table is read outside its bounds, under
  the conditions the pipeline guarantees when it calls the operation.
\<close>

lemma many_iff: "many m \<longleftrightarrow> (\<exists>i < length m. m ! i)"
  by (auto simp: many_def in_set_conv_nth)

lemma mcount_0_iff: "mcount m = 0 \<longleftrightarrow> \<not> many m"
  by (auto simp: mcount_def many_def filter_empty_conv)

lemma mcount_count_list: "mcount m = count_list m True"
  by (induction m) (auto simp: mcount_def)

lemma mcount_set: "i < length m \<Longrightarrow> \<not> m ! i \<Longrightarrow> mcount (m[i := True]) = Suc (mcount m)"
  and mcount_reset: "i < length m \<Longrightarrow> m ! i \<Longrightarrow> Suc (mcount (m[i := False])) = mcount m"
  using count_list_update [of i m True True] count_list_update [of i m False True] by (simp_all add: mcount_count_list)

lemma mcount_le: "mcount m \<le> length m"
  by (simp add: mcount_def)

lemma mcount_1_unique:
  assumes "mcount m = 1" "i < length m" "m ! i" "j < length m" "m ! j"
  shows "i = j"
proof (rule ccontr)
  assume "i \<noteq> j"
  have "card {k. k < length m \<and> m ! k} = 1" using assms(1) by (simp add: mcount_def length_filter_conv_card)
  moreover have "{i, j} \<subseteq> {k. k < length m \<and> m ! k}" using assms by auto
  ultimately have "card {i, j} \<le> 1" by (metis card_mono finite_Collect_conjI finite_Collect_less_nat)
  with \<open>i \<noteq> j\<close> show False by simp
qed

text \<open>
  The state of the scheduler between two operations. A warp that runs has a thread that runs; the
  registered stall mask covers the next one; a warp that holds a CTA slot is active; the fragment
  warps are active and hold none; a deferred \<open>wspawn\<close> keeps warp 0 parked; the
  fragment warps are those launched and not retired.
\<close>

definition sched_shape :: "vx_cfg \<Rightarrow> sched \<Rightarrow> bool" where
  "sched_shape c S \<longleftrightarrow> unat (num_warps c) \<le> MAX_NUM_WARPS \<and> 0 < unat (num_threads c) \<and>
     length (warps S) = unat (num_warps c) \<and> length (active_warps S) = MAX_NUM_WARPS \<and>
     length (stalled_warps S) = MAX_NUM_WARPS \<and> length (stalled_warps_next S) = MAX_NUM_WARPS \<and>
     length (in_async_trap S) = unat (num_warps c) \<and> length (trap_epoch S) = unat (num_warps c) \<and>
     length (last_mret_cycle S) = unat (num_warps c) \<and> length (async_trap_snapshot S) = unat (num_warps c) \<and>
     length (fwd_is_fragment S) = unat (num_warps c) \<and>
     (\<forall>w < unat (num_warps c). length (tmask (warps S ! w)) = unat (num_threads c) \<and>
        length (mscratch_tmask (warps S ! w)) = unat (num_threads c))"

definition masks_inv :: "vx_cfg \<Rightarrow> sched \<Rightarrow> bool" where
  "masks_inv c S \<longleftrightarrow>
     (\<forall>w < MAX_NUM_WARPS. active_warps S ! w \<longrightarrow> w < unat (num_warps c) \<and> many (tmask (warps S ! w))) \<and>
     (\<forall>w < MAX_NUM_WARPS. stalled_warps_next S ! w \<longrightarrow> stalled_warps S ! w)"

definition owners_inv :: "vx_cfg \<Rightarrow> sched \<Rightarrow> bool" where
  "owners_inv c S \<longleftrightarrow> cta_inv c (cta_disp S) \<and> slots_active c (cta_disp S) (\<lambda>w. active_warps S ! w) \<and>
     (\<forall>w < unat (num_warps c). fwd_is_fragment S ! w \<longrightarrow>
        active_warps S ! w \<and> \<not> wid_to_slot (cta_disp S) ! w < num_warps c) \<and>
     (\<forall>v \<in> set (fwd_waves S). length (wave_tmask v) = unat (num_threads c) \<and> many (wave_tmask v))"

definition wspawn_inv :: "vx_cfg \<Rightarrow> sched \<Rightarrow> bool" where
  "wspawn_inv c S \<longleftrightarrow> (wspawn_valid S \<longrightarrow> active_warps S ! 0 \<and> stalled_warps_next S ! 0 \<and>
     wspawn_num_warps S \<le> num_warps c)"

definition fwd_inv :: "sched \<Rightarrow> bool" where
  "fwd_inv S \<longleftrightarrow> of_nat (mcount (fwd_is_fragment S)) = fwd_launched S - fwd_retired S \<and>
     (fwd_armed S \<or> mcount (fwd_is_fragment S) = 0)"

definition sched_inv :: "vx_cfg \<Rightarrow> sched \<Rightarrow> bool" where
  "sched_inv c S \<longleftrightarrow> sched_shape c S \<and> masks_inv c S \<and> owners_inv c S \<and> wspawn_inv c S \<and> fwd_inv S"

lemmas sched_inv_defs = sched_inv_def sched_shape_def masks_inv_def owners_inv_def wspawn_inv_def fwd_inv_def

subsection \<open>Activation\<close>

lemma activate_warp_inv:
  assumes i: "sched_inv c S" and w: "w < unat (num_warps c)" "\<not> active_warps S ! w"
    and r: "length (rec_tmask r) = unat (num_threads c)" "many (rec_tmask r)"
  obtains S' where "activate_warp S w r = Some S'" "sched_inv c S'" "active_warps S' = (active_warps S)[w := True]"
    "cta_disp S' = cta_disp S" "fwd_waves S' = fwd_waves S" "fwd_is_fragment S' = fwd_is_fragment S"
    "length (warps S') = length (warps S)" "\<forall>v < length (warps S). v \<noteq> w \<longrightarrow> warps S' ! v = warps S ! v"
    "fwd_launched S' = fwd_launched S" "fwd_retired S' = fwd_retired S" "fwd_armed S' = fwd_armed S"
    "tmask (warps S' ! w) = rec_tmask r"
proof -
  have l: "w < length (warps S)" "w < length (active_warps S)" "w < length (stalled_warps S)"
    "w < length (stalled_warps_next S)" using i w by (auto simp: sched_inv_def sched_shape_def)
  then obtain x where x: "activate_warp S w r = Some (S\<lparr>warps := (warps S)[w := x],
      active_warps := (active_warps S)[w := True], stalled_warps := (stalled_warps S)[w := False],
      stalled_warps_next := (stalled_warps_next S)[w := False]\<rparr>)" "tmask x = rec_tmask r" "mscratch_tmask x = mscratch_tmask (warps S ! w)"
    by (simp add: activate_warp_def Let_def)
  let ?T = "S\<lparr>warps := (warps S)[w := x], active_warps := (active_warps S)[w := True],
      stalled_warps := (stalled_warps S)[w := False], stalled_warps_next := (stalled_warps_next S)[w := False]\<rparr>"
  have "w \<noteq> 0 \<or> \<not> wspawn_valid S" using i w by (auto simp: sched_inv_def wspawn_inv_def)
  then have "wspawn_inv c ?T" using i by (auto simp: sched_inv_def wspawn_inv_def nth_list_update)
  moreover have "sched_shape c ?T" using i x(2,3) r l by (auto simp: sched_inv_def sched_shape_def nth_list_update)
  moreover have "masks_inv c ?T" using i x(2) r l w(1) by (auto simp: sched_inv_def masks_inv_def nth_list_update)
  moreover have "owners_inv c ?T" using i l by (auto simp: sched_inv_def owners_inv_def slots_active_def nth_list_update)
  moreover have "fwd_inv ?T" using i by (simp add: sched_inv_def fwd_inv_def)
  ultimately have "sched_inv c ?T" by (simp add: sched_inv_def)
  with x l that show thesis by simp
qed

lemma sched_inv_cta: "sched_inv c S \<Longrightarrow> cta_inv c (cta_disp S)"
  "sched_inv c S \<Longrightarrow> slots_active c (cta_disp S) (\<lambda>w. active_warps S ! w)"
  by (simp_all add: sched_inv_def owners_inv_def)

lemma slots_active_cong:
  "slots_active c D f \<Longrightarrow> (\<And>w. w < unat (num_warps c) \<Longrightarrow> f w \<Longrightarrow> g w) \<Longrightarrow> slots_active c D g"
  by (simp add: slots_active_def)

lemma sched_inv_disp:
  assumes "sched_inv c T" "cta_inv c D" "slots_active c D (\<lambda>w. active_warps T ! w)"
    "\<forall>v < unat (num_warps c). fwd_is_fragment T ! v \<longrightarrow> active_warps T ! v \<and> \<not> wid_to_slot D ! v < num_warps c"
  shows "sched_inv c (T\<lparr>cta_disp := D\<rparr>)"
proof -
  have "owners_inv c (T\<lparr>cta_disp := D\<rparr>)" using assms by (simp add: sched_inv_def owners_inv_def)
  moreover have "sched_shape c (T\<lparr>cta_disp := D\<rparr>)" using assms by (simp add: sched_inv_def sched_shape_def)
  moreover have "masks_inv c (T\<lparr>cta_disp := D\<rparr>)" using assms by (simp add: sched_inv_def masks_inv_def)
  moreover have "wspawn_inv c (T\<lparr>cta_disp := D\<rparr>)" "fwd_inv (T\<lparr>cta_disp := D\<rparr>)"
    using assms by (simp_all add: sched_inv_def wspawn_inv_def fwd_inv_def)
  ultimately show ?thesis by (simp add: sched_inv_def)
qed

lemma activate_warp_disp: "activate_warp (S\<lparr>cta_disp := D\<rparr>) w r = map_option (\<lambda>S. S\<lparr>cta_disp := D\<rparr>) (activate_warp S w r)"
  by (auto simp: activate_warp_def Let_def lat_def lset_def)

lemma dispatch_cta_inv:
  assumes i: "sched_inv c S" and k: "kmu_ok c k"
  obtains S' k' where "dispatch_cta c S k = Some (S', k')" "sched_inv c S'" "kmu_ok c k'"
proof (rule cta_step_inv [OF sched_inv_cta [OF i] k])
  fix D k' assume a: "cta_step c (cta_disp S) k (\<lambda>w. active_warps S ! w) = Some (None, D, k')" "cta_inv c D" "kmu_ok c k'"
    "slots_active c D (\<lambda>w. active_warps S ! w)"
    and w: "wid_to_slot D = wid_to_slot (cta_disp S)"
  have "sched_inv c (S\<lparr>cta_disp := D\<rparr>)" using i a w by (intro sched_inv_disp) (auto simp: sched_inv_def owners_inv_def)
  with a that show thesis by (simp add: dispatch_cta_def)
next
  fix w r D k' assume a: "cta_step c (cta_disp S) k (\<lambda>w. active_warps S ! w) = Some (Some (w, r), D, k')" "cta_inv c D"
    "kmu_ok c k'" "w < unat (num_warps c)" "\<not> active_warps S ! w" "length (rec_tmask r) = unat (num_threads c)"
    "True \<in> set (rec_tmask r)" "slots_active c D ((\<lambda>w. active_warps S ! w)(w := True))"
    and f: "wid_to_slot D = (wid_to_slot (cta_disp S))[w := rec_cta_id r]"
  obtain T where T: "activate_warp S w r = Some T" "sched_inv c T" "active_warps T = (active_warps S)[w := True]"
    "cta_disp T = cta_disp S" "fwd_is_fragment T = fwd_is_fragment S"
    using i a(4-6) a(7) [folded many_def] by (rule activate_warp_inv)
  have "w < length (active_warps S)" using i a(4) by (auto simp: sched_inv_def sched_shape_def)
  then have "slots_active c D (\<lambda>w. active_warps T ! w)"
    using a(8) T(3) by (auto simp: slots_active_def nth_list_update)
  moreover have "\<not> fwd_is_fragment T ! w" using i a(4,5) T(5) by (auto simp: sched_inv_def owners_inv_def)
  then have "\<forall>v < unat (num_warps c). fwd_is_fragment T ! v \<longrightarrow> active_warps T ! v \<and> \<not> wid_to_slot D ! v < num_warps c"
    using T(2,4) f by (auto simp: sched_inv_def owners_inv_def) (metis nth_list_update_neq)
  ultimately have "sched_inv c (T\<lparr>cta_disp := D\<rparr>)" using T(2) a(2) by (intro sched_inv_disp)
  moreover have "dispatch_cta c S k = Some (T\<lparr>cta_disp := D\<rparr>, k')"
    unfolding dispatch_cta_def a(1) using T(1) by (simp add: activate_warp_disp)
  ultimately show thesis using a(3) by (intro that)
qed

lemma sched_inv_waves:
  assumes "sched_inv c S" "\<forall>v \<in> set waves. length (wave_tmask v) = unat (num_threads c) \<and> many (wave_tmask v)"
  shows "sched_inv c (S\<lparr>fwd_waves := waves\<rparr>)"
proof -
  have "owners_inv c (S\<lparr>fwd_waves := waves\<rparr>)" using assms by (simp add: sched_inv_def owners_inv_def)
  moreover have "sched_shape c (S\<lparr>fwd_waves := waves\<rparr>)" using assms by (simp add: sched_inv_def sched_shape_def)
  moreover have "masks_inv c (S\<lparr>fwd_waves := waves\<rparr>)" using assms by (simp add: sched_inv_def masks_inv_def)
  moreover have "wspawn_inv c (S\<lparr>fwd_waves := waves\<rparr>)" "fwd_inv (S\<lparr>fwd_waves := waves\<rparr>)"
    using assms by (simp_all add: sched_inv_def wspawn_inv_def fwd_inv_def)
  ultimately show ?thesis by (simp add: sched_inv_def)
qed

lemma fwd_try_inject_inv:
  assumes "sched_inv c S" "fwd_armed S"
    and "\<forall>v \<in> set waves. length (wave_tmask v) = unat (num_threads c) \<and> many (wave_tmask v)"
  shows "\<exists>S'. fwd_try_inject c pc waves S = Some S' \<and> sched_inv c S'"
  using assms
proof (induction waves arbitrary: S)
  case Nil
  then show ?case by (simp add: sched_inv_waves)
next
  case (Cons v waves)
  show ?case
  proof (cases "free_warp c (\<lambda>w. active_warps S ! w)")
    case None
    with Cons.prems show ?thesis by (simp add: sched_inv_waves)
  next
    case (Some w)
    let ?r = "fwd_record c S pc w v"
    from Some have w: "w < unat (num_warps c)" "\<not> active_warps S ! w" using free_warp_Some by blast+
    have r: "length (rec_tmask ?r) = unat (num_threads c)" "many (rec_tmask ?r)"
      using Cons.prems(3) by (simp_all add: fwd_record_def)
    obtain T where T: "activate_warp S w ?r = Some T" "sched_inv c T" "active_warps T = (active_warps S)[w := True]"
      "cta_disp T = cta_disp S" "fwd_is_fragment T = fwd_is_fragment S" "length (warps T) = length (warps S)"
      "fwd_armed T = fwd_armed S" "tmask (warps T ! w) = rec_tmask ?r"
      using Cons.prems(1) w r by (rule activate_warp_inv)
    have l: "w < length (warps T)" "w < length (fwd_is_fragment T)" "w < length (active_warps S)"
      using T(2) Cons.prems(1) w(1) by (auto simp: sched_inv_def sched_shape_def)
    have nf: "\<not> fwd_is_fragment T ! w" using Cons.prems(1) w T(5) by (auto simp: sched_inv_def owners_inv_def)
    have ns: "\<not> wid_to_slot (cta_disp T) ! w < num_warps c" using sched_inv_cta [OF Cons.prems(1)] w T(4) by (auto simp: slots_active_def)
    let ?U = "T\<lparr>warps := (warps T)[w := (warps T ! w)\<lparr>frag := wave_payload v\<rparr>],
      fwd_is_fragment := (fwd_is_fragment T)[w := True], fwd_launched := fwd_launched T + 1\<rparr>"
    have "fwd_inv ?U" using T(2,7) l nf Cons.prems(2) by (simp add: sched_inv_def fwd_inv_def mcount_set)
    moreover have "owners_inv c ?U" using T(2,3) l ns by (auto simp: sched_inv_def owners_inv_def nth_list_update)
    moreover have "sched_shape c ?U" using T(2) l by (auto simp: sched_inv_def sched_shape_def nth_list_update)
    moreover have "masks_inv c ?U" using T(2) l by (auto simp: sched_inv_def masks_inv_def nth_list_update)
    moreover have "wspawn_inv c ?U" using T(2) by (simp add: sched_inv_def wspawn_inv_def)
    ultimately have "sched_inv c ?U" by (simp add: sched_inv_def)
    moreover have "fwd_try_inject c pc (v # waves) S = fwd_try_inject c pc waves ?U" using Some T(1) l by simp
    ultimately show ?thesis using Cons.IH [of ?U] Cons.prems(2,3) T(7) by simp
  qed
qed

lemma spawn_warps_inv:
  assumes "sched_inv c S" "\<forall>i \<in> set is. 0 < i \<and> i < unat (num_warps c)"
  shows "\<exists>S'. spawn_warps pc ms is S = Some S' \<and> sched_inv c S' \<and> active_warps S' ! 0 = active_warps S ! 0 \<and>
    stalled_warps_next S' ! 0 = stalled_warps_next S ! 0"
  using assms
proof (induction "is" arbitrary: S)
  case (Cons i "is")
  have i: "i < unat (num_warps c)" "0 < i" using Cons.prems(2) by auto
  have l: "i < length (warps S)" "i < length (active_warps S)" "i < length (stalled_warps S)" "i < length (stalled_warps_next S)"
    "0 < length (tmask (warps S ! i))"
    using Cons.prems(1) i by (auto simp: sched_inv_def sched_shape_def)
  let ?w = "(warps S ! i)\<lparr>wPC := pc, tmask := (tmask (warps S ! i))[0 := True], mscratch := ms\<rparr>"
  let ?U = "S\<lparr>warps := (warps S)[i := ?w], active_warps := (active_warps S)[i := True],
    stalled_warps := (stalled_warps S)[i := False], stalled_warps_next := (stalled_warps_next S)[i := False]\<rparr>"
  have "many ((tmask (warps S ! i))[0 := True])" using l(5) by (auto simp: many_iff)
  then have "masks_inv c ?U" using Cons.prems(1) i l by (auto simp: sched_inv_def masks_inv_def nth_list_update)
  moreover have "owners_inv c ?U" using Cons.prems(1) l by (auto simp: sched_inv_def owners_inv_def slots_active_def nth_list_update)
  moreover have "sched_shape c ?U" using Cons.prems(1) l by (auto simp: sched_inv_def sched_shape_def nth_list_update)
  moreover have "wspawn_inv c ?U" "fwd_inv ?U" using Cons.prems(1) i by (simp_all add: sched_inv_def wspawn_inv_def fwd_inv_def)
  ultimately have "sched_inv c ?U" by (simp add: sched_inv_def)
  moreover have "spawn_warps pc ms (i # is) S = spawn_warps pc ms is ?U" using l by simp
  moreover have "active_warps ?U ! 0 = active_warps S ! 0" "stalled_warps_next ?U ! 0 = stalled_warps_next S ! 0" using i by simp_all
  ultimately show ?case using Cons.IH [of ?U] Cons.prems(2) by simp
qed simp

lemma sched_invI:
  "sched_shape c S \<Longrightarrow> masks_inv c S \<Longrightarrow> owners_inv c S \<Longrightarrow> wspawn_inv c S \<Longrightarrow> fwd_inv S \<Longrightarrow> sched_inv c S"
  by (simp add: sched_inv_def)

lemma sched_inv_lengths:
  assumes "sched_inv c S" "w < unat (num_warps c)"
  shows "w < length (warps S)" "w < length (active_warps S)" "w < length (stalled_warps S)" "w < length (stalled_warps_next S)"
    "w < length (in_async_trap S)" "w < length (trap_epoch S)" "w < length (last_mret_cycle S)"
    "w < length (async_trap_snapshot S)" "w < length (fwd_is_fragment S)" "w < MAX_NUM_WARPS"
  using assms by (auto simp: sched_inv_def sched_shape_def)

lemma sched_inv_warp:
  assumes i: "sched_inv c S" "w < unat (num_warps c)"
    and x: "length (tmask x) = unat (num_threads c)" "length (mscratch_tmask x) = unat (num_threads c)"
      "active_warps S ! w \<Longrightarrow> many (tmask x)"
  shows "sched_inv c (S\<lparr>warps := (warps S)[w := x]\<rparr>)" (is "sched_inv c ?T")
proof (rule sched_invI)
  show "sched_shape c ?T" using i x sched_inv_lengths [OF i] by (auto simp: sched_inv_def sched_shape_def nth_list_update)
  show "masks_inv c ?T" using i x sched_inv_lengths [OF i] by (auto simp: sched_inv_def masks_inv_def nth_list_update)
  show "owners_inv c ?T" using i by (simp add: sched_inv_def owners_inv_def)
  show "wspawn_inv c ?T" "fwd_inv ?T" using i by (simp_all add: sched_inv_def wspawn_inv_def fwd_inv_def)
qed

lemma sched_inv_tmask:
  assumes "sched_inv c S" "w < unat (num_warps c)"
  shows "length (tmask (warps S ! w)) = unat (num_threads c)" "length (mscratch_tmask (warps S ! w)) = unat (num_threads c)"
    "active_warps S ! w \<Longrightarrow> many (tmask (warps S ! w))"
  using assms by (auto simp: sched_inv_def sched_shape_def masks_inv_def)

lemma sched_inv_stall:
  assumes i: "sched_inv c S" and s: "length s = MAX_NUM_WARPS" "length n = MAX_NUM_WARPS"
    "\<forall>w < MAX_NUM_WARPS. n ! w \<longrightarrow> s ! w" "wspawn_valid S \<Longrightarrow> n ! 0"
  shows "sched_inv c (S\<lparr>stalled_warps_next := n, stalled_warps := s\<rparr>)" (is "sched_inv c ?T")
proof (rule sched_invI)
  show "sched_shape c ?T" using i s by (simp add: sched_inv_def sched_shape_def)
  show "masks_inv c ?T" using i s by (simp add: sched_inv_def masks_inv_def)
  show "owners_inv c ?T" using i by (simp add: sched_inv_def owners_inv_def)
  show "wspawn_inv c ?T" "fwd_inv ?T" using i s by (simp_all add: sched_inv_def wspawn_inv_def fwd_inv_def)
qed

subsection \<open>Resuming\<close>

lemma resume_inv:
  assumes i: "sched_inv c S" and w: "w < unat (num_warps c)" "active_warps S ! w" "stalled_warps_next S ! w"
    "w = 0 \<Longrightarrow> \<not> wspawn_valid S"
  shows "resume S w = Some (S\<lparr>stalled_warps_next := (stalled_warps_next S)[w := False]\<rparr>)"
    and "sched_inv c (S\<lparr>stalled_warps_next := (stalled_warps_next S)[w := False]\<rparr>)"
proof -
  note l = sched_inv_lengths [OF i w(1)]
  show "resume S w = Some (S\<lparr>stalled_warps_next := (stalled_warps_next S)[w := False]\<rparr>)"
    using l w by (simp add: resume_def)
  have "sched_inv c (S\<lparr>stalled_warps_next := (stalled_warps_next S)[w := False], stalled_warps := stalled_warps S\<rparr>)"
    using i w(4) l by (intro sched_inv_stall) (auto simp: sched_inv_def sched_shape_def masks_inv_def wspawn_inv_def nth_list_update)
  then show "sched_inv c (S\<lparr>stalled_warps_next := (stalled_warps_next S)[w := False]\<rparr>)" by simp
qed

lemma process_wspawn_inv:
  assumes i: "sched_inv c S"
  obtains S' where "process_wspawn S = Some S'" "sched_inv c S'"
proof (cases "wspawn_valid S \<and> mcount (active_warps S) = 1")
  case False
  then have "process_wspawn S = Some S" unfolding process_wspawn_def by (simp only: if_False)
  with i that show thesis by blast
next
  case True
  then have v: "wspawn_valid S" "active_warps S ! 0" "stalled_warps_next S ! 0" "wspawn_num_warps S \<le> num_warps c"
    using i by (simp_all add: sched_inv_def wspawn_inv_def)
  have n0: "0 < unat (num_warps c)" using i by (simp add: sched_inv_def owners_inv_def cta_inv_def)
  have "\<forall>i \<in> set [1 ..< unat (wspawn_num_warps S)]. 0 < i \<and> i < unat (num_warps c)"
    using v(4) by (auto simp: word_le_nat_alt)
  then obtain T where T: "spawn_warps (wspawn_nextPC S) (mscratch (warps S ! 0)) [1 ..< unat (wspawn_num_warps S)] S = Some T"
    "sched_inv c T" "active_warps T ! 0" "stalled_warps_next T ! 0"
    using spawn_warps_inv [OF i, of "[1 ..< unat (wspawn_num_warps S)]"] v by (metis (no_types))
  have "sched_inv c (T\<lparr>wspawn_valid := False\<rparr>)"
  proof (rule sched_invI)
    show "sched_shape c (T\<lparr>wspawn_valid := False\<rparr>)" using T(2) by (simp add: sched_inv_def sched_shape_def)
    show "masks_inv c (T\<lparr>wspawn_valid := False\<rparr>)" using T(2) by (simp add: sched_inv_def masks_inv_def)
    show "owners_inv c (T\<lparr>wspawn_valid := False\<rparr>)" using T(2) by (simp add: sched_inv_def owners_inv_def)
  qed (use T(2) in \<open>simp_all add: sched_inv_def wspawn_inv_def fwd_inv_def\<close>)
  note r = resume_inv [OF this, of 0, simplified, OF n0 T(3,4)]
  have "process_wspawn S = resume (T\<lparr>wspawn_valid := False\<rparr>) 0"
    unfolding process_wspawn_def using True T(1) sched_inv_lengths(1) [OF i n0] by simp
  with r that show thesis by simp
qed

lemma pick_warp_Some:
  assumes "pick_warp c S m = Some w"
  shows "w < unat (num_warps c)" "active_warps S ! w" "\<not> stalled_warps S ! w" "m ! w"
  using assms by (auto simp: pick_warp_def find_Some_iff)

lemma fetch_warp_inv:
  assumes i: "sched_inv c S" and w: "w < unat (num_warps c)" "active_warps S ! w" "\<not> stalled_warps S ! w"
  obtains t S' where "fetch_warp c cid S w = Some (t, S')" "sched_inv c (S'\<lparr>stalled_warps := stalled_warps_next S'\<rparr>)"
    "tr_wid t = w" "tr_PC t = wPC (warps S ! w)" "tr_tmask t = tmask (warps S ! w)"
proof -
  note l = sched_inv_lengths [OF i w(1)] and tm = sched_inv_tmask [OF i w(1)]
  let ?x = "(warps S ! w)\<lparr>uuid := uuid (warps S ! w) + 1\<rparr>"
  have j: "sched_inv c (S\<lparr>warps := (warps S)[w := ?x]\<rparr>)" using tm by (intro sched_inv_warp [OF i w(1)]) simp_all
  have n: "\<not> stalled_warps_next S ! w" using i w l(10) by (auto simp: sched_inv_def masks_inv_def)
  let ?S' = "S\<lparr>warps := (warps S)[w := ?x], stalled_warps_next := (stalled_warps_next S)[w := True]\<rparr>"
  have eq: "?S'\<lparr>stalled_warps := stalled_warps_next ?S'\<rparr> =
    (S\<lparr>warps := (warps S)[w := ?x]\<rparr>)\<lparr>stalled_warps_next := (stalled_warps_next S)[w := True],
       stalled_warps := (stalled_warps_next S)[w := True]\<rparr>" by simp
  have "sched_inv c (?S'\<lparr>stalled_warps := stalled_warps_next ?S'\<rparr>)"
    unfolding eq using i l by (intro sched_inv_stall [OF j])
      (auto simp: sched_inv_def sched_shape_def wspawn_inv_def nth_list_update)
  moreover obtain t where "fetch_warp c cid S w = Some (t, ?S')" "tr_wid t = w" "tr_PC t = wPC (warps S ! w)"
    "tr_tmask t = tmask (warps S ! w)"
    using l n w tm(3) by (simp add: fetch_warp_def suspend_def Let_def)
  ultimately show thesis using that by blast
qed

lemma sched_inv_waves_ok:
  "sched_inv c S \<Longrightarrow> \<forall>v \<in> set (fwd_waves S). length (wave_tmask v) = unat (num_threads c) \<and> many (wave_tmask v)"
  by (simp add: sched_inv_def owners_inv_def)

lemma schedule_inv:
  assumes i: "sched_inv c S" and k: "kmu_ok c k"
  obtains t S' k' where "schedule c cid S k m = Some (t, S', k')" "sched_inv c S'" "kmu_ok c k'"
    "stalled_warps S' = stalled_warps_next S'"
proof -
  from i k obtain T k' where T: "dispatch_cta c S k = Some (T, k')" "sched_inv c T" "kmu_ok c k'" by (rule dispatch_cta_inv)
  have "\<exists>U. (if fwd_armed T then fwd_try_inject c (kmu_PC k') (fwd_waves T) T else Some T) = Some U \<and> sched_inv c U"
    using T(2) by (cases "fwd_armed T") (simp_all add: fwd_try_inject_inv sched_inv_waves_ok)
  then obtain U where U: "(if fwd_armed T then fwd_try_inject c (kmu_PC k') (fwd_waves T) T else Some T) = Some U"
    "sched_inv c U" by blast
  from U(2) obtain V where V: "process_wspawn U = Some V" "sched_inv c V" by (rule process_wspawn_inv)
  have eq: "schedule c cid S k m = do { (t, S) \<leftarrow> (case pick_warp c V m of
        None \<Rightarrow> Some (None, V) | Some wid \<Rightarrow> do { (t, S) \<leftarrow> fetch_warp c cid V wid; Some (Some t, S) });
     Some (t, S\<lparr>stalled_warps := stalled_warps_next S\<rparr>, k') }"
    unfolding schedule_def T(1) using U(1) V(1) by (simp split del: if_split)
  show thesis
  proof (cases "pick_warp c V m")
    case None
    have "sched_inv c (V\<lparr>stalled_warps_next := stalled_warps_next V, stalled_warps := stalled_warps_next V\<rparr>)"
      using V(2) by (intro sched_inv_stall) (simp_all add: sched_inv_def sched_shape_def wspawn_inv_def)
    with None eq T(3) that show ?thesis by simp
  next
    case (Some w)
    note p = pick_warp_Some [OF Some]
    from V(2) p(1-3) obtain t W where "fetch_warp c cid V w = Some (t, W)"
      "sched_inv c (W\<lparr>stalled_warps := stalled_warps_next W\<rparr>)" by (rule fetch_warp_inv)
    with Some eq T(3) that [of "Some t" "W\<lparr>stalled_warps := stalled_warps_next W\<rparr>" k'] show ?thesis by simp
  qed
qed

subsection \<open>Thread masks\<close>

lemma setTmask_exit:
  assumes i: "sched_inv c S" and w: "w < unat (num_warps c)" "w = 0 \<Longrightarrow> \<not> wspawn_valid S"
    and a: "tm = replicate (unat (num_threads c)) False"
  obtains S' where "setTmask c S w tm = Some (False, S')" "sched_inv c S'"
    "active_warps S' = (active_warps S)[w := False]" "\<not> wid_to_slot (cta_disp S') ! w < num_warps c"
proof -
  note l = sched_inv_lengths [OF i w(1)] and tm = sched_inv_tmask [OF i w(1)]
  from sched_inv_cta(1) [OF i] w(1) obtain D where D: "warp_done c (cta_disp S) (of_nat w) = Some D" "cta_inv c D"
    "wid_to_slot D = (wid_to_slot (cta_disp S))[w := (if wid_to_slot (cta_disp S) ! w < num_warps c then num_warps c
        else wid_to_slot (cta_disp S) ! w)]" by (rule warp_done_inv)
  define R where "R = (if fwd_is_fragment S ! w then fwd_retired S + 1 else fwd_retired S)"
  define W where "W = (warps S)[w := (warps S ! w)\<lparr>tmask := tm\<rparr>]"
  define S' where "S' = S\<lparr>warps := W, fwd_is_fragment := (fwd_is_fragment S)[w := False], fwd_retired := R,
    active_warps := (active_warps S)[w := False], cta_disp := D\<rparr>"
  have nm: "\<not> many tm" using a by (simp add: many_def)
  have f: "\<not> fwd_is_fragment S ! w \<Longrightarrow> (fwd_is_fragment S)[w := False] = fwd_is_fragment S"
    by (metis (full_types) list_update_id)
  have eq: "setTmask c S w tm = Some (False, S')"
    using l nm D(1) f by (cases "fwd_is_fragment S ! w") (simp_all add: setTmask_def Let_def S'_def W_def R_def)
  have lw: "w < length (wid_to_slot (cta_disp S))" using sched_inv_cta(1) [OF i] w(1) by (simp add: cta_inv_def)
  have ns: "\<not> wid_to_slot D ! w < num_warps c" using D(3) lw by simp
  have "sched_inv c S'"
  proof (rule sched_invI)
    show "sched_shape c S'" using i a l tm by (auto simp: sched_inv_def sched_shape_def S'_def W_def nth_list_update)
    show "masks_inv c S'" using i l by (auto simp: sched_inv_def masks_inv_def S'_def W_def nth_list_update)
    show "wspawn_inv c S'" using i w(2) by (cases "w = 0") (auto simp: sched_inv_def wspawn_inv_def S'_def)
    show "fwd_inv S'"
    proof (cases "fwd_is_fragment S ! w")
      case True
      define n where "n = mcount ((fwd_is_fragment S)[w := False])"
      have "mcount (fwd_is_fragment S) = Suc n" using mcount_reset [OF l(9) True] by (simp add: n_def)
      then have "1 + of_nat n = fwd_launched S - fwd_retired S" "fwd_armed S" using i by (simp_all add: sched_inv_def fwd_inv_def)
      then have "of_nat n = fwd_launched S - (fwd_retired S + 1)" by (simp add: eq_diff_eq add.commute add.left_commute)
      with True \<open>fwd_armed S\<close> show ?thesis by (simp add: fwd_inv_def S'_def R_def n_def)
    qed (use i f in \<open>simp add: sched_inv_def fwd_inv_def S'_def R_def\<close>)
    show "owners_inv c S'" using i D ns l lw
      by (auto simp: sched_inv_def owners_inv_def slots_active_def S'_def nth_list_update)
  qed
  with eq ns that show thesis by (simp add: S'_def)
qed

lemma replicate_False: "\<not> many tm \<Longrightarrow> length tm = n \<Longrightarrow> tm = replicate n False"
  by (metis (full_types) many_def replicate_length_same)

lemma setTmask_run:
  assumes i: "sched_inv c S" and w: "w < unat (num_warps c)" and a: "length tm = unat (num_threads c)" "many tm"
  shows "setTmask c S w tm = Some (True, S\<lparr>warps := (warps S)[w := (warps S ! w)\<lparr>tmask := tm\<rparr>]\<rparr>)"
    "sched_inv c (S\<lparr>warps := (warps S)[w := (warps S ! w)\<lparr>tmask := tm\<rparr>]\<rparr>)"
proof -
  show "setTmask c S w tm = Some (True, S\<lparr>warps := (warps S)[w := (warps S ! w)\<lparr>tmask := tm\<rparr>]\<rparr>)"
    using sched_inv_lengths [OF i w] a(2) by (simp add: setTmask_def Let_def)
  show "sched_inv c (S\<lparr>warps := (warps S)[w := (warps S ! w)\<lparr>tmask := tm\<rparr>]\<rparr>)"
    using a sched_inv_tmask [OF i w] by (intro sched_inv_warp [OF i w]) simp_all
qed

lemma wspawn_keeps:
  assumes i: "sched_inv c S" "active_warps S ! 0" "stalled_warps_next S ! 0"
  shows "sched_inv c (snd (wspawn c S n pc))"
proof -
  let ?T = "S\<lparr>wspawn_valid := True, wspawn_num_warps := min n (num_warps c), wspawn_nextPC := pc\<rparr>"
  have "sched_inv c ?T"
  proof (rule sched_invI)
    show "sched_shape c ?T" using i by (simp add: sched_inv_def sched_shape_def)
    show "masks_inv c ?T" using i by (simp add: sched_inv_def masks_inv_def)
    show "owners_inv c ?T" using i by (simp add: sched_inv_def owners_inv_def)
  qed (use i in \<open>simp_all add: sched_inv_def wspawn_inv_def fwd_inv_def\<close>)
  then show ?thesis using i(1) by (simp add: wspawn_def Let_def)
qed

subsection \<open>Traps\<close>

lemma raise_trap_inv:
  assumes i: "sched_inv c S" "w < unat (num_warps c)"
  obtains S' where "raise_trap S w cause pc = Some S'" "sched_inv c S'"
    "S' = S\<lparr>warps := (warps S)[w := (warps S ! w)\<lparr>mepc := pc, mcause := cause, mtval := 0,
       mscratch_tmask := tmask (warps S ! w), wPC := mtvec (warps S ! w) AND NOT 3\<rparr>]\<rparr>"
proof -
  let ?x = "(warps S ! w)\<lparr>mepc := pc, mcause := cause, mtval := 0, mscratch_tmask := tmask (warps S ! w),
    wPC := mtvec (warps S ! w) AND NOT 3\<rparr>"
  have "sched_inv c (S\<lparr>warps := (warps S)[w := ?x]\<rparr>)" using sched_inv_tmask [OF i] by (intro sched_inv_warp [OF i]) simp_all
  with sched_inv_lengths [OF i] that show thesis by (simp add: raise_trap_def)
qed

lemma advance_pc_inv:
  assumes i: "sched_inv c S" "tr_wid t < unat (num_warps c)"
  obtains S' where "advance_pc S t n = Some S'" "sched_inv c S'"
proof (cases "tr_trap_epoch t = trap_epoch S ! tr_wid t")
  case False
  with i sched_inv_lengths [OF i] that show thesis by (simp add: advance_pc_def)
next
  case True
  let ?x = "(warps S ! tr_wid t)\<lparr>wPC := wPC (warps S ! tr_wid t) + ucast n\<rparr>"
  have "sched_inv c (S\<lparr>warps := (warps S)[tr_wid t := ?x]\<rparr>)"
    using sched_inv_tmask [OF i] by (intro sched_inv_warp [OF i]) simp_all
  with True sched_inv_lengths [OF i] that show thesis by (simp add: advance_pc_def)
qed

lemma raise_async_trap_inv:
  assumes i: "sched_inv c S" "w < unat (num_warps c)" "active_warps S ! w" "w = 0 \<Longrightarrow> \<not> wspawn_valid S"
    and tm: "length tm = unat (num_threads c)" "many tm"
  obtains S' where "raise_async_trap S w cause pc tm fl snap = Some S'" "sched_inv c S'" "in_async_trap S' ! w"
    "mscratch_tmask (warps S' ! w) = tmask (warps S ! w)" "tmask (warps S' ! w) = tm"
    "mepc (warps S' ! w) = (if fl = 0 then pc else fl)" "\<not> stalled_warps_next S' ! w"
    "trap_epoch S' ! w = trap_epoch S ! w + 1" "async_trap_snapshot S' ! w = snap" "active_warps S' = active_warps S"
proof -
  note l = sched_inv_lengths [OF i(1,2)]
  let ?pc = "if fl = 0 then pc else fl"
  from i(1,2) obtain T where T: "raise_trap S w cause ?pc = Some T" "sched_inv c T"
    "T = S\<lparr>warps := (warps S)[w := (warps S ! w)\<lparr>mepc := ?pc, mcause := cause, mtval := 0,
       mscratch_tmask := tmask (warps S ! w), wPC := mtvec (warps S ! w) AND NOT 3\<rparr>]\<rparr>" by (rule raise_trap_inv)
  let ?x = "(warps T ! w)\<lparr>tmask := tm\<rparr>"
  let ?sn = "(async_trap_snapshot S)[w := snap]" and ?e = "(trap_epoch S)[w := trap_epoch S ! w + 1]"
  let ?n = "(stalled_warps_next S)[w := False]"
  have U: "sched_inv c (T\<lparr>warps := (warps T)[w := ?x]\<rparr>)"
    using tm sched_inv_tmask [OF T(2) i(2)] by (intro sched_inv_warp [OF T(2) i(2)]) simp_all
  have V: "sched_inv c (T\<lparr>warps := (warps T)[w := ?x], stalled_warps_next := ?n, stalled_warps := stalled_warps S\<rparr>)"
    using U i l T(3) by (intro sched_inv_stall)
      (auto simp: sched_inv_def sched_shape_def masks_inv_def wspawn_inv_def nth_list_update)
  let ?S' = "T\<lparr>warps := (warps T)[w := ?x], stalled_warps_next := ?n, in_async_trap := (in_async_trap S)[w := True],
    async_trap_snapshot := ?sn, trap_epoch := ?e\<rparr>"
  have "sched_inv c ?S'"
  proof (rule sched_invI)
    show "sched_shape c ?S'" using V T(3) by (simp add: sched_inv_def sched_shape_def)
    show "masks_inv c ?S'" using V T(3) by (simp add: sched_inv_def masks_inv_def)
    show "owners_inv c ?S'" using V by (simp add: sched_inv_def owners_inv_def)
  qed (use V in \<open>simp_all add: sched_inv_def wspawn_inv_def fwd_inv_def\<close>)
  moreover have "\<not> stalled_warps_next S ! w \<Longrightarrow> ?n = stalled_warps_next S" by (metis (full_types) list_update_id)
  then have "raise_async_trap S w cause pc tm fl snap = Some ?S'"
    using l T(1,3) i(3) by (cases "stalled_warps_next S ! w") (simp_all add: raise_async_trap_def Let_def resume_def)
  ultimately show thesis using that l T(3) by simp
qed

lemma mret_inv:
  assumes i: "sched_inv c S" "w < unat (num_warps c)"
  obtains sn S' where "mret S w cyc = Some (sn, S')" "sched_inv c S'" "sn = async_trap_snapshot S ! w"
    "wPC (warps S' ! w) = mepc (warps S ! w)" "\<not> in_async_trap S' ! w" "last_mret_cycle S' ! w = cyc"
    "tmask (warps S' ! w) = (if many (mscratch_tmask (warps S ! w)) then mscratch_tmask (warps S ! w) else tmask (warps S ! w))"
    "async_trap_snapshot S' ! w = []"
proof -
  note l = sched_inv_lengths [OF i] and tm = sched_inv_tmask [OF i]
  let ?y = "(warps S ! w)\<lparr>wPC := mepc (warps S ! w)\<rparr>"
  let ?x = "if many (mscratch_tmask (warps S ! w)) then ?y\<lparr>tmask := mscratch_tmask (warps S ! w)\<rparr> else ?y"
  have V: "sched_inv c (S\<lparr>warps := (warps S)[w := ?x]\<rparr>)" using tm by (intro sched_inv_warp [OF i]) simp_all
  let ?S' = "S\<lparr>warps := (warps S)[w := ?x], async_trap_snapshot := (async_trap_snapshot S)[w := []],
    in_async_trap := (in_async_trap S)[w := False], last_mret_cycle := (last_mret_cycle S)[w := cyc]\<rparr>"
  have "sched_inv c ?S'"
  proof (rule sched_invI)
    show "sched_shape c ?S'" using V by (simp add: sched_inv_def sched_shape_def)
    show "masks_inv c ?S'" using V by (simp add: sched_inv_def masks_inv_def)
    show "owners_inv c ?S'" using V by (simp add: sched_inv_def owners_inv_def)
  qed (use V in \<open>simp_all add: sched_inv_def wspawn_inv_def fwd_inv_def\<close>)
  moreover have "mret S w cyc = Some (async_trap_snapshot S ! w, ?S')" using l by (simp add: mret_def Let_def)
  ultimately show thesis using that l by simp
qed

subsection \<open>The fragment distributor\<close>

lemma sched_inv_fwd:
  assumes "sched_inv c S" "S' = S\<lparr>fwd_armed := a, fwd_drained := d, fwd_frag_entry := e, fwd_frag_param := p,
      fwd_launched := l, fwd_retired := r, fwd_reqs_outstanding := q\<rparr>" "fwd_inv S'"
  shows "sched_inv c S'"
  using assms(3)
proof (rule sched_invI [rotated 4])
  show "sched_shape c S'" using assms(1) by (simp add: assms(2) sched_inv_def sched_shape_def)
  show "masks_inv c S'" using assms(1) by (simp add: assms(2) sched_inv_def masks_inv_def)
  show "owners_inv c S'" using assms(1) by (simp add: assms(2) sched_inv_def owners_inv_def)
  show "wspawn_inv c S'" using assms(1) by (simp add: assms(2) sched_inv_def wspawn_inv_def)
qed

lemma fwd_arm_inv: "sched_inv c S \<Longrightarrow> \<not> fwd_armed S \<Longrightarrow> sched_inv c (fwd_arm S e p)"
  by (rule sched_inv_fwd [where S = S and a = True and d = False and e = e and p = p and l = 0 and r = 0 and q = 0]) (auto simp: fwd_arm_def sched_inv_def fwd_inv_def)

lemma sched_inv_fwd_flags:
  assumes "sched_inv c S" "a \<or> mcount (fwd_is_fragment S) = 0"
  shows "sched_inv c (S\<lparr>fwd_armed := a, fwd_drained := d, fwd_reqs_outstanding := q\<rparr>)"
proof (rule sched_inv_fwd [OF assms(1)])
  let ?T = "S\<lparr>fwd_armed := a, fwd_drained := d, fwd_reqs_outstanding := q\<rparr>"
  show "?T = S\<lparr>fwd_armed := a, fwd_drained := d, fwd_frag_entry := fwd_frag_entry S, fwd_frag_param := fwd_frag_param S,
      fwd_launched := fwd_launched S, fwd_retired := fwd_retired S, fwd_reqs_outstanding := q\<rparr>" by simp
  have "fwd_inv S" using assms(1) by (simp add: sched_inv_def)
  then show "fwd_inv ?T" using assms(2) by (simp add: fwd_inv_def)
qed

lemma fwd_push_wave_inv:
  "sched_inv c S \<Longrightarrow> length (wave_tmask v) = unat (num_threads c) \<Longrightarrow> many (wave_tmask v) \<Longrightarrow> sched_inv c (fwd_push_wave S v)"
  unfolding fwd_push_wave_def by (rule sched_inv_waves) (auto dest: sched_inv_waves_ok)

lemma fwd_done_no_fragment:
  assumes "sched_inv c S" "fwd_done S"
  shows "\<not> many (fwd_is_fragment S)"
proof -
  have "(of_nat (mcount (fwd_is_fragment S)) :: u64) = 0" using assms by (simp add: sched_inv_def fwd_inv_def fwd_done_def)
  moreover have "mcount (fwd_is_fragment S) < 2 ^ 64"
    using mcount_le [of "fwd_is_fragment S"] assms(1) unat_u32_less [of "num_warps c"] by (simp add: sched_inv_def sched_shape_def)
  ultimately have "mcount (fwd_is_fragment S) = 0"
    using unat_of_nat [where 'a = 64, of "mcount (fwd_is_fragment S)"] by simp
  then show ?thesis by (simp add: mcount_0_iff)
qed

lemma fwd_flags_inv:
  assumes "sched_inv c S"
  shows "sched_inv c (fwd_mark_drained S)" "sched_inv c (fwd_on_request S)" "sched_inv c (fwd_on_response S)"
    "fwd_done S \<Longrightarrow> sched_inv c (fwd_disarm S)"
proof -
  have f: "fwd_armed S \<or> mcount (fwd_is_fragment S) = 0" using assms by (simp add: sched_inv_def fwd_inv_def)
  show "sched_inv c (fwd_mark_drained S)"
    using sched_inv_fwd_flags [OF assms f, where d = True and q = "fwd_reqs_outstanding S"] by (simp add: fwd_mark_drained_def)
  show "sched_inv c (fwd_on_request S)"
    using sched_inv_fwd_flags [OF assms f, where d = "fwd_drained S" and q = "fwd_reqs_outstanding S + 1"] by (simp add: fwd_on_request_def)
  show "sched_inv c (fwd_on_response S)"
    using assms sched_inv_fwd_flags [OF assms f, where d = "fwd_drained S" and q = "fwd_reqs_outstanding S - 1"] by (simp add: fwd_on_response_def)
  assume "fwd_done S"
  then have "False \<or> mcount (fwd_is_fragment S) = 0" using fwd_done_no_fragment [OF assms] by (simp add: mcount_0_iff)
  then show "sched_inv c (fwd_disarm S)"
    using sched_inv_fwd_flags [OF assms, where a = False and d = "fwd_drained S" and q = "fwd_reqs_outstanding S"] by (simp add: fwd_disarm_def)
qed

lemma cta_inv_reset: "cta_inv c D \<Longrightarrow> cta_inv c (cta_on_reset c D)"
  by (auto simp: cta_inv_def cta_on_reset_def pending_warps_def word_less_nat_alt count_list_replicate)

lemma sched_inv_reset:
  assumes "sched_inv c S"
  shows "sched_inv c (sched_on_reset c S)" (is "sched_inv c ?T")
proof (rule sched_invI)
  show "sched_shape c ?T" using assms by (simp add: sched_inv_def sched_shape_def sched_on_reset_def warp_reset_def)
  show "masks_inv c ?T" by (simp add: masks_inv_def sched_on_reset_def)
  have "cta_inv c (cta_on_reset c (cta_disp S))" using assms by (intro cta_inv_reset) (simp add: sched_inv_def owners_inv_def)
  then show "owners_inv c ?T" using assms
    by (simp add: sched_inv_def sched_shape_def owners_inv_def sched_on_reset_def slots_active_def cta_on_reset_def)
  show "wspawn_inv c ?T" by (simp add: wspawn_inv_def sched_on_reset_def)
  have "mcount (map (\<lambda>_. False) xs) = 0" for xs :: "bool list" by (induction xs) (auto simp: mcount_def)
  then show "fwd_inv ?T" by (simp add: fwd_inv_def sched_on_reset_def)
qed

lemma sched_inv_new:
  assumes "0 < unat (num_warps c)" "unat (num_warps c) \<le> MAX_NUM_WARPS" "0 < unat (num_threads c)"
    "length (tmask w) = unat (num_threads c)" "length (mscratch_tmask w) = unat (num_threads c)"
  shows "sched_inv c (sched_new c w n pc)" (is "sched_inv c ?T")
proof (rule sched_invI)
  show "sched_shape c ?T" using assms by (simp add: sched_shape_def sched_new_def Let_def)
  show "masks_inv c ?T" by (simp add: masks_inv_def sched_new_def Let_def)
  have "cta_inv c (cta_dispatcher_new c)" using assms by (intro cta_inv_new) (simp_all add: MAX_NUM_WARPS_def)
  then show "owners_inv c ?T" by (simp add: owners_inv_def sched_new_def Let_def slots_active_def cta_dispatcher_new_def)
  show "wspawn_inv c ?T" by (simp add: wspawn_inv_def sched_new_def Let_def)
  show "fwd_inv ?T" by (simp add: fwd_inv_def sched_new_def Let_def mcount_def)
qed

end
