(* ===== verification/Kmu_Walk.thy ===== *)
theory Kmu_Walk
  imports Kmu
begin

text \<open>
  Where the grid walk of the kernel management unit is after \<open>r\<close> steps: the nested counters are
  the mixed-radix digits of \<open>r\<close>, and the block indices they form are a bijection onto the grid.
\<close>

subsection \<open>Counters\<close>

lemma counter_carry:
  fixes w c :: u32
  assumes "unat w = r mod unat c" "0 < unat c"
  shows "w + 1 = c \<longleftrightarrow> Suc r mod unat c = 0" "Suc r mod unat c \<noteq> 0 \<Longrightarrow> unat (w + 1) = Suc r mod unat c"
    "Suc r div unat c = (if Suc r mod unat c = 0 then Suc (r div unat c) else r div unat c)"
proof -
  have b: "unat w + 1 \<le> unat c" using assms by (simp add: Suc_leI)
  with unat_u32_less [of c] have s: "unat (w + 1) = unat w + 1" by (simp add: unat_word_ariths)
  show "w + 1 = c \<longleftrightarrow> Suc r mod unat c = 0" unfolding word_unat_eq_iff s using assms b by (auto simp: mod_Suc)
  show "Suc r mod unat c \<noteq> 0 \<Longrightarrow> unat (w + 1) = Suc r mod unat c" unfolding s using assms by (auto simp: mod_Suc split: if_splits)
  show "Suc r div unat c = (if Suc r mod unat c = 0 then Suc (r div unat c) else r div unat c)"
    by (simp add: div_Suc)
qed

lemma origin_carry:
  fixes w c g :: u32
  assumes "unat w = r mod n * unat c" "unat g = n * unat c" "0 < unat c" "0 < n"
  shows "w + c = g \<longleftrightarrow> Suc r mod n = 0" "Suc r mod n \<noteq> 0 \<Longrightarrow> unat (w + c) = Suc r mod n * unat c"
    "Suc r div n = (if Suc r mod n = 0 then Suc (r div n) else r div n)"
proof -
  have "Suc (r mod n) * unat c \<le> n * unat c" using assms(4) by (intro mult_right_mono) (simp_all add: Suc_leI)
  then have "unat w + unat c \<le> unat g" using assms by simp
  with unat_u32_less [of g] have s: "unat (w + c) = Suc (r mod n) * unat c"
    using assms(1) by (simp add: unat_word_ariths)
  show "w + c = g \<longleftrightarrow> Suc r mod n = 0" unfolding word_unat_eq_iff s assms(2) using assms(3)
    by (subst mult_cancel2) (auto simp: mod_Suc)
  show "Suc r mod n \<noteq> 0 \<Longrightarrow> unat (w + c) = Suc r mod n * unat c" unfolding s by (auto simp: mod_Suc split: if_splits)
  show "Suc r div n = (if Suc r mod n = 0 then Suc (r div n) else r div n)" by (simp add: div_Suc)
qed

subsection \<open>Where the walk is after \<open>r\<close> steps\<close>

record walk_dims =
  cx :: nat  cy :: nat  cz :: nat  nx :: nat  ny :: nat  nz :: nat

definition dims_of :: "kmu \<Rightarrow> walk_dims" where
  "dims_of k = (let c = kmu_cluster_dim k; g = kmu_grid_dim k in
     \<lparr>cx = unat (dim_x c), cy = unat (dim_y c), cz = unat (dim_z c), nx = unat (dim_x g) div unat (dim_x c),
      ny = unat (dim_y g) div unat (dim_y c), nz = unat (dim_z g) div unat (dim_z c)\<rparr>)"

definition dims_ok :: "kmu \<Rightarrow> bool" where
  "dims_ok k \<longleftrightarrow> (let c = kmu_cluster_dim k; g = kmu_grid_dim k in
     0 < unat (dim_x c) \<and> 0 < unat (dim_y c) \<and> 0 < unat (dim_z c) \<and>
     0 < unat (dim_x g) \<and> 0 < unat (dim_y g) \<and> 0 < unat (dim_z g) \<and>
     unat (dim_x c) dvd unat (dim_x g) \<and> unat (dim_y c) dvd unat (dim_y g) \<and> unat (dim_z c) dvd unat (dim_z g))"

definition clusters_before :: "walk_dims \<Rightarrow> nat \<Rightarrow> nat" where
  "clusters_before d r = r div cx d div cy d div cz d"

definition offset_at :: "walk_dims \<Rightarrow> nat \<Rightarrow> nat \<times> nat \<times> nat" where
  "offset_at d r = (r mod cx d, r div cx d mod cy d, r div cx d div cy d mod cz d)"

definition cluster_at :: "walk_dims \<Rightarrow> nat \<Rightarrow> nat \<times> nat \<times> nat" where
  "cluster_at d q = (q mod nx d, q div nx d mod ny d, q div nx d div ny d)"

definition walk_len :: "walk_dims \<Rightarrow> nat" where
  "walk_len d = cx d * (cy d * (cz d * (nx d * (ny d * nz d))))"

definition unat3 :: "dim3 \<Rightarrow> nat \<times> nat \<times> nat" where
  "unat3 v = (unat (dim_x v), unat (dim_y v), unat (dim_z v))"

definition walk_at :: "kmu \<Rightarrow> nat \<Rightarrow> bool" where
  "walk_at k r \<longleftrightarrow> kmu_running k \<and> kmu_cta_id k = of_nat r \<and> r < walk_len (dims_of k) \<and>
     unat3 (intra_offset k) = offset_at (dims_of k) r \<and>
     unat3 (group_origin k) = (case cluster_at (dims_of k) (clusters_before (dims_of k) r) of (X, Y, Z) \<Rightarrow>
        (X * cx (dims_of k), Y * cy (dims_of k), Z * cz (dims_of k)))"

lemma walk_start:
  assumes "dims_ok k" "0 < kmu_block_size k"
  shows "walk_at (kmu_start k) 0" "dims_of (kmu_start k) = dims_of k"
proof -
  show d: "dims_of (kmu_start k) = dims_of k" by (simp add: dims_of_def kmu_start_def Let_def)
  have "0 < walk_len (dims_of k)"
    using assms by (auto simp: walk_len_def dims_of_def dims_ok_def Let_def div_greater_zero_iff dvd_imp_le)
  then show "walk_at (kmu_start k) 0"
    using assms unfolding walk_at_def d
    by (auto simp: kmu_start_def dims_ok_def Let_def unat3_def offset_at_def cluster_at_def clusters_before_def word_less_nat_alt)
qed

lemma dims_of_update [simp]:
  "dims_of (kmu_cta_id_update f k) = dims_of k" "dims_of (intra_offset_update g k) = dims_of k"
  "dims_of (group_origin_update g k) = dims_of k" "dims_of (kmu_running_update h k) = dims_of k"
  by (simp_all add: dims_of_def)

lemma kmu_advance_cfg [simp]:
  "kmu_cluster_dim (kmu_advance k) = kmu_cluster_dim k" "kmu_grid_dim (kmu_advance k) = kmu_grid_dim k"
  "dims_of (kmu_advance k) = dims_of k" "dims_ok (kmu_advance k) = dims_ok k"
  by (simp_all add: dims_of_def dims_ok_def kmu_advance_def advance_origin_def Let_def)

lemma dims_okD:
  assumes "dims_ok k"
  shows "0 < cx (dims_of k)" "0 < cy (dims_of k)" "0 < cz (dims_of k)"
    "0 < nx (dims_of k)" "0 < ny (dims_of k)" "0 < nz (dims_of k)"
    "unat (dim_x (kmu_grid_dim k)) = nx (dims_of k) * cx (dims_of k)"
    "unat (dim_y (kmu_grid_dim k)) = ny (dims_of k) * cy (dims_of k)"
    "unat (dim_z (kmu_grid_dim k)) = nz (dims_of k) * cz (dims_of k)"
  using assms by (auto simp: dims_ok_def dims_of_def Let_def div_greater_zero_iff dvd_imp_le)

lemma walk_len_iff:
  assumes "0 < cx d" "0 < cy d" "0 < cz d" "0 < nx d" "0 < ny d"
  shows "r < walk_len d \<longleftrightarrow> r div cx d div cy d div cz d div nx d div ny d < nz d"
  unfolding walk_len_def using assms by (simp add: div_less_iff_less_mult ac_simps)

lemma walk_step:
  assumes ok: "dims_ok k" and w: "walk_at k r"
  shows "if Suc r < walk_len (dims_of k) then walk_at (kmu_advance k) (Suc r) else \<not> kmu_running (kmu_advance k)"
proof -
  define d where "d = dims_of k"
  define i where "i = intra_offset k" define g where "g = group_origin k"
  define c where "c = kmu_cluster_dim k" define n where "n = kmu_grid_dim k"
  define r1 where "r1 = r div cx d" define r2 where "r2 = r1 div cy d" define q where "q = r2 div cz d"
  define q1 where "q1 = q div nx d" define q2 where "q2 = q1 div ny d"
  note ds = dims_okD [OF ok, folded d_def n_def]
  note L = walk_len_iff [OF ds(1-5)]
  have cd: "cx d = unat (dim_x c)" "cy d = unat (dim_y c)" "cz d = unat (dim_z c)"
    by (simp_all add: d_def c_def dims_of_def Let_def)
  have pos: "unat (dim_x i) = r mod cx d" "unat (dim_y i) = r1 mod cy d" "unat (dim_z i) = r2 mod cz d"
    "unat (dim_x g) = q mod nx d * cx d" "unat (dim_y g) = q1 mod ny d * cy d" "unat (dim_z g) = q2 * cz d"
    and run: "kmu_running k" "kmu_cta_id k = of_nat r" and q2: "q2 < nz d"
    using w L [of r] unfolding walk_at_def
    by (auto simp: d_def i_def g_def unat3_def offset_at_def cluster_at_def clusters_before_def r1_def r2_def q_def q1_def q2_def)
  have q2': "unat (dim_z g) = q2 mod nz d * cz d" using pos(6) q2 by simp
  note X = counter_carry [OF pos(1) [unfolded cd] ds(1) [unfolded cd], folded cd r1_def]
  note Y = counter_carry [OF pos(2) [unfolded cd] ds(2) [unfolded cd], folded cd r2_def]
  note Z = counter_carry [OF pos(3) [unfolded cd] ds(3) [unfolded cd], folded cd q_def]
  note OX = origin_carry [OF pos(4) [unfolded cd] ds(7) [unfolded cd] ds(1) [unfolded cd] ds(4), folded cd q1_def]
  note OY = origin_carry [OF pos(5) [unfolded cd] ds(8) [unfolded cd] ds(2) [unfolded cd] ds(5), folded cd q2_def]
  note OZ = origin_carry [OF q2' [unfolded cd] ds(9) [unfolded cd] ds(3) [unfolded cd] ds(6), folded cd]
  have z: "Suc q2 mod nz d = 0 \<longleftrightarrow> \<not> Suc q2 < nz d" using q2 by (cases "Suc q2 = nz d") auto
  note R = r1_def [symmetric] r2_def [symmetric] q_def [symmetric] q1_def [symmetric] q2_def [symmetric]
  note K = kmu_advance_def advance_origin_def Let_def i_def [symmetric] g_def [symmetric] c_def [symmetric] n_def [symmetric]
  note G = walk_at_def unat3_def offset_at_def cluster_at_def clusters_before_def d_def [symmetric] L
  consider (x) "Suc r mod cx d \<noteq> 0"
    | (y) "Suc r mod cx d = 0" "Suc r1 mod cy d \<noteq> 0"
    | (z) "Suc r mod cx d = 0" "Suc r1 mod cy d = 0" "Suc r2 mod cz d \<noteq> 0"
    | (ox) "Suc r mod cx d = 0" "Suc r1 mod cy d = 0" "Suc r2 mod cz d = 0" "Suc q mod nx d \<noteq> 0"
    | (oy) "Suc r mod cx d = 0" "Suc r1 mod cy d = 0" "Suc r2 mod cz d = 0" "Suc q mod nx d = 0" "Suc q1 mod ny d \<noteq> 0"
    | (oz) "Suc r mod cx d = 0" "Suc r1 mod cy d = 0" "Suc r2 mod cz d = 0" "Suc q mod nx d = 0" "Suc q1 mod ny d = 0"
    by blast
  then show ?thesis
  proof cases
    case x
    then show ?thesis using X pos q2 run by (simp add: G K R)
  next
    case y
    then show ?thesis using X Y pos q2 run by (simp add: G K R)
  next
    case z
    then show ?thesis using X Y Z pos q2 run by (simp add: G K R)
  next
    case ox
    then show ?thesis using X Y Z OX pos q2 run by (simp add: G K R)
  next
    case oy
    then show ?thesis using X Y Z OX OY pos q2 run by (simp add: G K R)
  next
    case oz
    then show ?thesis using X Y Z OX OY OZ pos q2 run z by (simp add: G K R)
  qed
qed

subsection \<open>The sequence of requests\<close>

definition block_at :: "walk_dims \<Rightarrow> nat \<Rightarrow> nat \<times> nat \<times> nat" where
  "block_at d r = (case offset_at d r of (x, y, z) \<Rightarrow> case cluster_at d (clusters_before d r) of (X, Y, Z) \<Rightarrow>
     (X * cx d + x, Y * cy d + y, Z * cz d + z))"

definition rank_of :: "walk_dims \<Rightarrow> nat \<times> nat \<times> nat \<Rightarrow> nat" where
  "rank_of d b = (case b of (x, y, z) \<Rightarrow>
     x mod cx d + cx d * (y mod cy d + cy d * (z mod cz d + cz d *
       (x div cx d + nx d * (y div cy d + ny d * (z div cz d))))))"

definition grid_of :: "walk_dims \<Rightarrow> (nat \<times> nat \<times> nat) set" where
  "grid_of d = {..<nx d * cx d} \<times> {..<ny d * cy d} \<times> {..<nz d * cz d}"

abbreviation dims_pos :: "walk_dims \<Rightarrow> bool" where
  "dims_pos d \<equiv> 0 < cx d \<and> 0 < cy d \<and> 0 < cz d \<and> 0 < nx d \<and> 0 < ny d \<and> 0 < nz d"

lemma mult_add_less: "X < n \<Longrightarrow> x < c \<Longrightarrow> X * c + x < n * c" for c :: nat
proof -
  assume "X < n" "x < c"
  then have "X * c + x < Suc X * c" by simp
  also have "\<dots> \<le> n * c" using \<open>X < n\<close> by (intro mult_right_mono) simp_all
  finally show ?thesis .
qed

lemma block_at_grid: "dims_pos d \<Longrightarrow> r < walk_len d \<Longrightarrow> block_at d r \<in> grid_of d"
  by (auto simp: walk_len_iff block_at_def grid_of_def offset_at_def cluster_at_def clusters_before_def
      intro!: mult_add_less)

lemma rank_block:
  assumes "dims_pos d" "r < walk_len d"
  shows "rank_of d (block_at d r) = r"
proof -
  define r1 where "r1 = r div cx d" define r2 where "r2 = r1 div cy d" define q where "q = r2 div cz d"
  define q1 where "q1 = q div nx d" define q2 where "q2 = q1 div ny d"
  have "rank_of d (block_at d r) = r mod cx d + cx d * (r1 mod cy d + cy d * (r2 mod cz d + cz d *
      (q mod nx d + nx d * (q1 mod ny d + ny d * q2))))"
    using assms(1)
    by (simp add: rank_of_def block_at_def offset_at_def cluster_at_def clusters_before_def
        r1_def r2_def q_def q1_def q2_def)
  also have "q1 mod ny d + ny d * q2 = q1" by (simp add: q2_def)
  also have "q mod nx d + nx d * q1 = q" by (simp add: q1_def)
  also have "r2 mod cz d + cz d * q = r2" by (simp add: q_def)
  also have "r1 mod cy d + cy d * r2 = r1" by (simp add: r2_def)
  also have "r mod cx d + cx d * r1 = r" by (simp add: r1_def)
  finally show ?thesis .
qed

lemma block_at_bij:
  assumes "dims_pos d"
  shows "bij_betw (block_at d) {..<walk_len d} (grid_of d)"
proof -
  have i: "inj_on (block_at d) {..<walk_len d}"
    using rank_block [OF assms] by (metis (no_types, lifting) inj_on_inverseI lessThan_iff)
  have "block_at d ` {..<walk_len d} \<subseteq> grid_of d" using block_at_grid [OF assms] by auto
  moreover have "card (grid_of d) = walk_len d" by (simp add: grid_of_def walk_len_def ac_simps)
  moreover have "card (block_at d ` {..<walk_len d}) = walk_len d" using card_image [OF i] by simp
  moreover have "finite (grid_of d)" by (simp add: grid_of_def)
  ultimately have "block_at d ` {..<walk_len d} = grid_of d" by (metis card_subset_eq)
  with i show ?thesis by (simp add: bij_betw_def)
qed

text \<open>The cluster a block lies in, and that the walk stays in a cluster until it is done with it.\<close>

definition cluster_of :: "nat \<times> nat \<times> nat \<Rightarrow> nat \<times> nat \<times> nat \<Rightarrow> nat \<times> nat \<times> nat" where
  "cluster_of c b = (case c of (m, n, k) \<Rightarrow> case b of (x, y, z) \<Rightarrow> (x div m, y div n, z div k))"

definition is_origin :: "nat \<times> nat \<times> nat \<Rightarrow> nat \<times> nat \<times> nat \<Rightarrow> bool" where
  "is_origin c b = (case c of (m, n, k) \<Rightarrow> case b of (x, y, z) \<Rightarrow> m dvd x \<and> n dvd y \<and> k dvd z)"

lemma mixed_digit: "(x::nat) < c \<Longrightarrow> (X * c + x) div c = X" "x < c \<Longrightarrow> c dvd X * c + x \<longleftrightarrow> x = 0"
  by (simp_all add: dvd_eq_mod_eq_0)

lemma block_cluster:
  assumes "dims_pos d"
  shows "cluster_of (cx d, cy d, cz d) (block_at d r) = cluster_at d (clusters_before d r)"
    "is_origin (cx d, cy d, cz d) (block_at d r) \<longleftrightarrow> offset_at d r = (0, 0, 0)"
proof -
  obtain x y z X Y Z where o: "offset_at d r = (x, y, z)" and c: "cluster_at d (clusters_before d r) = (X, Y, Z)" by (metis prod_cases3)
  have "x < cx d" "y < cy d" "z < cz d" using o assms by (auto simp: offset_at_def)
  then show "cluster_of (cx d, cy d, cz d) (block_at d r) = cluster_at d (clusters_before d r)"
    "is_origin (cx d, cy d, cz d) (block_at d r) \<longleftrightarrow> offset_at d r = (0, 0, 0)"
    by (simp_all only: cluster_of_def is_origin_def block_at_def o c prod.case mixed_digit prod.inject)
qed

lemma cluster_at_inj:
  assumes "cluster_at d q = cluster_at d q'"
  shows "q = q'"
proof -
  have e: "q mod nx d = q' mod nx d" "q div nx d mod ny d = q' div nx d mod ny d" "q div nx d div ny d = q' div nx d div ny d"
    using assms by (simp_all add: cluster_at_def)
  have "q div nx d = q' div nx d" using e(2,3) by (metis mult_div_mod_eq)
  with e(1) show ?thesis by (metis mult_div_mod_eq)
qed

lemma same_cluster:
  assumes "dims_pos d"
  shows "cluster_of (cx d, cy d, cz d) (block_at d r) = cluster_of (cx d, cy d, cz d) (block_at d r') \<longleftrightarrow>
    r div (cx d * cy d * cz d) = r' div (cx d * cy d * cz d)"
proof -
  have "clusters_before d r = r div (cx d * cy d * cz d)" for r by (simp add: clusters_before_def div_mult2_eq)
  then show ?thesis unfolding block_cluster(1) [OF assms] by (auto dest: cluster_at_inj)
qed

text \<open>What request number \<open>r\<close> says.\<close>

definition request_at :: "walk_dims \<Rightarrow> kmu_req_t \<Rightarrow> nat \<Rightarrow> bool" where
  "request_at d q r \<longleftrightarrow> unat3 (req_block_idx q) = block_at d r \<and> req_cta_id q = of_nat r \<and>
     (is_first_of_cluster q \<longleftrightarrow> cx d * cy d * cz d dvd r)"

lemma offset_zero_iff:
  "dims_pos d \<Longrightarrow> offset_at d r = (0, 0, 0) \<longleftrightarrow> cx d * cy d * cz d dvd r"
proof -
  assume p: "dims_pos d"
  have "cx d * cy d * cz d dvd r \<longleftrightarrow> cx d dvd r \<and> cy d dvd r div cx d \<and> cz d dvd r div cx d div cy d"
    using p by (simp add: dvd_eq_mod_eq_0 mod_mult2_eq div_mult2_eq conj_ac)
  then show ?thesis by (simp add: offset_at_def dvd_eq_mod_eq_0)
qed

lemma request_walk:
  assumes ok: "dims_ok k" and w: "walk_at k r"
  shows "request_at (dims_of k) (kmu_request k) r"
proof -
  let ?d = "dims_of k"
  note ds = dims_okD [OF ok]
  have p: "dims_pos ?d" using ds by simp
  obtain x y z X Y Z where o3: "offset_at ?d r = (x, y, z)" and c: "cluster_at ?d (clusters_before ?d r) = (X, Y, Z)"
    by (metis prod_cases3)
  have len: "r < walk_len ?d" using w by (simp add: walk_at_def)
  have "block_at ?d r \<in> grid_of ?d" using p len by (rule block_at_grid)
  then have b: "X * cx ?d + x < unat (dim_x (kmu_grid_dim k))" "Y * cy ?d + y < unat (dim_y (kmu_grid_dim k))"
    "Z * cz ?d + z < unat (dim_z (kmu_grid_dim k))"
    using ds by (simp_all add: block_at_def o3 c grid_of_def)
  have e: "unat (dim_x (intra_offset k)) = x" "unat (dim_y (intra_offset k)) = y" "unat (dim_z (intra_offset k)) = z"
    "unat (dim_x (group_origin k)) = X * cx ?d" "unat (dim_y (group_origin k)) = Y * cy ?d" "unat (dim_z (group_origin k)) = Z * cz ?d"
    and id: "kmu_cta_id k = of_nat r"
    using w by (simp_all add: walk_at_def unat3_def o3 c)
  have "unat3 (req_block_idx (kmu_request k)) = block_at ?d r"
    using b e unat_u32_less [of "dim_x (kmu_grid_dim k)"] unat_u32_less [of "dim_y (kmu_grid_dim k)"]
      unat_u32_less [of "dim_z (kmu_grid_dim k)"]
    by (simp add: kmu_request_def unat3_def block_at_def o3 c unat_word_ariths)
  moreover have "is_first_of_cluster (kmu_request k) \<longleftrightarrow> (x, y, z) = (0, 0, 0)"
    using e by (simp add: kmu_request_def unsigned_eq_0_iff flip: e(1-3))
  ultimately show ?thesis using id offset_zero_iff [OF p, of r] o3 by (simp add: request_at_def kmu_request_def)
qed

lemma drain_walk:
  assumes "dims_ok k" "walk_at k r" "walk_len (dims_of k) - r \<le> n"
  shows "\<exists>rs k'. kmu_drain n k = (rs, k') \<and> \<not> kmu_running k' \<and>
    list_all2 (request_at (dims_of k)) rs [r ..< walk_len (dims_of k)]"
  using assms
proof (induction n arbitrary: k r)
  case 0
  then show ?case by (simp add: walk_at_def)
next
  case (Suc n)
  let ?N = "walk_len (dims_of k)"
  have r: "r < ?N" "kmu_running k" using Suc.prems(2) by (simp_all add: walk_at_def)
  have st: "kmu_step k = (Some (kmu_request k), kmu_advance k)" using r(2) by (simp add: kmu_step_def)
  have q: "request_at (dims_of k) (kmu_request k) r" using Suc.prems(1,2) by (rule request_walk)
  note s = walk_step [OF Suc.prems(1,2)]
  show ?case
  proof (cases "Suc r < ?N")
    case True
    moreover have "walk_len (dims_of k) - Suc r \<le> n" using Suc.prems(3) by simp
    ultimately obtain rs k' where "kmu_drain n (kmu_advance k) = (rs, k')" "\<not> kmu_running k'"
      "list_all2 (request_at (dims_of k)) rs [Suc r ..< ?N]"
      using Suc.IH [of "kmu_advance k" "Suc r"] Suc.prems s by auto
    with st q r(1) show ?thesis by (simp add: upt_conv_Cons)
  next
    case False
    then have "\<not> kmu_running (kmu_advance k)" "[r ..< ?N] = [r]" using s r(1) by (simp_all add: upt_conv_Cons)
    moreover from this(1) have "kmu_drain n (kmu_advance k) = ([], kmu_advance k)"
      by (cases n) (simp_all add: kmu_step_def)
    ultimately show ?thesis using st q by simp
  qed
qed

end
