(* ===== verification/Kmu_Props.thy ===== *)
theory Kmu_Props
  imports Kmu_Walk
begin

text \<open>
  The grid walk of the kernel management unit issues every block once and stops.
\<close>

subsection \<open>Every block of the grid once\<close>

definition covers_grid :: "dim3 \<Rightarrow> dim3 \<Rightarrow> kmu_req_t list \<Rightarrow> bool" where
  "covers_grid g c rs \<longleftrightarrow> length rs = unat (dim_x g) * unat (dim_y g) * unat (dim_z g) \<and>
    distinct (map (unat3 \<circ> req_block_idx) rs) \<and>
    set (map (unat3 \<circ> req_block_idx) rs) = {..<unat (dim_x g)} \<times> {..<unat (dim_y g)} \<times> {..<unat (dim_z g)} \<and>
    (\<forall>i < length rs. req_cta_id (rs ! i) = of_nat i \<and>
      (is_first_of_cluster (rs ! i) \<longleftrightarrow> unat (dim_x c) * unat (dim_y c) * unat (dim_z c) dvd i) \<and>
      (is_first_of_cluster (rs ! i) \<longleftrightarrow> is_origin (unat3 c) (unat3 (req_block_idx (rs ! i))))) \<and>
    (\<forall>i < length rs. \<forall>j < length rs.
      cluster_of (unat3 c) (unat3 (req_block_idx (rs ! i))) = cluster_of (unat3 c) (unat3 (req_block_idx (rs ! j))) \<longleftrightarrow>
      i div (unat (dim_x c) * unat (dim_y c) * unat (dim_z c)) = j div (unat (dim_x c) * unat (dim_y c) * unat (dim_z c)))"

lemma drain_covers_grid:
  assumes "dims_ok k" "0 < kmu_block_size k"
    and n: "unat (dim_x (kmu_grid_dim k)) * unat (dim_y (kmu_grid_dim k)) * unat (dim_z (kmu_grid_dim k)) \<le> n"
  shows "\<exists>rs k'. kmu_drain n (kmu_start k) = (rs, k') \<and> \<not> kmu_running k' \<and>
    covers_grid (kmu_grid_dim k) (kmu_cluster_dim k) rs"
proof -
  let ?d = "dims_of k" and ?N = "walk_len (dims_of k)" and ?g = "kmu_grid_dim k"
  note st = walk_start [OF assms(1,2)] and ds = dims_okD [OF assms(1)]
  have N: "?N = unat (dim_x ?g) * unat (dim_y ?g) * unat (dim_z ?g)" using ds(7-9) by (simp add: walk_len_def ac_simps)
  have ok: "dims_ok (kmu_start k)" using assms(1) by (simp add: dims_ok_def kmu_start_def Let_def)
  obtain rs k' where r: "kmu_drain n (kmu_start k) = (rs, k')" "\<not> kmu_running k'" "list_all2 (request_at ?d) rs [0 ..< ?N]"
    using drain_walk [OF ok st(1), of n] n N st(2) by auto
  have len: "length rs = ?N" using list_all2_lengthD [OF r(3)] by simp
  have at: "request_at ?d (rs ! i) i" if "i < ?N" for i
    using list_all2_nthD [OF r(3), of i] that len by simp
  have m: "map (unat3 \<circ> req_block_idx) rs = map (block_at ?d) [0 ..< ?N]"
    by (rule nth_equalityI) (use at len in \<open>auto simp: request_at_def\<close>)
  have p: "dims_pos ?d" using ds by simp
  have b: "inj_on (block_at ?d) {..<?N}" "block_at ?d ` {..<?N} = grid_of ?d"
    using block_at_bij [OF p] by (simp_all add: bij_betw_def)
  let ?c = "kmu_cluster_dim k"
  have c: "(cx ?d, cy ?d, cz ?d) = unat3 ?c" "cx ?d * cy ?d * cz ?d = unat (dim_x ?c) * unat (dim_y ?c) * unat (dim_z ?c)"
    by (simp_all add: dims_of_def Let_def unat3_def)
  have f1: "distinct (map (unat3 \<circ> req_block_idx) rs)" unfolding m using b(1) by (simp add: distinct_map atLeast0LessThan)
  have "set (map (unat3 \<circ> req_block_idx) rs) = grid_of ?d" unfolding m using b(2) by (simp add: atLeast0LessThan)
  then have f2: "set (map (unat3 \<circ> req_block_idx) rs) = {..<unat (dim_x ?g)} \<times> {..<unat (dim_y ?g)} \<times> {..<unat (dim_z ?g)}"
    unfolding grid_of_def ds(7-9) .
  have f3: "\<forall>i < length rs. req_cta_id (rs ! i) = of_nat i \<and> (is_first_of_cluster (rs ! i) \<longleftrightarrow> cx ?d * cy ?d * cz ?d dvd i) \<and>
      (is_first_of_cluster (rs ! i) \<longleftrightarrow> is_origin (cx ?d, cy ?d, cz ?d) (unat3 (req_block_idx (rs ! i))))"
    using at len block_cluster(2) [OF p] offset_zero_iff [OF p] by (simp add: request_at_def)
  have f4: "\<forall>i < length rs. \<forall>j < length rs.
      cluster_of (cx ?d, cy ?d, cz ?d) (unat3 (req_block_idx (rs ! i))) = cluster_of (cx ?d, cy ?d, cz ?d) (unat3 (req_block_idx (rs ! j))) \<longleftrightarrow>
      i div (cx ?d * cy ?d * cz ?d) = j div (cx ?d * cy ?d * cz ?d)"
    using at len same_cluster [OF p] by (simp add: request_at_def)
  have "covers_grid ?g ?c rs"
    unfolding covers_grid_def by (intro conjI len [unfolded N] f1 f2 f3 [unfolded c] f4 [unfolded c])
  with r(1,2) show ?thesis by blast
qed

subsection \<open>Properties\<close>

text \<open>The kernel of the witnesses: a grid of 4 x 6 x 2 blocks in clusters of 2 x 3 x 1.\<close>

definition small_kernel :: kmu where
  "small_kernel = kmu_new\<lparr>kmu_block_size := 64, kmu_grid_dim := dim3_of 4 6 2, kmu_cluster_dim := dim3_of 2 3 1\<rparr>"

lemma small_kernel_ok: "dims_ok small_kernel" "0 < kmu_block_size small_kernel"
  by (simp_all add: small_kernel_def kmu_new_def dims_ok_def)

text \<open>C4. The grid walk: when every cluster dimension divides its grid dimension, a started unit
  issues every block of the grid exactly once, and the CTA ids count up from zero. The walk goes
  cluster by cluster: two requests are for blocks of the same cluster exactly when they fall into
  the same run of as many requests as a cluster has blocks, and a request is marked as the first of
  its cluster exactly when it opens such a run, which is when its block is the origin of the
  cluster. After the last block the unit stops.\<close>

theorem kmu_walk_complete:
  assumes "dims_ok k" "0 < kmu_block_size k"
    and "unat (dim_x (kmu_grid_dim k)) * unat (dim_y (kmu_grid_dim k)) * unat (dim_z (kmu_grid_dim k)) \<le> n"
  shows "\<exists>rs k'. kmu_drain n (kmu_start k) = (rs, k') \<and> \<not> kmu_running k' \<and>
    covers_grid (kmu_grid_dim k) (kmu_cluster_dim k) rs"
  using assms by (rule drain_covers_grid)

lemma kmu_walk_complete_witness:
  "\<exists>rs k'. kmu_drain 48 (kmu_start small_kernel) = (rs, k') \<and> \<not> kmu_running k' \<and> length rs = 48"
  using kmu_walk_complete [OF small_kernel_ok, of 48]
  by (auto simp: small_kernel_def kmu_new_def covers_grid_def)

end
