(* ===== verification/Scheduler_Props.thy ===== *)
theory Scheduler_Props
  imports Scheduler_Inv Kmu_Props
begin

text \<open>
  Runs of the scheduler of a core: the operations the rest of the core performs on it, when it
  performs them, and what holds in every state that such a run reaches.
\<close>

subsection \<open>Runs of the scheduler\<close>

datatype sched_op =
    Cycle "bool list"
  | Reset
  | Kmu_Changes kmu
  | Resume nat
  | SetTmask nat "bool list"
  | Wspawn u32 u64
  | AdvancePc trace_hdr u32
  | Ecall nat u64
  | Ebreak nat u64
  | AsyncTrap nat u64 u64 "bool list" u64 "nat list"
  | Mret nat u64
  | FwdArm u64 u64
  | FwdPush fwd_wave
  | FwdDrained
  | FwdRequest
  | FwdResponse
  | FwdDisarm

fun sched_exec :: "vx_cfg \<Rightarrow> u32 \<Rightarrow> sched_op \<Rightarrow> sched \<times> kmu \<Rightarrow> (sched \<times> kmu) option" where
  "sched_exec c cid (Cycle m) (S, k) = map_option snd (schedule c cid S k m)"
| "sched_exec c cid Reset (S, k) = Some (sched_on_reset c S, kmu_on_reset k)"
| "sched_exec c cid (Kmu_Changes k') (S, k) = Some (S, k')"
| "sched_exec c cid (Resume w) (S, k) = map_option (\<lambda>S. (S, k)) (resume S w)"
| "sched_exec c cid (SetTmask w tm) (S, k) = map_option (\<lambda>(r, S). (S, k)) (setTmask c S w tm)"
| "sched_exec c cid (Wspawn n pc) (S, k) = Some (snd (wspawn c S n pc), k)"
| "sched_exec c cid (AdvancePc t n) (S, k) = map_option (\<lambda>S. (S, k)) (advance_pc S t n)"
| "sched_exec c cid (Ecall w pc) (S, k) = map_option (\<lambda>S. (S, k)) (trigger_ecall S w pc)"
| "sched_exec c cid (Ebreak w pc) (S, k) = map_option (\<lambda>S. (S, k)) (trigger_ebreak S w pc)"
| "sched_exec c cid (AsyncTrap w cause pc tm fl sn) (S, k) = map_option (\<lambda>S. (S, k)) (raise_async_trap S w cause pc tm fl sn)"
| "sched_exec c cid (Mret w cyc) (S, k) = map_option (\<lambda>(r, S). (S, k)) (mret S w cyc)"
| "sched_exec c cid (FwdArm e p) (S, k) = Some (fwd_arm S e p, k)"
| "sched_exec c cid (FwdPush v) (S, k) = Some (fwd_push_wave S v, k)"
| "sched_exec c cid FwdDrained (S, k) = Some (fwd_mark_drained S, k)"
| "sched_exec c cid FwdRequest (S, k) = Some (fwd_on_request S, k)"
| "sched_exec c cid FwdResponse (S, k) = Some (fwd_on_response S, k)"
| "sched_exec c cid FwdDisarm (S, k) = Some (fwd_disarm S, k)"

text \<open>
  When the pipeline performs an operation. A warp that waits for its stalling instruction is the
  only one to be resumed or to have its threads changed, and the warp that issued a \<open>wspawn\<close>, warp 0,
  stays parked until the scheduler has processed it. A thread mask has one bit per thread, the mask
  of a callback and of a fragment wave is not empty. The raster unit arms a distributor that is not
  armed, and the special function unit disarms one that is done.
\<close>

fun sched_allowed :: "vx_cfg \<Rightarrow> sched \<Rightarrow> sched_op \<Rightarrow> bool" where
  "sched_allowed c S (Resume w) \<longleftrightarrow> w < unat (num_warps c) \<and> active_warps S ! w \<and> stalled_warps_next S ! w \<and>
     (w = 0 \<longrightarrow> \<not> wspawn_valid S)"
| "sched_allowed c S (SetTmask w tm) \<longleftrightarrow> w < unat (num_warps c) \<and> active_warps S ! w \<and> length tm = unat (num_threads c) \<and>
     (w = 0 \<longrightarrow> \<not> wspawn_valid S)"
| "sched_allowed c S (Wspawn n pc) \<longleftrightarrow> active_warps S ! 0 \<and> stalled_warps_next S ! 0"
| "sched_allowed c S (AdvancePc t n) \<longleftrightarrow> tr_wid t < unat (num_warps c)"
| "sched_allowed c S (Ecall w pc) \<longleftrightarrow> w < unat (num_warps c)"
| "sched_allowed c S (Ebreak w pc) \<longleftrightarrow> w < unat (num_warps c)"
| "sched_allowed c S (AsyncTrap w cause pc tm fl sn) \<longleftrightarrow> w < unat (num_warps c) \<and> active_warps S ! w \<and>
     length tm = unat (num_threads c) \<and> many tm \<and> (w = 0 \<longrightarrow> \<not> wspawn_valid S)"
| "sched_allowed c S (Mret w cyc) \<longleftrightarrow> w < unat (num_warps c)"
| "sched_allowed c S (FwdArm e p) \<longleftrightarrow> \<not> fwd_armed S"
| "sched_allowed c S (FwdPush v) \<longleftrightarrow> length (wave_tmask v) = unat (num_threads c) \<and> many (wave_tmask v)"
| "sched_allowed c S FwdDisarm \<longleftrightarrow> fwd_done S"
| "sched_allowed c S (Kmu_Changes k) \<longleftrightarrow> kmu_ok c k"
| "sched_allowed c S _ \<longleftrightarrow> True"

inductive sched_reach :: "vx_cfg \<Rightarrow> u32 \<Rightarrow> warp_t \<Rightarrow> sched \<times> kmu \<Rightarrow> bool" for c cid w where
  init: "sched_reach c cid w (sched_new c w n pc, kmu_new)"
| step: "sched_reach c cid w (S, k) \<Longrightarrow> sched_allowed c S op \<Longrightarrow> sched_exec c cid op (S, k) = Some s' \<Longrightarrow>
    sched_reach c cid w s'"

definition cfg_ok :: "vx_cfg \<Rightarrow> bool" where
  "cfg_ok c \<longleftrightarrow> 0 < unat (num_warps c) \<and> unat (num_warps c) \<le> MAX_NUM_WARPS \<and> 0 < unat (num_threads c)"

definition warp_ok :: "vx_cfg \<Rightarrow> warp_t \<Rightarrow> bool" where
  "warp_ok c w \<longleftrightarrow> length (tmask w) = unat (num_threads c) \<and> length (mscratch_tmask w) = unat (num_threads c)"

lemma sched_exec_inv:
  assumes i: "sched_inv c S" "kmu_ok c k" and a: "sched_allowed c S op"
  shows "\<exists>S' k'. sched_exec c cid op (S, k) = Some (S', k') \<and> sched_inv c S' \<and> kmu_ok c k'"
proof (cases op)
  case (Cycle m)
  from i obtain t S' k' where "schedule c cid S k m = Some (t, S', k')" "sched_inv c S'" "kmu_ok c k'" by (rule schedule_inv)
  with Cycle show ?thesis by simp
next
  case Reset
  with i sched_inv_reset [OF i(1)] show ?thesis by (simp add: kmu_ok_def kmu_on_reset_def)
next
  case (Resume w)
  then show ?thesis using i(2) a resume_inv [OF i(1), of w] by simp
next
  case (SetTmask w tm)
  show ?thesis
  proof (cases "many tm")
    case True
    with SetTmask i(2) a setTmask_run [OF i(1), of w tm] show ?thesis by simp
  next
    case False
    then have tm: "tm = replicate (unat (num_threads c)) False" using SetTmask a by (intro replicate_False) simp_all
    from SetTmask a have w: "w < unat (num_warps c)" "w = 0 \<Longrightarrow> \<not> wspawn_valid S" by simp_all
    from i(1) w tm obtain S' where "setTmask c S w tm = Some (False, S')" "sched_inv c S'" by (rule setTmask_exit)
    with SetTmask i(2) show ?thesis by simp
  qed
next
  case (Wspawn n pc)
  then show ?thesis using i a wspawn_keeps [OF i(1), of n pc] by simp
next
  case (AdvancePc t n)
  with a have "tr_wid t < unat (num_warps c)" by simp
  with i(1) obtain S' where "advance_pc S t n = Some S'" "sched_inv c S'" by (rule advance_pc_inv)
  with AdvancePc i(2) show ?thesis by simp
next
  case (Ecall w pc)
  with a have "w < unat (num_warps c)" by simp
  with i(1) obtain S' where "raise_trap S w TRAP_CAUSE_ECALL_MMODE pc = Some S'" "sched_inv c S'" by (rule raise_trap_inv)
  with Ecall i(2) show ?thesis by (simp add: trigger_ecall_def)
next
  case (Ebreak w pc)
  with a have "w < unat (num_warps c)" by simp
  with i(1) obtain S' where "raise_trap S w TRAP_CAUSE_BREAKPOINT pc = Some S'" "sched_inv c S'" by (rule raise_trap_inv)
  with Ebreak i(2) show ?thesis by (simp add: trigger_ebreak_def)
next
  case (AsyncTrap w cause pc tm fl sn)
  with a have w: "w < unat (num_warps c)" "active_warps S ! w" "w = 0 \<Longrightarrow> \<not> wspawn_valid S"
    "length tm = unat (num_threads c)" "many tm" by simp_all
  from i(1) w obtain S' where "raise_async_trap S w cause pc tm fl sn = Some S'" "sched_inv c S'" by (rule raise_async_trap_inv)
  with AsyncTrap i(2) show ?thesis by simp
next
  case (Mret w cyc)
  with a have "w < unat (num_warps c)" by simp
  with i(1) obtain sn S' where "mret S w cyc = Some (sn, S')" "sched_inv c S'" by (rule mret_inv)
  with Mret i(2) show ?thesis by simp
qed (use i a fwd_arm_inv fwd_push_wave_inv fwd_flags_inv [OF i(1)] in \<open>simp_all\<close>)

lemma sched_reach_inv:
  assumes "cfg_ok c" "warp_ok c w" "sched_reach c cid w s"
  shows "sched_inv c (fst s) \<and> kmu_ok c (snd s)"
  using assms(3)
proof induction
  case (init n pc)
  then show ?case using assms(1,2) by (auto simp: cfg_ok_def warp_ok_def kmu_ok_def kmu_new_def intro: sched_inv_new)
next
  case (step S k op s')
  then show ?case using sched_exec_inv [of c S k op cid] by auto
qed

subsection \<open>No deadlock of the dispatch\<close>

lemma idle_slots_free:
  assumes "cta_inv c D" "slots_active c D (\<lambda>w. False)" "\<not> has_cta D" "i < unat (num_warps c)"
  shows "slot_rem_warps D ! i = 0"
proof -
  have nw: "i < 2 ^ 32" using assms(4) unat_u32_less [of "num_warps c"] by simp
  then have s: "(of_nat i :: u32) < num_warps c" "unat (of_nat i :: u32) = i"
    using assms(4) by (simp_all add: word_less_nat_alt unat_of_nat_u32)
  have "of_nat i \<notin> set (wid_to_slot D)" using assms(1,2) s(1) by (auto simp: cta_inv_def slots_active_def in_set_conv_nth)
  then have "count_list (wid_to_slot D) (of_nat i) = 0" by (simp add: count_list_0_iff)
  then have "unat (slot_rem_warps D ! i) = 0" using assms(1,3) s by (force simp: cta_inv_def pending_warps_def)
  then show ?thesis by (metis unat_eq_zero)
qed

lemma idle_core_steps:
  assumes i: "cta_inv c D" "slots_active c D (\<lambda>w. False)" "kmu_ok c k" "cta_running D k"
  obtains w out D' k' where "cta_step c D k (\<lambda>w. False) = Some (Some (w, out), D', k')" "w < unat (num_warps c)"
proof (rule cta_step_inv [OF i(1-3)])
  assume "free_warp c (\<lambda>w. False) = None \<or> \<not> cta_running D k \<or>
      \<not> has_cta D \<and> (\<exists>i < unat (num_warps c). slot_rem_warps D ! i \<noteq> 0)"
  moreover have "free_warp c (\<lambda>w. False) \<noteq> None" using i(1) by (auto simp: free_warp_def find_None_iff cta_inv_def)
  ultimately show thesis using i(4) idle_slots_free [OF i(1,2)] by blast
qed (use that in blast)

subsection \<open>Active warps stay active within a cycle\<close>

definition still_active :: "sched \<Rightarrow> sched \<Rightarrow> bool" where
  "still_active S S' \<longleftrightarrow> length (active_warps S') = length (active_warps S) \<and>
     (\<forall>w < length (active_warps S). active_warps S ! w \<longrightarrow> active_warps S' ! w)"

lemma still_active_refl: "active_warps S' = active_warps S \<Longrightarrow> still_active S S'"
  and still_active_trans: "still_active S T \<Longrightarrow> still_active T U \<Longrightarrow> still_active S U"
  and still_active_set: "active_warps S' = (active_warps S)[w := True] \<Longrightarrow> still_active S S'"
  by (auto simp: still_active_def) (metis nth_list_update nth_list_update_neq)

lemma activate_warp_active: "activate_warp S w r = Some S' \<Longrightarrow> active_warps S' = (active_warps S)[w := True] \<and> w < length (active_warps S)"
  by (auto simp: activate_warp_def Let_def bind_eq_Some_conv lset_eq_Some)

lemma fwd_try_inject_active: "fwd_try_inject c pc v S = Some S' \<Longrightarrow> still_active S S'"
proof (induction v arbitrary: S)
  case (Cons v vs)
  show ?case
  proof (cases "free_warp c (\<lambda>w. active_warps S ! w)")
    case (Some w)
    with Cons.prems obtain T ws f where T: "activate_warp S w (fwd_record c S pc w v) = Some T"
      "fwd_try_inject c pc vs (T\<lparr>warps := ws, fwd_is_fragment := f, fwd_launched := fwd_launched T + 1\<rparr>) = Some S'"
      by (auto simp: bind_eq_Some_conv)
    have "still_active (T\<lparr>warps := ws, fwd_is_fragment := f, fwd_launched := fwd_launched T + 1\<rparr>) S'"
      by (rule Cons.IH [OF T(2)])
    moreover have "still_active S (T\<lparr>warps := ws, fwd_is_fragment := f, fwd_launched := fwd_launched T + 1\<rparr>)"
      using activate_warp_active [OF T(1)] by (intro still_active_set [of _ _ w]) simp
    ultimately show ?thesis by (rule still_active_trans [rotated])
  qed (use Cons.prems in \<open>auto intro: still_active_refl\<close>)
qed (auto intro: still_active_refl)

lemma spawn_warps_active: "spawn_warps pc ms is S = Some S' \<Longrightarrow> still_active S S'"
proof (induction "is" arbitrary: S)
  case (Cons i "is")
  from Cons.prems obtain ws s n where T: "spawn_warps pc ms is (S\<lparr>warps := ws, active_warps := (active_warps S)[i := True],
      stalled_warps := s, stalled_warps_next := n\<rparr>) = Some S'" by (auto simp: bind_eq_Some_conv lset_eq_Some)
  show ?case by (rule still_active_trans [OF _ Cons.IH [OF T]]) (rule still_active_set [of _ _ i], simp)
qed (auto intro: still_active_refl)

lemma resume_active: "resume S w = Some S' \<Longrightarrow> active_warps S' = active_warps S"
  by (auto simp: resume_def bind_eq_Some_conv)

lemma process_wspawn_active: "process_wspawn S = Some S' \<Longrightarrow> still_active S S'"
  unfolding process_wspawn_def
  by (auto simp: bind_eq_Some_conv split: if_splits intro: still_active_refl dest!: spawn_warps_active resume_active)
     (simp add: still_active_def)

lemma fetch_warp_active: "fetch_warp c cid S w = Some (t, S') \<Longrightarrow> active_warps S' = active_warps S"
  by (auto simp: fetch_warp_def suspend_def bind_eq_Some_conv Let_def)

lemma schedule_active:
  assumes "schedule c cid S k m = Some (t, S', k')" "dispatch_cta c S k = Some (T, k'')"
  shows "still_active T S'"
proof -
  obtain U V W where u: "(if fwd_armed T then fwd_try_inject c (kmu_PC k'') (fwd_waves T) T else Some T) = Some U"
    "process_wspawn U = Some V" "(case pick_warp c V m of None \<Rightarrow> Some (None, V)
      | Some wid \<Rightarrow> do { (t, S) \<leftarrow> fetch_warp c cid V wid; Some (Some t, S) }) = Some (t, W)"
    "S' = W\<lparr>stalled_warps := stalled_warps_next W\<rparr>"
    using assms unfolding schedule_def by (auto simp: bind_eq_Some_conv)
  have "still_active T U" using u(1) by (auto split: if_splits intro: fwd_try_inject_active still_active_refl)
  moreover have "still_active U V" using u(2) by (rule process_wspawn_active)
  moreover have "still_active V S'" using u(3,4)
    by (intro still_active_refl) (auto simp: bind_eq_Some_conv split: option.splits dest: fetch_warp_active)
  ultimately show ?thesis using still_active_trans by blast
qed

subsection \<open>Concrete runs\<close>

text \<open>A core of four warps of four threads, its first kernel, and its first fragment wave.\<close>

definition cfg4 :: vx_cfg where
  "cfg4 = \<lparr>num_threads = 4, num_warps = 4, num_barriers = 8, num_cores = 1, num_clusters = 1, lmem_base = 0xFFFF0000,
     lmem_capacity = 16384, mem_block_size = 64\<rparr>"

definition warp4 :: warp_t where
  "warp4 = warp_new 0 (replicate 4 \<lparr>frag_pos = 0, frag_pid = 0\<rparr>) 4"

lemma cfg4_ok: "cfg_ok cfg4" "warp_ok cfg4 warp4"
  by (simp_all add: cfg_ok_def warp_ok_def cfg4_def warp4_def warp_new_def MAX_NUM_WARPS_def)

lemma small_kernel_reach: "sched_reach cfg4 0 warp4 (sched_new cfg4 warp4 0 0, kmu_start small_kernel)"
proof (rule sched_reach.step [OF sched_reach.init [of cfg4 0 warp4 0 0], of "Kmu_Changes (kmu_start small_kernel)"])
  show "sched_allowed cfg4 (sched_new cfg4 warp4 0 0) (Kmu_Changes (kmu_start small_kernel))"
    by (simp add: kmu_ok_def req_ok_def kmu_request_def kmu_start_def small_kernel_def kmu_new_def cfg4_def Let_def)
qed simp

definition wave4 :: fwd_wave where
  "wave4 = \<lparr>wave_tmask = replicate 4 True, wave_payload = replicate 4 \<lparr>frag_pos = 0x80000000, frag_pid = 1\<rparr>\<rparr>"

definition armed4 :: sched where
  "armed4 = fwd_push_wave (fwd_arm (sched_new cfg4 warp4 0 0) 0x80000100 0x1000) wave4"

definition frag4 :: sched where
  "frag4 = (case schedule cfg4 0 armed4 kmu_new (replicate 64 True) of Some (t, S, k) \<Rightarrow> S | None \<Rightarrow> armed4)"

lemma frag4: "schedule cfg4 0 armed4 kmu_new (replicate 64 True) \<noteq> None \<and> active_warps frag4 ! 0 \<and> \<not> wspawn_valid frag4"
  by code_simp

lemma frag4_reach: "\<exists>k. sched_reach cfg4 0 warp4 (frag4, k)"
proof -
  obtain t S k where s: "schedule cfg4 0 armed4 kmu_new (replicate 64 True) = Some (t, S, k)"
    using frag4 by (metis not_None_eq prod_cases3)
  have "sched_reach cfg4 0 warp4 (fwd_arm (sched_new cfg4 warp4 0 0) 0x80000100 0x1000, kmu_new)"
    by (rule sched_reach.step [OF sched_reach.init [of cfg4 0 warp4 0 0], of "FwdArm 0x80000100 0x1000"])
       (simp_all add: sched_new_def Let_def)
  then have "sched_reach cfg4 0 warp4 (armed4, kmu_new)"
    by (rule sched_reach.step [where op = "FwdPush wave4"]) (simp_all add: armed4_def wave4_def cfg4_def many_def)
  then have "sched_reach cfg4 0 warp4 (S, k)"
    by (rule sched_reach.step [where op = "Cycle (replicate 64 True)"]) (simp_all add: s)
  moreover have "frag4 = S" by (simp add: frag4_def s)
  ultimately show ?thesis by blast
qed

lemma drained_reach: "sched_reach cfg4 0 warp4 (fwd_mark_drained (fwd_arm (sched_new cfg4 warp4 0 0) 0 0), kmu_new)"
  by (rule sched_reach.step [OF sched_reach.step [OF sched_reach.init [of cfg4 0 warp4 0 0], of "FwdArm 0 0"], of _ _ FwdDrained])
     (simp_all add: sched_new_def Let_def)

subsection \<open>Properties\<close>

text \<open>
  C2. The scheduler never fails an assertion and never reads outside its tables: in every state
  reached from construction by operations the pipeline may perform, every operation it may perform
  returns. In those states a warp that runs has a thread that runs, every warp that holds a slot of
  the CTA dispatcher is active, and the remaining count of each slot is the number of warps that
  hold it plus the warps of the current CTA still to be handed out.
\<close>

theorem sched_safe:
  assumes "cfg_ok c" "warp_ok c w0" "sched_reach c cid w0 (S, k)"
  shows "(\<forall>op. sched_allowed c S op \<longrightarrow> sched_exec c cid op (S, k) \<noteq> None) \<and>
    (\<forall>w < MAX_NUM_WARPS. active_warps S ! w \<longrightarrow> w < unat (num_warps c) \<and> many (tmask (warps S ! w))) \<and>
    (\<forall>w < unat (num_warps c). wid_to_slot (cta_disp S) ! w < num_warps c \<longrightarrow> active_warps S ! w) \<and>
    (\<forall>s < num_warps c. unat (slot_rem_warps (cta_disp S) ! unat s) =
       count_list (wid_to_slot (cta_disp S)) s + pending_warps (cta_disp S) s)"
proof (intro conjI)
  have i: "sched_inv c S" "kmu_ok c k" using sched_reach_inv [OF assms] by simp_all
  show "\<forall>op. sched_allowed c S op \<longrightarrow> sched_exec c cid op (S, k) \<noteq> None"
    using sched_exec_inv [OF i, where cid = cid] by (metis option.distinct(1))
  show "\<forall>w < MAX_NUM_WARPS. active_warps S ! w \<longrightarrow> w < unat (num_warps c) \<and> many (tmask (warps S ! w))"
    using i(1) by (simp add: sched_inv_def masks_inv_def)
  show "\<forall>w < unat (num_warps c). wid_to_slot (cta_disp S) ! w < num_warps c \<longrightarrow> active_warps S ! w"
    using sched_inv_cta(2) [OF i(1)] by (simp add: slots_active_def)
  show "\<forall>s < num_warps c. unat (slot_rem_warps (cta_disp S) ! unat s) =
      count_list (wid_to_slot (cta_disp S)) s + pending_warps (cta_disp S) s"
    using sched_inv_cta(1) [OF i(1)] by (simp add: cta_inv_def)
qed

theorem sched_safe_witness:
  "sched_exec cfg4 0 (Cycle (replicate 64 True)) (sched_new cfg4 warp4 0 0, kmu_new) \<noteq> None"
  using sched_safe [OF cfg4_ok sched_reach.init [of cfg4 0 warp4 0 0], THEN conjunct1, rule_format,
      of "Cycle (replicate 64 True)"] by simp

text \<open>
  C11. An idle core with work to do makes progress: when no warp runs and the dispatcher still has a
  CTA, a pending one, or more to fetch from the kernel management unit, the next cycle activates a
  warp. In particular a cluster that does not fit the core never blocks it.
\<close>

theorem idle_core_dispatches:
  assumes "cfg_ok c" "warp_ok c w0" "sched_reach c cid w0 (S, k)"
    and idle: "\<not> many (active_warps S)" and work: "cta_running (cta_disp S) k"
  shows "\<exists>t S' k'. schedule c cid S k m = Some (t, S', k') \<and> many (active_warps S')"
proof -
  have i: "sched_inv c S" "kmu_ok c k" using sched_reach_inv [OF assms(1-3)] by simp_all
  from i obtain t S' k' where s: "schedule c cid S k m = Some (t, S', k')" by (rule schedule_inv)
  have "\<forall>w < unat (num_warps c). \<not> active_warps S ! w" using idle i(1) by (auto simp: many_iff dest: sched_inv_lengths(2))
  then have sa: "slots_active c (cta_disp S) (\<lambda>w. False)" and fw: "free_warp c (\<lambda>w. active_warps S ! w) = free_warp c (\<lambda>w. False)"
    using sched_inv_cta(2) [OF i(1)] by (auto simp: slots_active_def free_warp_def intro!: find_cong)
  from sched_inv_cta(1) [OF i(1)] sa i(2) work obtain w out D k1
    where st: "cta_step c (cta_disp S) k (\<lambda>w. False) = Some (Some (w, out), D, k1)" by (rule idle_core_steps)
  then have "cta_step c (cta_disp S) k (\<lambda>w. active_warps S ! w) = Some (Some (w, out), D, k1)"
    unfolding cta_step_def fw .
  moreover obtain T k2 where T: "dispatch_cta c S k = Some (T, k2)" using i by (blast elim: dispatch_cta_inv)
  ultimately have "activate_warp (S\<lparr>cta_disp := D\<rparr>) w out = Some T" by (auto simp: dispatch_cta_def bind_eq_Some_conv)
  then have "w < length (active_warps T)" "active_warps T ! w" by (auto dest!: activate_warp_active)
  then have "many (active_warps S')" using schedule_active [OF s T] by (auto simp: still_active_def many_iff)
  with s show ?thesis by blast
qed

theorem idle_core_dispatches_witness:
  "\<exists>t S' k'. schedule cfg4 0 (sched_new cfg4 warp4 0 0) (kmu_start small_kernel) (replicate 64 True) = Some (t, S', k') \<and>
     many (active_warps S')"
proof (rule idle_core_dispatches [OF cfg4_ok small_kernel_reach])
  show "\<not> many (active_warps (sched_new cfg4 warp4 0 0))" by (simp add: sched_new_def Let_def many_def)
  show "cta_running (cta_disp (sched_new cfg4 warp4 0 0)) (kmu_start small_kernel)"
    by (simp add: cta_running_def kmu_start_def small_kernel_def kmu_new_def Let_def)
qed

text \<open>
  C30. An asynchronous trap and the return from it: the handler runs with the threads of the callback
  and the warp is not stalled; the return resumes the interrupted program at the first flushed
  instruction, or at the given one if none was flushed, with the threads it had, and gives the
  scoreboard back the reservations that were lifted. Fetches from before the trap are recognised by
  their epoch and do not advance the program counter.
\<close>

theorem async_trap_mret:
  assumes "cfg_ok c" "warp_ok c w0" "sched_reach c cid w0 (S, k)" "sched_allowed c S (AsyncTrap w cause pc tm fl sn)"
  shows "\<exists>S' S''. raise_async_trap S w cause pc tm fl sn = Some S' \<and> tmask (warps S' ! w) = tm \<and>
    \<not> stalled_warps_next S' ! w \<and> in_async_trap S' ! w \<and>
    (\<forall>t n. tr_wid t = w \<longrightarrow> tr_trap_epoch t = trap_epoch S ! w \<longrightarrow> advance_pc S' t n = Some S') \<and>
    mret S' w cyc = Some (sn, S'') \<and> wPC (warps S'' ! w) = (if fl = 0 then pc else fl) \<and>
    tmask (warps S'' ! w) = tmask (warps S ! w) \<and> \<not> in_async_trap S'' ! w"
proof -
  have i: "sched_inv c S" using sched_reach_inv [OF assms(1-3)] by simp
  have w: "w < unat (num_warps c)" "active_warps S ! w" "w = 0 \<Longrightarrow> \<not> wspawn_valid S" "length tm = unat (num_threads c)" "many tm"
    using assms(4) by simp_all
  from i w obtain S' where S': "raise_async_trap S w cause pc tm fl sn = Some S'" "sched_inv c S'" "in_async_trap S' ! w"
    "mscratch_tmask (warps S' ! w) = tmask (warps S ! w)" "tmask (warps S' ! w) = tm"
    "mepc (warps S' ! w) = (if fl = 0 then pc else fl)" "\<not> stalled_warps_next S' ! w"
    "trap_epoch S' ! w = trap_epoch S ! w + 1" "async_trap_snapshot S' ! w = sn"
    by (rule raise_async_trap_inv)
  have m: "many (tmask (warps S ! w))" using sched_inv_tmask(3) [OF i w(1,2)] .
  from S'(2) w(1) obtain sn' S'' where S'': "mret S' w cyc = Some (sn', S'')" "sn' = async_trap_snapshot S' ! w"
    "wPC (warps S'' ! w) = mepc (warps S' ! w)" "\<not> in_async_trap S'' ! w"
    "tmask (warps S'' ! w) = (if many (mscratch_tmask (warps S' ! w)) then mscratch_tmask (warps S' ! w) else tmask (warps S' ! w))"
    by (rule mret_inv)
  have "advance_pc S' t n = Some S'" if "tr_wid t = w" "tr_trap_epoch t = trap_epoch S ! w" for t n
    using that S'(8) sched_inv_lengths(6) [OF S'(2) w(1)] by (simp add: advance_pc_def)
  with S' S'' m show ?thesis by auto
qed

theorem async_trap_mret_witness:
  "\<exists>S' S''. raise_async_trap frag4 0 24 0x80000200 [False, True, False, False] 0 [3] = Some S' \<and>
     mret S' 0 9 = Some ([3], S'') \<and> wPC (warps S'' ! 0) = 0x80000200 \<and> tmask (warps S'' ! 0) = tmask (warps frag4 ! 0)"
proof -
  obtain k where k: "sched_reach cfg4 0 warp4 (frag4, k)" using frag4_reach by blast
  have "sched_allowed cfg4 frag4 (AsyncTrap 0 24 0x80000200 [False, True, False, False] 0 [3])"
    using frag4 by (simp add: cfg4_def many_def)
  from async_trap_mret [OF cfg4_ok k this, of 9] show ?thesis by fastforce
qed

text \<open>
  C31. When the fragment distributor of a core reports that it is done, no fragment warp runs any
  more, so that the raster unit may arm it for the next draw.
\<close>

theorem fwd_done_drained:
  assumes "cfg_ok c" "warp_ok c w0" "sched_reach c cid w0 (S, k)" "fwd_done S"
  shows "\<not> many (fwd_is_fragment S) \<and> fwd_waves S = []"
  using fwd_done_no_fragment [of c S] sched_reach_inv [OF assms(1-3)] assms(4) by (simp add: fwd_done_def)

theorem fwd_done_drained_witness:
  "\<not> many (fwd_is_fragment (fwd_mark_drained (fwd_arm (sched_new cfg4 warp4 0 0) 0 0)))"
  using fwd_done_drained [OF cfg4_ok drained_reach]
  by (simp add: fwd_done_def fwd_mark_drained_def fwd_arm_def sched_new_def Let_def)

end
