(* ===== verification/Launch.thy ===== *)
theory Launch
  imports Kmu
begin

text \<open>
  The host side of a kernel launch, \<open>Queue::enqueue_launch\<close> of \<open>sw/runtime/common/queue.cpp\<close>: the
  checks on the launch descriptor and the device configuration registers it programs. The
  submission of the writes through the command ring and the staging of the argument block are
  not part of this theory; the launch succeeds at both.
\<close>

datatype vx_result = VX_ERR_INVALID_INFO | VX_ERR_INVALID_VALUE

record launch_info =
  li_struct_size :: u64
  li_args_host :: bool
  li_args_size :: u64
  li_ndim :: u32
  li_grid_dim :: dim3
  li_block_dim :: dim3
  li_lmem_size :: u32
  li_cluster_dim :: dim3

text \<open>\<open>sizeof(vx_launch_info_t)\<close> with 8-byte pointers and sizes.\<close>

definition sizeof_launch_info :: u64 where
  "sizeof_launch_info = 88"

text \<open>The loops over the axes in use: an axis from \<open>ndim\<close> on keeps its default 1.\<close>

definition axes :: "u32 \<Rightarrow> dim3 \<Rightarrow> dim3" where
  "axes ndim v = dim3_of (if 0 < ndim then dim_x v else 1) (if 1 < ndim then dim_y v else 1)
     (if 2 < ndim then dim_z v else 1)"

definition norm1 :: "u32 \<Rightarrow> u32" where
  "norm1 lg = (if lg = 0 then 1 else lg)"

definition launch_check :: "launch_info \<Rightarrow> vx_result + dim3 \<times> dim3 \<times> dim3" where
  "launch_check i =
     (if li_struct_size i < sizeof_launch_info then Inl VX_ERR_INVALID_INFO
      else if li_ndim i > 3 then Inl VX_ERR_INVALID_VALUE
      else if li_args_size i \<noteq> 0 \<and> \<not> li_args_host i then Inl VX_ERR_INVALID_VALUE
      else
        let g = axes (li_ndim i) (li_grid_dim i);
            b = axes (li_ndim i) (li_block_dim i);
            lg = axes (li_ndim i) (dim3_of (norm1 (dim_x (li_cluster_dim i)))
                   (norm1 (dim_y (li_cluster_dim i))) (norm1 (dim_z (li_cluster_dim i))))
        in if dim_x g mod dim_x lg \<noteq> 0 \<or> dim_y g mod dim_y lg \<noteq> 0 \<or> dim_z g mod dim_z lg \<noteq> 0
           then Inl VX_ERR_INVALID_VALUE
           else Inr (g, b, lg))"

text \<open>
  The block size and the warp step; a division by zero is undefined. \<open>tpw\<close> is the number of
  threads of a warp.
\<close>

definition udiv :: "u32 \<Rightarrow> u32 \<Rightarrow> u32 option" where
  "udiv a b = (if b = 0 then None else Some (a div b))"

definition umod :: "u32 \<Rightarrow> u32 \<Rightarrow> u32 option" where
  "umod a b = (if b = 0 then None else Some (a mod b))"

definition warp_steps :: "u32 \<Rightarrow> u32 \<Rightarrow> dim3 \<Rightarrow> dim3 option" where
  "warp_steps ndim tpw b = do {
     wx \<leftarrow> (if ndim \<ge> 1 \<and> dim_x b \<noteq> 0 then umod tpw (dim_x b) else Some 0);
     wy \<leftarrow> (if ndim \<ge> 2 \<and> dim_y b \<noteq> 0 then do { q \<leftarrow> udiv tpw (dim_x b); umod q (dim_y b) } else Some 0);
     wz \<leftarrow> (if ndim \<ge> 3 \<and> dim_z b \<noteq> 0 then do { q \<leftarrow> udiv tpw (dim_x b * dim_y b); umod q (dim_z b) } else Some 0);
     Some (dim3_of wx wy wz) }"

definition launch_dcrs :: "u32 \<Rightarrow> u32 \<Rightarrow> u32 \<Rightarrow> dim3 \<Rightarrow> dim3 \<Rightarrow> dim3 \<Rightarrow> (u32 \<times> u32) list option" where
  "launch_dcrs tpw ndim lmem g b lg = do {
     ws \<leftarrow> warp_steps ndim tpw b;
     let block_size = dim_x b * dim_y b * dim_z b;
     Some (if ndim > 0 then
       [(VX_DCR_KMU_BLOCK_DIM_X, dim_x b), (VX_DCR_KMU_BLOCK_DIM_Y, dim_y b), (VX_DCR_KMU_BLOCK_DIM_Z, dim_z b),
        (VX_DCR_KMU_GRID_DIM_X, dim_x g), (VX_DCR_KMU_GRID_DIM_Y, if ndim \<ge> 2 then dim_y g else 1),
        (VX_DCR_KMU_GRID_DIM_Z, if ndim \<ge> 3 then dim_z g else 1), (VX_DCR_KMU_LMEM_SIZE, lmem),
        (VX_DCR_KMU_BLOCK_SIZE, block_size), (VX_DCR_KMU_WARP_STEP_X, dim_x ws), (VX_DCR_KMU_WARP_STEP_Y, dim_y ws),
        (VX_DCR_KMU_WARP_STEP_Z, dim_z ws), (VX_DCR_KMU_CLUSTER_DIM_X, dim_x lg),
        (VX_DCR_KMU_CLUSTER_DIM_Y, dim_y lg), (VX_DCR_KMU_CLUSTER_DIM_Z, dim_z lg)] else []) }"

text \<open>The program base, the kernel entry and the argument block, when the launch names them.\<close>

definition launch_pcs :: "(u64 \<times> u64) option \<Rightarrow> u64 option \<Rightarrow> (u32 \<times> u32) list" where
  "launch_pcs krnl args =
     (case krnl of None \<Rightarrow> [] | Some (program_pc, kernel_pc) \<Rightarrow>
        [(VX_DCR_KMU_STARTUP_ADDR0, ucast (program_pc AND 0xFFFFFFFF)), (VX_DCR_KMU_STARTUP_ADDR1, ucast (drop_bit 32 program_pc)),
         (VX_DCR_KMU_KERNEL_ENTRY0, ucast (kernel_pc AND 0xFFFFFFFF)), (VX_DCR_KMU_KERNEL_ENTRY1, ucast (drop_bit 32 kernel_pc))]) @
     (case args of None \<Rightarrow> [] | Some a \<Rightarrow>
        [(VX_DCR_KMU_STARTUP_ARG0, ucast (a AND 0xFFFFFFFF)), (VX_DCR_KMU_STARTUP_ARG1, ucast (drop_bit 32 a))])"

definition kmu_dcr_writes :: "(u32 \<times> u32) list \<Rightarrow> kmu \<Rightarrow> kmu" where
  "kmu_dcr_writes ws k = foldl (\<lambda>k (a, v). kmu_dcr_write k a v) k ws"

text \<open>A whole launch as the unit sees it: the checks, the register writes and the start.\<close>

definition enqueue_launch :: "u64 \<Rightarrow> (u64 \<times> u64) option \<Rightarrow> u64 option \<Rightarrow> launch_info option \<Rightarrow> kmu \<Rightarrow>
    (vx_result + kmu) option" where
  "enqueue_launch num_threads krnl args info k =
     (case info of
        None \<Rightarrow> Some (Inl VX_ERR_INVALID_VALUE)
      | Some i \<Rightarrow>
          (case launch_check i of
             Inl e \<Rightarrow> Some (Inl e)
           | Inr (g, b, lg) \<Rightarrow> do {
               ws \<leftarrow> launch_dcrs (ucast num_threads) (li_ndim i) (li_lmem_size i) g b lg;
               Some (Inr (kmu_start (kmu_dcr_writes (launch_pcs krnl args @ ws) k))) }))"
end
