(* ===== verification/Csr.thy ===== *)
theory Csr
  imports Scheduler Launch
begin

text \<open>
  The control and status registers, \<open>CsrUnit\<close> of \<open>sim/simx/csr_unit.cpp\<close>: reading, writing, and the
  three CSR instructions on the lanes of a warp. The model is that of a 64-bit build with virtual
  memory and the raster extension. The performance counters belong to other units; what they hold
  is a parameter, which for an unknown counter class is \<^const>\<open>None\<close> (the code aborts).
\<close>

definition VX_CSR_PMPCFG0 :: u32 where "VX_CSR_PMPCFG0 = 0x3A0"
definition VX_CSR_PMPADDR0 :: u32 where "VX_CSR_PMPADDR0 = 0x3B0"
definition VX_CSR_MISA :: u32 where "VX_CSR_MISA = 0x301"
definition VX_CSR_MEDELEG :: u32 where "VX_CSR_MEDELEG = 0x302"
definition VX_CSR_MIDELEG :: u32 where "VX_CSR_MIDELEG = 0x303"
definition VX_CSR_MIE :: u32 where "VX_CSR_MIE = 0x304"
definition VX_CSR_MNSTATUS :: u32 where "VX_CSR_MNSTATUS = 0x744"
definition VX_CSR_MSTATUS :: u32 where "VX_CSR_MSTATUS = 0x300"
definition VX_CSR_MTVEC :: u32 where "VX_CSR_MTVEC = 0x305"
definition VX_CSR_MEPC :: u32 where "VX_CSR_MEPC = 0x341"
definition VX_CSR_MCAUSE :: u32 where "VX_CSR_MCAUSE = 0x342"
definition VX_CSR_MTVAL :: u32 where "VX_CSR_MTVAL = 0x343"
definition VX_CSR_SATP :: u32 where "VX_CSR_SATP = 0x180"
definition VX_CSR_FFLAGS :: u32 where "VX_CSR_FFLAGS = 0x001"
definition VX_CSR_FRM :: u32 where "VX_CSR_FRM = 0x002"
definition VX_CSR_FCSR :: u32 where "VX_CSR_FCSR = 0x003"
definition VX_CSR_MHARTID :: u32 where "VX_CSR_MHARTID = 0xF14"
definition VX_CSR_THREAD_ID :: u32 where "VX_CSR_THREAD_ID = 0xCC0"
definition VX_CSR_WARP_ID :: u32 where "VX_CSR_WARP_ID = 0xCC1"
definition VX_CSR_CORE_ID :: u32 where "VX_CSR_CORE_ID = 0xCC2"
definition VX_CSR_ACTIVE_THREADS :: u32 where "VX_CSR_ACTIVE_THREADS = 0xCC4"
definition VX_CSR_ACTIVE_WARPS :: u32 where "VX_CSR_ACTIVE_WARPS = 0xCC3"
definition VX_CSR_NUM_THREADS :: u32 where "VX_CSR_NUM_THREADS = 0xFC0"
definition VX_CSR_NUM_WARPS :: u32 where "VX_CSR_NUM_WARPS = 0xFC1"
definition VX_CSR_NUM_CORES :: u32 where "VX_CSR_NUM_CORES = 0xFC2"
definition VX_CSR_LOCAL_MEM_BASE :: u32 where "VX_CSR_LOCAL_MEM_BASE = 0xFC3"
definition VX_CSR_NUM_BARRIERS :: u32 where "VX_CSR_NUM_BARRIERS = 0xFC4"
definition VX_CSR_MSCRATCH :: u32 where "VX_CSR_MSCRATCH = 0x340"
definition VX_CSR_MAILBOX :: u32 where "VX_CSR_MAILBOX = 0xCC5"
definition VX_CSR_CTA_ID :: u32 where "VX_CSR_CTA_ID = 0xCD0"
definition VX_CSR_CTA_RANK :: u32 where "VX_CSR_CTA_RANK = 0xCD1"
definition VX_CSR_CTA_SIZE :: u32 where "VX_CSR_CTA_SIZE = 0xCD2"
definition VX_CSR_CTA_THREAD_ID_X :: u32 where "VX_CSR_CTA_THREAD_ID_X = 0xCD3"
definition VX_CSR_CTA_THREAD_ID_Y :: u32 where "VX_CSR_CTA_THREAD_ID_Y = 0xCD4"
definition VX_CSR_CTA_THREAD_ID_Z :: u32 where "VX_CSR_CTA_THREAD_ID_Z = 0xCD5"
definition VX_CSR_CTA_BLOCK_ID_X :: u32 where "VX_CSR_CTA_BLOCK_ID_X = 0xCD6"
definition VX_CSR_CTA_BLOCK_ID_Y :: u32 where "VX_CSR_CTA_BLOCK_ID_Y = 0xCD7"
definition VX_CSR_CTA_BLOCK_ID_Z :: u32 where "VX_CSR_CTA_BLOCK_ID_Z = 0xCD8"
definition VX_CSR_CTA_BLOCK_DIM_X :: u32 where "VX_CSR_CTA_BLOCK_DIM_X = 0xCD9"
definition VX_CSR_CTA_BLOCK_DIM_Y :: u32 where "VX_CSR_CTA_BLOCK_DIM_Y = 0xCDA"
definition VX_CSR_CTA_BLOCK_DIM_Z :: u32 where "VX_CSR_CTA_BLOCK_DIM_Z = 0xCDB"
definition VX_CSR_CTA_GRID_DIM_X :: u32 where "VX_CSR_CTA_GRID_DIM_X = 0xCDC"
definition VX_CSR_CTA_GRID_DIM_Y :: u32 where "VX_CSR_CTA_GRID_DIM_Y = 0xCDD"
definition VX_CSR_CTA_GRID_DIM_Z :: u32 where "VX_CSR_CTA_GRID_DIM_Z = 0xCDE"
definition VX_CSR_CTA_ENTRY :: u32 where "VX_CSR_CTA_ENTRY = 0xCE1"
definition VX_CSR_CTA_LMEM_ADDR :: u32 where "VX_CSR_CTA_LMEM_ADDR = 0xCDF"
definition VX_CSR_CTA_CLUSTER_SIZE :: u32 where "VX_CSR_CTA_CLUSTER_SIZE = 0xCE0"
definition VX_CSR_FRAG_POS :: u32 where "VX_CSR_FRAG_POS = 0xCE2"
definition VX_CSR_FRAG_PID :: u32 where "VX_CSR_FRAG_PID = 0xCE3"
definition VX_CSR_MCYCLE :: u32 where "VX_CSR_MCYCLE = 0xB00"
definition VX_CSR_MINSTRET :: u32 where "VX_CSR_MINSTRET = 0xB02"
definition VX_CSR_MPM_BASE :: u32 where "VX_CSR_MPM_BASE = 0xB00"
definition VX_CSR_MPM_BASE_H :: u32 where "VX_CSR_MPM_BASE_H = 0xB80"

lemmas csr_defs =
  VX_CSR_PMPCFG0_def
  VX_CSR_PMPADDR0_def
  VX_CSR_MISA_def
  VX_CSR_MEDELEG_def
  VX_CSR_MIDELEG_def
  VX_CSR_MIE_def
  VX_CSR_MNSTATUS_def
  VX_CSR_MSTATUS_def
  VX_CSR_MTVEC_def
  VX_CSR_MEPC_def
  VX_CSR_MCAUSE_def
  VX_CSR_MTVAL_def
  VX_CSR_SATP_def
  VX_CSR_FFLAGS_def
  VX_CSR_FRM_def
  VX_CSR_FCSR_def
  VX_CSR_MHARTID_def
  VX_CSR_THREAD_ID_def
  VX_CSR_WARP_ID_def
  VX_CSR_CORE_ID_def
  VX_CSR_ACTIVE_THREADS_def
  VX_CSR_ACTIVE_WARPS_def
  VX_CSR_NUM_THREADS_def
  VX_CSR_NUM_WARPS_def
  VX_CSR_NUM_CORES_def
  VX_CSR_LOCAL_MEM_BASE_def
  VX_CSR_NUM_BARRIERS_def
  VX_CSR_MSCRATCH_def
  VX_CSR_MAILBOX_def
  VX_CSR_CTA_ID_def
  VX_CSR_CTA_RANK_def
  VX_CSR_CTA_SIZE_def
  VX_CSR_CTA_THREAD_ID_X_def
  VX_CSR_CTA_THREAD_ID_Y_def
  VX_CSR_CTA_THREAD_ID_Z_def
  VX_CSR_CTA_BLOCK_ID_X_def
  VX_CSR_CTA_BLOCK_ID_Y_def
  VX_CSR_CTA_BLOCK_ID_Z_def
  VX_CSR_CTA_BLOCK_DIM_X_def
  VX_CSR_CTA_BLOCK_DIM_Y_def
  VX_CSR_CTA_BLOCK_DIM_Z_def
  VX_CSR_CTA_GRID_DIM_X_def
  VX_CSR_CTA_GRID_DIM_Y_def
  VX_CSR_CTA_GRID_DIM_Z_def
  VX_CSR_CTA_ENTRY_def
  VX_CSR_CTA_LMEM_ADDR_def
  VX_CSR_CTA_CLUSTER_SIZE_def
  VX_CSR_FRAG_POS_def
  VX_CSR_FRAG_PID_def
  VX_CSR_MCYCLE_def
  VX_CSR_MINSTRET_def
  VX_CSR_MPM_BASE_def
  VX_CSR_MPM_BASE_H_def

record csr_state =
  cs_sched :: sched
  cs_mailbox :: u32
  cs_satp :: u64

record csr_perf =
  perf_cycles :: u64
  perf_instrs :: u64
  perf_mpm :: "(u32 \<Rightarrow> u64) option"

definition to_ulong :: "bool list \<Rightarrow> u64" where
  "to_ulong m = horner_sum of_bool 2 m"

text \<open>The thread index of lane \<open>tid\<close>: the index of the first lane of the warp, advanced by \<open>tid\<close> threads.\<close>

definition csr_thread_idx :: "cta_csrs_t \<Rightarrow> u32 \<Rightarrow> dim3 option" where
  "csr_thread_idx r tid = do {
     let x = dim_x (cc_thread_idx r) + tid;
     dx \<leftarrow> udiv x (dim_x (cc_block_dim r));
     let y = dim_y (cc_thread_idx r) + dx;
     dy \<leftarrow> udiv y (dim_y (cc_block_dim r));
     let z = dim_z (cc_thread_idx r) + dy;
     x \<leftarrow> umod x (dim_x (cc_block_dim r));
     y \<leftarrow> umod y (dim_y (cc_block_dim r));
     Some (dim3_of x y z) }"

definition get_cta_csr :: "warp_t \<Rightarrow> u32 \<Rightarrow> u32 \<Rightarrow> u64 option option" where
  "get_cta_csr w a tid = (let r = cta_csrs w in
     if a = VX_CSR_CTA_ID then Some (Some (ucast (cc_cta_id r)))
     else if a = VX_CSR_CTA_RANK then Some (Some (ucast (cc_cta_rank r)))
     else if a = VX_CSR_CTA_SIZE then Some (Some (ucast (cc_cta_size r)))
     else if a = VX_CSR_CTA_THREAD_ID_X then Some (map_option (\<lambda>v. ucast (dim_x v)) (csr_thread_idx r tid))
     else if a = VX_CSR_CTA_THREAD_ID_Y then Some (map_option (\<lambda>v. ucast (dim_y v)) (csr_thread_idx r tid))
     else if a = VX_CSR_CTA_THREAD_ID_Z then Some (map_option (\<lambda>v. ucast (dim_z v)) (csr_thread_idx r tid))
     else if a = VX_CSR_CTA_BLOCK_ID_X then Some (Some (ucast (dim_x (cc_block_idx r))))
     else if a = VX_CSR_CTA_BLOCK_ID_Y then Some (Some (ucast (dim_y (cc_block_idx r))))
     else if a = VX_CSR_CTA_BLOCK_ID_Z then Some (Some (ucast (dim_z (cc_block_idx r))))
     else if a = VX_CSR_CTA_BLOCK_DIM_X then Some (Some (ucast (dim_x (cc_block_dim r))))
     else if a = VX_CSR_CTA_BLOCK_DIM_Y then Some (Some (ucast (dim_y (cc_block_dim r))))
     else if a = VX_CSR_CTA_BLOCK_DIM_Z then Some (Some (ucast (dim_z (cc_block_dim r))))
     else if a = VX_CSR_CTA_GRID_DIM_X then Some (Some (ucast (dim_x (cc_grid_dim r))))
     else if a = VX_CSR_CTA_GRID_DIM_Y then Some (Some (ucast (dim_y (cc_grid_dim r))))
     else if a = VX_CSR_CTA_GRID_DIM_Z then Some (Some (ucast (dim_z (cc_grid_dim r))))
     else if a = VX_CSR_CTA_ENTRY then Some (Some (cc_entry r))
     else if a = VX_CSR_CTA_LMEM_ADDR then Some (Some (cc_lmem_addr r))
     else if a = VX_CSR_CTA_CLUSTER_SIZE then Some (Some (ucast (cc_cluster_size r)))
     else if a = VX_CSR_FRAG_POS then Some (map_option (\<lambda>f. ucast (frag_pos f)) (vat (frag w) tid))
     else if a = VX_CSR_FRAG_PID then Some (map_option (\<lambda>f. ucast (frag_pid f)) (vat (frag w) tid))
     else None)"

definition get_mpm_csr :: "csr_perf \<Rightarrow> u32 \<Rightarrow> u64 option" where
  "get_mpm_csr p a =
     (if a = VX_CSR_MCYCLE then Some (perf_cycles p)
      else if a = VX_CSR_MINSTRET then Some (perf_instrs p)
      else if VX_CSR_MPM_BASE \<le> a \<and> a < VX_CSR_MPM_BASE + 32 \<or> VX_CSR_MPM_BASE_H \<le> a \<and> a < VX_CSR_MPM_BASE_H + 32
      then map_option (\<lambda>f. f a) (perf_mpm p)
      else None)"

definition get_csr :: "vx_cfg \<Rightarrow> u32 \<Rightarrow> csr_perf \<Rightarrow> csr_state \<Rightarrow> u32 \<Rightarrow> nat \<Rightarrow> u32 \<Rightarrow> u64 option" where
  "get_csr c cid p s a wid tid = do {
     w \<leftarrow> lat (warps (cs_sched s)) wid;
     if a \<in> {VX_CSR_PMPCFG0, VX_CSR_PMPADDR0, VX_CSR_MISA, VX_CSR_MEDELEG, VX_CSR_MIDELEG, VX_CSR_MIE, VX_CSR_MNSTATUS} then Some 0
     else if a = VX_CSR_MSTATUS then Some (mstatus w)
     else if a = VX_CSR_MTVEC then Some (mtvec w)
     else if a = VX_CSR_MEPC then Some (mepc w)
     else if a = VX_CSR_MCAUSE then Some (mcause w)
     else if a = VX_CSR_MTVAL then Some (mtval w)
     else if a = VX_CSR_SATP then Some (cs_satp s)
     else if a = VX_CSR_FFLAGS then Some (ucast (fcsr w AND 0x1F))
     else if a = VX_CSR_FRM then Some (ucast (drop_bit 5 (fcsr w)))
     else if a = VX_CSR_FCSR then Some (ucast (fcsr w))
     else if a = VX_CSR_MHARTID then Some (ucast ((cid * num_warps c + of_nat wid) * num_threads c + tid))
     else if a = VX_CSR_THREAD_ID then Some (ucast tid)
     else if a = VX_CSR_WARP_ID then Some (ucast (of_nat wid :: u32))
     else if a = VX_CSR_CORE_ID then Some (ucast cid)
     else if a = VX_CSR_ACTIVE_THREADS then Some (to_ulong (tmask w))
     else if a = VX_CSR_ACTIVE_WARPS then Some (to_ulong (active_warps (cs_sched s)))
     else if a = VX_CSR_NUM_THREADS then Some (ucast (num_threads c))
     else if a = VX_CSR_NUM_WARPS then Some (ucast (num_warps c))
     else if a = VX_CSR_NUM_CORES then Some (ucast (num_cores c * num_clusters c))
     else if a = VX_CSR_LOCAL_MEM_BASE then Some (lmem_base c)
     else if a = VX_CSR_NUM_BARRIERS then Some (ucast (num_barriers c))
     else if a = VX_CSR_MSCRATCH then Some (mscratch w)
     else if a = VX_CSR_MAILBOX then Some (ucast (cs_mailbox s))
     else (case get_cta_csr w a tid of Some r \<Rightarrow> r | None \<Rightarrow> get_mpm_csr p a) }"

definition put_warp :: "csr_state \<Rightarrow> nat \<Rightarrow> warp_t \<Rightarrow> csr_state option" where
  "put_warp s wid w = do { ws \<leftarrow> lset (warps (cs_sched s)) wid w; Some (s\<lparr>cs_sched := (cs_sched s)\<lparr>warps := ws\<rparr>\<rparr>) }"

definition set_csr :: "csr_state \<Rightarrow> u32 \<Rightarrow> u64 \<Rightarrow> nat \<Rightarrow> csr_state option" where
  "set_csr s a v wid = do {
     w \<leftarrow> lat (warps (cs_sched s)) wid;
     if a = VX_CSR_FFLAGS then put_warp s wid (w\<lparr>fcsr := (fcsr w AND NOT 0x1F) OR ucast (v AND 0x1F)\<rparr>)
     else if a = VX_CSR_FRM then put_warp s wid (w\<lparr>fcsr := (fcsr w AND NOT 0xE0) OR ucast (push_bit 5 v)\<rparr>)
     else if a = VX_CSR_FCSR then put_warp s wid (w\<lparr>fcsr := ucast (v AND 0xFF)\<rparr>)
     else if a = VX_CSR_MSCRATCH then put_warp s wid (w\<lparr>mscratch := v\<rparr>)
     else if a = VX_CSR_MAILBOX then Some (s\<lparr>cs_mailbox := ucast v\<rparr>)
     else if a = VX_CSR_SATP then Some (s\<lparr>cs_satp := v\<rparr>)
     else if a = VX_CSR_MSTATUS then put_warp s wid (w\<lparr>mstatus := v\<rparr>)
     else if a = VX_CSR_MTVEC then put_warp s wid (w\<lparr>mtvec := v\<rparr>)
     else if a = VX_CSR_MEPC then put_warp s wid (w\<lparr>mepc := v\<rparr>)
     else if a = VX_CSR_MCAUSE then put_warp s wid (w\<lparr>mcause := v\<rparr>)
     else if a = VX_CSR_MTVAL then put_warp s wid (w\<lparr>mtval := v\<rparr>)
     else if a \<in> {VX_CSR_MEDELEG, VX_CSR_MIDELEG, VX_CSR_MIE, VX_CSR_PMPCFG0, VX_CSR_PMPADDR0, VX_CSR_MNSTATUS} then Some s
     else None }"

definition get_fpu_rm :: "vx_cfg \<Rightarrow> u32 \<Rightarrow> csr_perf \<Rightarrow> csr_state \<Rightarrow> u32 \<Rightarrow> nat \<Rightarrow> u32 \<Rightarrow> u32 option" where
  "get_fpu_rm c cid p s funct3 wid tid =
     (if funct3 = 7 then map_option ucast (get_csr c cid p s VX_CSR_FRM wid tid) else Some funct3)"

definition update_fcrs :: "vx_cfg \<Rightarrow> u32 \<Rightarrow> csr_perf \<Rightarrow> csr_state \<Rightarrow> u32 \<Rightarrow> nat \<Rightarrow> u32 \<Rightarrow> csr_state option" where
  "update_fcrs c cid p s fflags wid tid =
     (if fflags \<noteq> 0 then do {
        v \<leftarrow> get_csr c cid p s VX_CSR_FCSR wid tid;
        s \<leftarrow> set_csr s VX_CSR_FCSR (v OR ucast fflags) wid;
        v \<leftarrow> get_csr c cid p s VX_CSR_FFLAGS wid tid;
        set_csr s VX_CSR_FFLAGS (v OR ucast fflags) wid }
      else Some s)"

datatype csr_type = CSRRW | CSRRS | CSRRC

record csr_instr =
  ci_type :: csr_type
  ci_csr :: u32
  ci_imm :: "u64 option"

definition csr_lane :: "vx_cfg \<Rightarrow> u32 \<Rightarrow> csr_perf \<Rightarrow> csr_instr \<Rightarrow> nat \<Rightarrow> u64 list \<Rightarrow> csr_state \<Rightarrow> nat \<Rightarrow> (u64 \<times> csr_state) option" where
  "csr_lane c cid p i wid rs1 s t = do {
     v \<leftarrow> get_csr c cid p s (ci_csr i) wid (of_nat t);
     src \<leftarrow> (case ci_imm i of Some m \<Rightarrow> Some m | None \<Rightarrow> lat rs1 t);
     s \<leftarrow> (case ci_type i of
        CSRRW \<Rightarrow> set_csr s (ci_csr i) src wid
      | CSRRS \<Rightarrow> if src \<noteq> 0 then set_csr s (ci_csr i) (v OR src) wid else Some s
      | CSRRC \<Rightarrow> if src \<noteq> 0 then set_csr s (ci_csr i) (v AND NOT src) wid else Some s);
     Some (v, s) }"

fun csr_lanes :: "vx_cfg \<Rightarrow> u32 \<Rightarrow> csr_perf \<Rightarrow> csr_instr \<Rightarrow> nat \<Rightarrow> u64 list \<Rightarrow> bool list \<Rightarrow> nat list \<Rightarrow>
    u64 list \<Rightarrow> csr_state \<Rightarrow> (u64 list \<times> csr_state) option" where
  "csr_lanes c cid p i wid rs1 tm [] rd s = Some (rd, s)"
| "csr_lanes c cid p i wid rs1 tm (t # ts) rd s = do {
     b \<leftarrow> lat tm t;
     if \<not> b then csr_lanes c cid p i wid rs1 tm ts rd s
     else do {
       (v, s) \<leftarrow> csr_lane c cid p i wid rs1 s t;
       rd \<leftarrow> lset rd t v;
       csr_lanes c cid p i wid rs1 tm ts rd s } }"

definition thread_start :: "vx_cfg \<Rightarrow> bool list \<Rightarrow> nat" where
  "thread_start c tm = (case List.find (\<lambda>t. tm ! t) [0 ..< unat (num_threads c)] of Some t \<Rightarrow> t | None \<Rightarrow> unat (num_threads c))"

definition csr_process :: "vx_cfg \<Rightarrow> u32 \<Rightarrow> csr_perf \<Rightarrow> csr_instr \<Rightarrow> nat \<Rightarrow> u64 list \<Rightarrow> bool list \<Rightarrow> csr_state \<Rightarrow>
    (u64 list \<times> csr_state) option" where
  "csr_process c cid p i wid rs1 tm s =
     csr_lanes c cid p i wid rs1 tm [thread_start c tm ..< unat (num_threads c)] (replicate (unat (num_threads c)) 0) s"

end
