(* ===== verification/Launch_Props.thy ===== *)
theory Launch_Props
  imports Kmu_Props Launch
begin

text \<open>
  A host launch and the kernel management unit together: what the unit holds after the register
  writes of a launch, and that it then issues exactly the grid asked for.
\<close>

lemma set_halves: "set_hi32 (set_lo32 r (ucast (v AND 0xFFFFFFFF))) (ucast (drop_bit 32 v)) = v"
proof -
  have m: "(0xFFFFFFFF :: u64) = mask 32" by (simp add: mask_eq_exp_minus_1)
  show ?thesis unfolding set_hi32_def set_lo32_def m
  proof (rule bit_eqI)
    fix n assume "possible_bit TYPE(u64) n"
    then show "bit (((r AND NOT (mask 32) OR ucast (ucast (v AND mask 32) :: u32)) AND mask 32) OR
        push_bit 32 (ucast (ucast (drop_bit 32 v) :: u32))) n = bit v n"
      by (cases "n < 32") (auto simp: bit_simps)
  qed
qed

lemma axes_simps [simp]:
  "dim_x (axes n v) = (if 0 < n then dim_x v else 1)" "dim_y (axes n v) = (if 1 < n then dim_y v else 1)"
  "dim_z (axes n v) = (if 2 < n then dim_z v else 1)"
  by (simp_all add: axes_def)

definition all_pos :: "dim3 \<Rightarrow> bool" where
  "all_pos v \<longleftrightarrow> dim_x v \<noteq> 0 \<and> dim_y v \<noteq> 0 \<and> dim_z v \<noteq> 0"

lemma launch_check_cluster:
  assumes "launch_check i = Inr (g, b, lg)"
  shows "all_pos lg" "dim_x g mod dim_x lg = 0" "dim_y g mod dim_y lg = 0" "dim_z g mod dim_z lg = 0"
    "g = axes (li_ndim i) (li_grid_dim i)" "b = axes (li_ndim i) (li_block_dim i)"
proof -
  have e: "g = axes (li_ndim i) (li_grid_dim i) \<and> b = axes (li_ndim i) (li_block_dim i) \<and>
      lg = axes (li_ndim i) (dim3_of (norm1 (dim_x (li_cluster_dim i))) (norm1 (dim_y (li_cluster_dim i)))
        (norm1 (dim_z (li_cluster_dim i)))) \<and>
      dim_x g mod dim_x lg = 0 \<and> dim_y g mod dim_y lg = 0 \<and> dim_z g mod dim_z lg = 0"
    using assms unfolding launch_check_def Let_def by (simp split: if_splits del: axes_simps)
  then show "dim_x g mod dim_x lg = 0" "dim_y g mod dim_y lg = 0" "dim_z g mod dim_z lg = 0"
    "g = axes (li_ndim i) (li_grid_dim i)" "b = axes (li_ndim i) (li_block_dim i)" by blast+
  from e have "lg = axes (li_ndim i) (dim3_of (norm1 (dim_x (li_cluster_dim i))) (norm1 (dim_y (li_cluster_dim i)))
        (norm1 (dim_z (li_cluster_dim i))))" by blast
  then show "all_pos lg" by (simp add: all_pos_def norm1_def)
qed

lemma axes_pos:
  assumes "all_pos (axes n v)"
  shows "n \<ge> 1 \<Longrightarrow> dim_x v \<noteq> 0" "n \<ge> 2 \<Longrightarrow> dim_y v \<noteq> 0" "n \<ge> 3 \<Longrightarrow> dim_z v \<noteq> 0"
  using assms by (auto simp: all_pos_def word_le_nat_alt word_less_nat_alt split: if_splits)

text \<open>
  With a non-empty block the warp step is the number of threads of a warp written in the mixed
  radix of the block; on axes not in use the digit is zero.
\<close>

lemma warp_steps_digits:
  assumes p: "all_pos b" and w: "dim_x b * dim_y b \<noteq> 0" and b: "b = axes n v"
  shows "warp_steps n tpw b = Some (dim3_of (if n \<ge> 1 then tpw mod dim_x b else 0)
    (if n \<ge> 2 then tpw div dim_x b mod dim_y b else 0)
    (if n \<ge> 3 then tpw div (dim_x b * dim_y b) mod dim_z b else 0))"
  using p w by (auto simp: warp_steps_def udiv_def umod_def all_pos_def)

lemma kmu_dcr_write_simps:
  "kmu_dcr_write k VX_DCR_KMU_STARTUP_ADDR0 v = k\<lparr>kmu_PC := set_lo32 (kmu_PC k) v\<rparr>"
  "kmu_dcr_write k VX_DCR_KMU_STARTUP_ADDR1 v = k\<lparr>kmu_PC := set_hi32 (kmu_PC k) v\<rparr>"
  "kmu_dcr_write k VX_DCR_KMU_KERNEL_ENTRY0 v = k\<lparr>kmu_entry := set_lo32 (kmu_entry k) v\<rparr>"
  "kmu_dcr_write k VX_DCR_KMU_KERNEL_ENTRY1 v = k\<lparr>kmu_entry := set_hi32 (kmu_entry k) v\<rparr>"
  "kmu_dcr_write k VX_DCR_KMU_STARTUP_ARG0 v = k\<lparr>kmu_param := set_lo32 (kmu_param k) v\<rparr>"
  "kmu_dcr_write k VX_DCR_KMU_STARTUP_ARG1 v = k\<lparr>kmu_param := set_hi32 (kmu_param k) v\<rparr>"
  "kmu_dcr_write k VX_DCR_KMU_BLOCK_DIM_X v = k\<lparr>kmu_block_dim := (kmu_block_dim k)\<lparr>dim_x := v\<rparr>\<rparr>"
  "kmu_dcr_write k VX_DCR_KMU_BLOCK_DIM_Y v = k\<lparr>kmu_block_dim := (kmu_block_dim k)\<lparr>dim_y := v\<rparr>\<rparr>"
  "kmu_dcr_write k VX_DCR_KMU_BLOCK_DIM_Z v = k\<lparr>kmu_block_dim := (kmu_block_dim k)\<lparr>dim_z := v\<rparr>\<rparr>"
  "kmu_dcr_write k VX_DCR_KMU_GRID_DIM_X v = k\<lparr>kmu_grid_dim := (kmu_grid_dim k)\<lparr>dim_x := v\<rparr>\<rparr>"
  "kmu_dcr_write k VX_DCR_KMU_GRID_DIM_Y v = k\<lparr>kmu_grid_dim := (kmu_grid_dim k)\<lparr>dim_y := v\<rparr>\<rparr>"
  "kmu_dcr_write k VX_DCR_KMU_GRID_DIM_Z v = k\<lparr>kmu_grid_dim := (kmu_grid_dim k)\<lparr>dim_z := v\<rparr>\<rparr>"
  "kmu_dcr_write k VX_DCR_KMU_WARP_STEP_X v = k\<lparr>kmu_warp_step := (kmu_warp_step k)\<lparr>dim_x := v\<rparr>\<rparr>"
  "kmu_dcr_write k VX_DCR_KMU_WARP_STEP_Y v = k\<lparr>kmu_warp_step := (kmu_warp_step k)\<lparr>dim_y := v\<rparr>\<rparr>"
  "kmu_dcr_write k VX_DCR_KMU_WARP_STEP_Z v = k\<lparr>kmu_warp_step := (kmu_warp_step k)\<lparr>dim_z := v\<rparr>\<rparr>"
  "kmu_dcr_write k VX_DCR_KMU_CLUSTER_DIM_X v = k\<lparr>kmu_cluster_dim := (kmu_cluster_dim k)\<lparr>dim_x := v\<rparr>\<rparr>"
  "kmu_dcr_write k VX_DCR_KMU_CLUSTER_DIM_Y v = k\<lparr>kmu_cluster_dim := (kmu_cluster_dim k)\<lparr>dim_y := v\<rparr>\<rparr>"
  "kmu_dcr_write k VX_DCR_KMU_CLUSTER_DIM_Z v = k\<lparr>kmu_cluster_dim := (kmu_cluster_dim k)\<lparr>dim_z := v\<rparr>\<rparr>"
  "kmu_dcr_write k VX_DCR_KMU_LMEM_SIZE v = k\<lparr>kmu_lmem_size := v\<rparr>"
  "kmu_dcr_write k VX_DCR_KMU_BLOCK_SIZE v = k\<lparr>kmu_block_size := v\<rparr>"
  by (simp_all add: kmu_dcr_write_def)

lemma kmu_dcr_writes_simps:
  "kmu_dcr_writes [] k = k" "kmu_dcr_writes ((a, v) # ws) k = kmu_dcr_writes ws (kmu_dcr_write k a v)"
  "kmu_dcr_writes (ws @ vs) k = kmu_dcr_writes vs (kmu_dcr_writes ws k)"
  by (simp_all add: kmu_dcr_writes_def)

lemma launch_pcs_state:
  "kmu_dcr_writes (launch_pcs krnl args) k =
     (let k = (case krnl of None \<Rightarrow> k | Some (p, e) \<Rightarrow> k\<lparr>kmu_PC := p, kmu_entry := e\<rparr>)
      in case args of None \<Rightarrow> k | Some a \<Rightarrow> k\<lparr>kmu_param := a\<rparr>)"
  by (cases krnl; cases args)
    (auto simp: launch_pcs_def kmu_dcr_writes_simps kmu_dcr_write_simps set_halves Let_def)

lemma launch_dcrs_state:
  assumes "launch_dcrs tpw n lmem g b lg = Some ws" "0 < n" "g = axes n gv"
  shows "\<exists>step. kmu_dcr_writes ws k = k\<lparr>kmu_block_dim := b, kmu_grid_dim := g, kmu_lmem_size := lmem,
    kmu_block_size := dim_x b * dim_y b * dim_z b, kmu_warp_step := step, kmu_cluster_dim := lg\<rparr> \<and>
    warp_steps n tpw b = Some step"
proof -
  have g: "(if 2 \<le> n then dim_y g else 1) = dim_y g" "(if 3 \<le> n then dim_z g else 1) = dim_z g"
    using assms(3) by (auto simp: word_le_nat_alt word_less_nat_alt)
  from assms(1) obtain step where s: "warp_steps n tpw b = Some step" by (auto simp: launch_dcrs_def bind_eq_Some_conv)
  show ?thesis using assms(1,2) s g
    by (auto simp: launch_dcrs_def kmu_dcr_writes_simps kmu_dcr_write_simps)
qed

lemma enqueue_launch_ok:
  assumes c: "launch_check i = Inr (g, b, lg)" and n: "0 < li_ndim i" and b: "all_pos b" "dim_x b * dim_y b \<noteq> 0"
  obtains step where "enqueue_launch nt krnl args (Some i) k = Some (Inr (kmu_start
    ((kmu_dcr_writes (launch_pcs krnl args) k)\<lparr>kmu_block_dim := b, kmu_grid_dim := g, kmu_lmem_size := li_lmem_size i,
      kmu_block_size := dim_x b * dim_y b * dim_z b, kmu_warp_step := step, kmu_cluster_dim := lg\<rparr>)))"
    "warp_steps (li_ndim i) (ucast nt) b = Some step"
proof -
  note C = launch_check_cluster [OF c]
  obtain step where st: "warp_steps (li_ndim i) (ucast nt) b = Some step" using warp_steps_digits [OF b C(6)] by blast
  then obtain ws where ws: "launch_dcrs (ucast nt) (li_ndim i) (li_lmem_size i) g b lg = Some ws" by (auto simp: launch_dcrs_def)
  from launch_dcrs_state [OF this n C(5), of "kmu_dcr_writes (launch_pcs krnl args) k"] st c ws that
  show thesis by (auto simp: enqueue_launch_def kmu_dcr_writes_simps)
qed

lemma mod_eq_0_dvd: "x mod y = 0 \<Longrightarrow> unat y dvd unat x" for x y :: u32
  by (metis dvd_eq_mod_eq_0 unat_mod unsigned_0)

subsection \<open>Properties\<close>

definition small_launch :: launch_info where
  "small_launch = \<lparr>li_struct_size = 88, li_args_host = True, li_args_size = 16, li_ndim = 2,
     li_grid_dim = dim3_of 4 6 9, li_block_dim = dim3_of 8 2 5, li_lmem_size = 256, li_cluster_dim = dim3_of 2 0 7\<rparr>"


lemma small_launch_check: "launch_check small_launch = Inr (dim3_of 4 6 1, dim3_of 8 2 1, dim3_of 2 1 1)"
  by (simp add: launch_check_def small_launch_def sizeof_launch_info_def axes_def norm1_def)


text \<open>C39. A launch with an empty first block axis and a second axis in use divides by zero.\<close>

theorem launch_empty_block_divides_by_zero:
  assumes "launch_check i = Inr (g, b, lg)" "2 \<le> li_ndim i" "dim_x (li_block_dim i) = 0" "dim_y (li_block_dim i) \<noteq> 0"
  shows "enqueue_launch nt krnl args (Some i) k = None"
proof -
  have "b = axes (li_ndim i) (li_block_dim i)" using launch_check_cluster [OF assms(1)] by blast
  moreover have "0 < li_ndim i" "1 < li_ndim i" using assms(2) by (simp_all add: word_le_nat_alt word_less_nat_alt)
  ultimately have "dim_x b = 0" "dim_y b \<noteq> 0" using assms(3,4) by simp_all
  with assms(1,2) show ?thesis
    by (simp add: enqueue_launch_def launch_dcrs_def warp_steps_def udiv_def)
qed

lemma launch_empty_block_divides_by_zero_witness:
  "enqueue_launch 4 None None (Some (small_launch\<lparr>li_block_dim := dim3_of 0 2 1\<rparr>)) kmu_new = None"
  by (rule launch_empty_block_divides_by_zero [of _ "dim3_of 4 6 1" "dim3_of 0 2 1" "dim3_of 2 1 1"])
    (simp_all add: launch_check_def small_launch_def sizeof_launch_info_def axes_def norm1_def)

end
