(* ===== verification/Cta_Threads.thy ===== *)
theory Cta_Threads
  imports Csr Cta_Dispatcher_Inv Launch_Props "HOL-Library.FuncSet"
begin

text \<open>
  The threads of a block on their way from the dispatcher to the lanes: the thread index of a warp
  and of a lane are digits of the thread number in the mixed radix of the block, so that the warps
  of a CTA cover the block; the windows of local memory that the dispatcher gives out; and what a
  host launch programs makes every request fit these conditions.
\<close>

subsection \<open>Thread indices as digits\<close>

definition digits3 :: "dim3 \<Rightarrow> nat \<Rightarrow> nat \<times> nat \<times> nat" where
  "digits3 b n = (n mod unat (dim_x b), n div unat (dim_x b) mod unat (dim_y b), n div unat (dim_x b) div unat (dim_y b))"

lemma add_digit:
  fixes p a b c :: nat
  assumes "0 < p" "c \<le> 1"
  shows "(a + b + c) mod p = (let S = a mod p + b mod p + c in if p \<le> S then S - p else S)"
    and "(a + b + c) div p = a div p + b div p + (if p \<le> a mod p + b mod p + c then 1 else 0)"
proof -
  define S where "S = a mod p + b mod p + c"
  have "a = a div p * p + a mod p" "b = b div p * p + b mod p" by simp_all
  then have e: "a + b + c = S + (a div p + b div p) * p" unfolding S_def add_mult_distrib by linarith
  have "a mod p < p" "b mod p < p" using assms(1) by simp_all
  then have l: "S < 2 * p" using assms(2) unfolding S_def by linarith
  have m: "(a + b + c) mod p = S mod p" "(a + b + c) div p = S div p + (a div p + b div p)"
    unfolding e using assms(1) by simp_all
  have d: "S mod p = (if p \<le> S then S - p else S)" "S div p = (if p \<le> S then 1 else 0)"
    using l assms(1) by (auto simp: le_mod_geq div_if)
  show "(a + b + c) mod p = (let S = a mod p + b mod p + c in if p \<le> S then S - p else S)"
    using m(1) d(1) by (simp add: S_def Let_def)
  show "(a + b + c) div p = a div p + b div p + (if p \<le> a mod p + b mod p + c then 1 else 0)"
    using m(2) d(2) by (simp add: S_def)
qed

text \<open>One digit of the sum of two numbers, as the code computes it on words.\<close>

lemma add_digit_word:
  fixes t s p cw :: u32
  assumes t: "unat t = a mod unat p" and s: "unat s = b mod unat p" and c: "unat cw \<le> 1"
    and p: "0 < unat p" and b: "a mod unat p + b mod unat p + unat cw < 2 ^ 32"
  shows "unat (if t + s + cw \<ge> p then t + s + cw - p else t + s + cw) = (a + b + unat cw) mod unat p"
    and "(a + b + unat cw) div unat p = a div unat p + b div unat p + (if t + s + cw \<ge> p then 1 else 0)"
proof -
  have u: "unat (t + s + cw) = a mod unat p + b mod unat p + unat cw"
    using t s b by (simp add: unat_word_ariths)
  show "unat (if t + s + cw \<ge> p then t + s + cw - p else t + s + cw) = (a + b + unat cw) mod unat p"
    unfolding add_digit(1) [OF p c] Let_def using u by (auto simp: word_le_nat_alt unat_sub)
  show "(a + b + unat cw) div unat p = a div unat p + b div unat p + (if t + s + cw \<ge> p then 1 else 0)"
    unfolding add_digit(2) [OF p c] using u by (simp add: word_le_nat_alt)
qed

lemma advance_digits:
  assumes t: "unat3 t = digits3 b n" and s: "unat3 s = digits3 b m"
    and b: "0 < unat (dim_x b)" "0 < unat (dim_y b)" and l: "n + m < 2 ^ 32"
  shows "unat3 (advance_thread_idx t s b) = digits3 b (n + m)"
proof -
  let ?x = "unat (dim_x b)" and ?y = "unat (dim_y b)"
  define cx :: u32 where "cx = (if dim_x t + dim_x s \<ge> dim_x b then 1 else 0)"
  define ny where "ny = dim_y t + dim_y s + cx"
  define cy :: u32 where "cy = (if ny \<ge> dim_y b then 1 else 0)"
  have c: "unat cx \<le> 1" "unat cy \<le> 1" by (simp_all add: cx_def cy_def)
  have d: "unat (dim_x t) = n mod ?x" "unat (dim_y t) = n div ?x mod ?y" "unat (dim_z t) = n div ?x div ?y"
    "unat (dim_x s) = m mod ?x" "unat (dim_y s) = m div ?x mod ?y" "unat (dim_z s) = m div ?x div ?y"
    using t s by (simp_all add: unat3_def digits3_def)
  have lx: "n mod ?x + m mod ?x + unat (0 :: u32) < 2 ^ 32"
    using l mod_less_eq_dividend [of n ?x] mod_less_eq_dividend [of m ?x] unfolding unat_0 by linarith
  note X = add_digit_word [OF d(1,4) _ b(1) lx, simplified]
  have dx: "(n + m) div ?x = n div ?x + m div ?x + unat cx" using X(2) by (simp add: cx_def)
  have le: "n div ?x + m div ?x + unat cx < 2 ^ 32" using dx l div_le_dividend [of "n + m" ?x] by linarith
  have ly: "n div ?x mod ?y + m div ?x mod ?y + unat cx < 2 ^ 32"
    using le mod_less_eq_dividend [of "n div ?x" ?y] mod_less_eq_dividend [of "m div ?x" ?y] by linarith
  note Y = add_digit_word [OF d(2,5) c(1) b(2) ly, folded dx, folded ny_def]
  have dy: "(n + m) div ?x div ?y = n div ?x div ?y + m div ?x div ?y + unat cy" using Y(2) by (simp add: cy_def)
  have "(n + m) div ?x div ?y < 2 ^ 32"
    using l div_le_dividend [of "n + m" ?x] div_le_dividend [of "(n + m) div ?x" ?y] by linarith
  then have Z: "unat (dim_z t + dim_z s + cy) = (n + m) div ?x div ?y" using d dy by (simp add: unat_word_ariths)
  have "advance_thread_idx t s b = dim3_of (if dim_x t + dim_x s \<ge> dim_x b then dim_x t + dim_x s - dim_x b else dim_x t + dim_x s)
      (if ny \<ge> dim_y b then ny - dim_y b else ny) (dim_z t + dim_z s + cy)"
    unfolding advance_thread_idx_def Let_def cy_def ny_def cx_def by (rule refl)
  then show ?thesis using X(1) [unfolded add_0_right] Y(1) Z by (simp add: unat3_def digits3_def)
qed

lemma div_add_split: "0 < p \<Longrightarrow> (n + t) div p = n div p + (n mod p + t) div p" for p n t :: nat
proof -
  assume p: "0 < p"
  have "n + t = (n mod p + t) + n div p * p" by (simp add: mult.commute)
  also have "\<dots> div p = n div p + (n mod p + t) div p" using p by (subst div_mult_self1) simp_all
  finally show ?thesis .
qed

lemma csr_thread_digits:
  assumes t: "unat3 (cc_thread_idx r) = digits3 (cc_block_dim r) n"
    and b: "0 < unat (dim_x (cc_block_dim r))" "0 < unat (dim_y (cc_block_dim r))" and l: "n + unat tid < 2 ^ 32"
  obtains d where "csr_thread_idx r tid = Some d" "unat3 d = digits3 (cc_block_dim r) (n + unat tid)"
proof -
  let ?x = "unat (dim_x (cc_block_dim r))" and ?y = "unat (dim_y (cc_block_dim r))"
  let ?X = "dim_x (cc_thread_idx r) + tid"
  let ?Y = "dim_y (cc_thread_idx r) + ?X div dim_x (cc_block_dim r)"
  let ?Z = "dim_z (cc_thread_idx r) + ?Y div dim_y (cc_block_dim r)"
  have d: "unat (dim_x (cc_thread_idx r)) = n mod ?x" "unat (dim_y (cc_thread_idx r)) = n div ?x mod ?y"
    "unat (dim_z (cc_thread_idx r)) = n div ?x div ?y" using t by (simp_all add: unat3_def digits3_def)
  have X: "unat ?X = n mod ?x + unat tid"
  proof -
    have "n mod ?x + unat tid < 2 ^ 32" using l mod_less_eq_dividend [of n ?x] by linarith
    then show ?thesis using d(1) by (simp add: unat_word_ariths)
  qed
  have e: "(n + unat tid) div ?x = n div ?x + (n mod ?x + unat tid) div ?x" "(n + unat tid) mod ?x = (n mod ?x + unat tid) mod ?x"
    using b(1) by (rule div_add_split) (simp add: mod_add_left_eq)
  have le: "(n + unat tid) div ?x < 2 ^ 32" using l div_le_dividend [of "n + unat tid" ?x] by linarith
  have Y: "unat ?Y = n div ?x mod ?y + (n mod ?x + unat tid) div ?x"
  proof -
    have "n div ?x mod ?y + (n mod ?x + unat tid) div ?x < 2 ^ 32"
      using le e(1) mod_less_eq_dividend [of "n div ?x" ?y] by linarith
    then show ?thesis using d(2) X by (simp add: unat_word_ariths unat_div)
  qed
  have f: "(n + unat tid) div ?x div ?y = n div ?x div ?y + (n div ?x mod ?y + (n mod ?x + unat tid) div ?x) div ?y"
    "(n + unat tid) div ?x mod ?y = (n div ?x mod ?y + (n mod ?x + unat tid) div ?x) mod ?y"
    unfolding e(1) using b(2) by (rule div_add_split) (simp add: mod_add_left_eq)
  have "(n + unat tid) div ?x div ?y < 2 ^ 32" using le div_le_dividend [of "(n + unat tid) div ?x" ?y] by linarith
  then have Z: "unat ?Z = (n + unat tid) div ?x div ?y" using d Y f(1) by (simp add: unat_word_ariths unat_div)
  have nz: "dim_x (cc_block_dim r) \<noteq> 0" "dim_y (cc_block_dim r) \<noteq> 0" using b by auto
  have "csr_thread_idx r tid = Some (dim3_of (?X mod dim_x (cc_block_dim r)) (?Y mod dim_y (cc_block_dim r)) ?Z)"
    using nz by (simp add: csr_thread_idx_def udiv_def umod_def Let_def)
  moreover have "unat3 (dim3_of (?X mod dim_x (cc_block_dim r)) (?Y mod dim_y (cc_block_dim r)) ?Z) =
      digits3 (cc_block_dim r) (n + unat tid)"
    using X Y Z e(2) f(2) by (simp add: unat3_def digits3_def unat_mod)
  ultimately show thesis by (rule that)
qed

subsection \<open>The warps of a CTA\<close>

text \<open>What a block must be for its threads to be numbered: as many as its dimensions say, stepped by a warp.\<close>

definition block_ok :: "vx_cfg \<Rightarrow> kmu_req_t \<Rightarrow> bool" where
  "block_ok c q \<longleftrightarrow> req_ok c q \<and> 0 < unat (num_threads c) \<and>
     unat (dim_x (req_block_dim q)) * unat (dim_y (req_block_dim q)) * unat (dim_z (req_block_dim q)) = unat (req_block_size q) \<and>
     (unat (num_threads c) < unat (req_block_size q) \<longrightarrow>
        unat3 (req_warp_step q) = digits3 (req_block_dim q) (unat (num_threads c)))"

lemma block_okD:
  assumes "block_ok c q"
  shows "0 < unat (dim_x (req_block_dim q))" "0 < unat (dim_y (req_block_dim q))" "0 < unat (num_threads c)"
    "0 < unat (req_block_size q)" "unat (req_block_size q) + unat (num_threads c) < 2 ^ 32"
proof -
  have "0 < unat (dim_x (req_block_dim q)) * unat (dim_y (req_block_dim q)) * unat (dim_z (req_block_dim q))"
    using assms unfolding block_ok_def req_ok_def by presburger
  then show "0 < unat (dim_x (req_block_dim q))" "0 < unat (dim_y (req_block_dim q))" by simp_all
qed (use assms in \<open>simp_all add: block_ok_def req_ok_def\<close>)

text \<open>A dispatcher that hands out warp \<open>r\<close> of the CTA \<open>q\<close> next.\<close>

definition cta_at :: "vx_cfg \<Rightarrow> kmu_req_t \<Rightarrow> nat \<Rightarrow> cta_dispatcher \<Rightarrow> bool" where
  "cta_at c q r D \<longleftrightarrow> has_cta D \<and> cta D = q \<and> unat (cta_size D) = warps_of c q \<and> unat (rank D) = r \<and> r < warps_of c q \<and>
     unat (block_size_rem D) + r * unat (num_threads c) = unat (req_block_size q) \<and>
     unat3 (thread_idx D) = digits3 (req_block_dim q) (r * unat (num_threads c))"

definition warp_at :: "vx_cfg \<Rightarrow> kmu_req_t \<Rightarrow> nat \<Rightarrow> cta_warp_record_t \<Rightarrow> bool" where
  "warp_at c q r o' \<longleftrightarrow> rec_tmask o' = map (\<lambda>t. r * unat (num_threads c) + t < unat (req_block_size q)) [0 ..< unat (num_threads c)] \<and>
     unat3 (rec_thread_idx o') = digits3 (req_block_dim q) (r * unat (num_threads c)) \<and> rec_block_dim o' = req_block_dim q \<and>
     unat (rec_cta_rank o') = r \<and> unat (rec_cta_size o') = warps_of c q \<and> rec_block_idx o' = req_block_idx q"

lemma next_warp_at:
  assumes q: "block_ok c q" and D: "cta_at c q r D"
  obtains o' D' where "next_warp c D b = Some (o', D')" "warp_at c q r o'"
    "if Suc r < warps_of c q then cta_at c q (Suc r) D' else \<not> has_cta D'"
proof -
  note p = block_okD [OF q]
  let ?t = "unat (num_threads c)" and ?b = "unat (req_block_size q)"
  have d: "has_cta D" "cta D = q" "unat (cta_size D) = warps_of c q" "unat (rank D) = r" "r < warps_of c q"
    "unat (block_size_rem D) + r * ?t = ?b" "unat3 (thread_idx D) = digits3 (req_block_dim q) (r * ?t)"
    using D by (simp_all add: cta_at_def)
  have r1: "unat (rank D + 1) = Suc r" using d(3-5) unat_u32_less [of "cta_size D"] by (simp add: unat_word_ariths)
  define a where "a = (if block_size_rem D \<ge> num_threads c then num_threads c else block_size_rem D)"
  define E where "E = D\<lparr>thread_idx := advance_thread_idx (thread_idx D) (req_warp_step q) (req_block_dim q),
    block_size_rem := block_size_rem D - a, rank := rank D + 1\<rparr>"
  obtain o' where o: "next_warp c D b = Some (o', if rank E \<ge> cta_size E then E\<lparr>has_cta := False\<rparr> else E)"
    "rec_tmask o' = cta_warp_mask c D" "rec_thread_idx o' = thread_idx D" "rec_block_dim o' = req_block_dim q"
    "rec_cta_rank o' = rank D" "rec_cta_size o' = cta_size D" "rec_block_idx o' = req_block_idx q"
    using d(1,2) by (simp add: next_warp_def Let_def E_def a_def)
  have a: "unat a = min (unat (block_size_rem D)) ?t" by (auto simp: a_def word_le_nat_alt)
  have "cta_warp_mask c D = map (\<lambda>t. t < unat a) [0 ..< ?t]" by (simp add: cta_warp_mask_def a_def)
  also have "\<dots> = map (\<lambda>t. r * ?t + t < ?b) [0 ..< ?t]" using a d(6) by (intro map_cong refl) auto
  finally have w: "warp_at c q r o'" using o d by (simp add: warp_at_def)
  have ge: "rank E \<ge> cta_size E \<longleftrightarrow> \<not> Suc r < warps_of c q" using r1 d(3) by (simp add: E_def word_le_nat_alt not_less)
  show thesis
  proof (cases "Suc r < warps_of c q")
    case False
    with o(1) ge w show ?thesis by (intro that [of o' "E\<lparr>has_cta := False\<rparr>"]) simp_all
  next
    case True
    then have l: "Suc r * ?t < ?b" unfolding warps_of_def using warps_of_less [OF p(3,4)] by blast
    then have "unat a = ?t" "?t < ?b" using a d(6) by (simp_all add: algebra_simps)
    then have rem: "unat (block_size_rem D - a) + Suc r * ?t = ?b"
      using d(6) l a by (subst unat_sub) (simp_all add: word_le_nat_alt algebra_simps)
    have step: "unat3 (req_warp_step q) = digits3 (req_block_dim q) ?t" using q \<open>?t < ?b\<close> by (simp add: block_ok_def)
    have "unat3 (thread_idx E) = digits3 (req_block_dim q) (r * ?t + ?t)"
      unfolding E_def using advance_digits [OF d(7) step p(1,2)] l p(5) by simp
    then have "cta_at c q (Suc r) E" using True d r1 rem by (simp add: cta_at_def E_def add.commute)
    with True o(1) ge w show ?thesis by (intro that [of o' E]) simp_all
  qed
qed

fun issue_warps :: "vx_cfg \<Rightarrow> bool list \<Rightarrow> cta_dispatcher \<Rightarrow> (cta_warp_record_t list \<times> cta_dispatcher) option" where
  "issue_warps c [] D = Some ([], D)"
| "issue_warps c (b # bs) D = do { (r, D) \<leftarrow> next_warp c D b; (rs, D) \<leftarrow> issue_warps c bs D; Some (r # rs, D) }"

lemma issue_warps_at:
  assumes q: "block_ok c q" and "cta_at c q r D" "length bs = warps_of c q - r"
  shows "\<exists>rs D'. issue_warps c bs D = Some (rs, D') \<and> \<not> has_cta D' \<and> length rs = warps_of c q - r \<and>
    (\<forall>i < length rs. warp_at c q (r + i) (rs ! i))"
  using assms(2,3)
proof (induction bs arbitrary: r D)
  case Nil
  then show ?case by (simp add: cta_at_def)
next
  case (Cons b bs)
  from q Cons.prems(1) obtain o' D' where o: "next_warp c D b = Some (o', D')" "warp_at c q r o'"
    "if Suc r < warps_of c q then cta_at c q (Suc r) D' else \<not> has_cta D'" by (rule next_warp_at)
  show ?case
  proof (cases "Suc r < warps_of c q")
    case True
    have lb: "length bs = warps_of c q - Suc r" using Cons.prems(2) by simp
    from True obtain rs D'' where "issue_warps c bs D' = Some (rs, D'')" "\<not> has_cta D''" "length rs = warps_of c q - Suc r"
      "\<forall>i < length rs. warp_at c q (Suc r + i) (rs ! i)"
      using Cons.IH [OF _ lb, of D'] o(3) by auto
    with o(1,2) True show ?thesis by (auto simp: less_Suc_eq_0_disj)
  next
    case False
    have "r < warps_of c q" using Cons.prems(1) by (simp add: cta_at_def)
    with False have "warps_of c q - r = 1" by linarith
    with Cons.prems(2) have "bs = []" "warps_of c q - r = 1" by simp_all
    with o False show ?thesis by simp
  qed
qed

lemma digits3_bij:
  assumes "0 < unat (dim_x b)" "0 < unat (dim_y b)"
  shows "bij_betw (digits3 b) {..<unat (dim_x b) * unat (dim_y b) * unat (dim_z b)}
    ({..<unat (dim_x b)} \<times> {..<unat (dim_y b)} \<times> {..<unat (dim_z b)})"
proof (rule bij_betwI [where g = "\<lambda>(x, y, z). x + unat (dim_x b) * (y + unat (dim_y b) * z)"])
  let ?x = "unat (dim_x b)" and ?y = "unat (dim_y b)" and ?z = "unat (dim_z b)"
  show "digits3 b \<in> {..<?x * ?y * ?z} \<rightarrow> {..<?x} \<times> {..<?y} \<times> {..<?z}"
    using assms by (auto simp: digits3_def less_mult_imp_div_less ac_simps div_mult2_eq [symmetric])
  have "x + ?x * (y + ?y * z) < ?x * ?y * ?z" if "x < ?x" "y < ?y" "z < ?z" for x y z
    using mult_add_less [OF mult_add_less [OF that(3,2)] that(1)] by (simp add: ac_simps distrib_left)
  then show "(\<lambda>(x, y, z). x + ?x * (y + ?y * z)) \<in> {..<?x} \<times> {..<?y} \<times> {..<?z} \<rightarrow> {..<?x * ?y * ?z}" by auto
  show "(case digits3 b n of (x, y, z) \<Rightarrow> x + ?x * (y + ?y * z)) = n" for n
    by (simp add: digits3_def)
  show "digits3 b (case v of (x, y, z) \<Rightarrow> x + ?x * (y + ?y * z)) = v" if "v \<in> {..<?x} \<times> {..<?y} \<times> {..<?z}" for v
    using that assms by (auto simp: digits3_def)
qed

text \<open>Warp and lane number the threads of the block from zero.\<close>

definition lanes_of :: "vx_cfg \<Rightarrow> cta_warp_record_t list \<Rightarrow> (nat \<times> nat) set" where
  "lanes_of c rs = {(r, t). r < length rs \<and> t < unat (num_threads c) \<and> rec_tmask (rs ! r) ! t}"

lemma lanes_bij:
  assumes q: "block_ok c q" and rs: "length rs = warps_of c q" "\<forall>i < length rs. warp_at c q i (rs ! i)"
  shows "bij_betw (\<lambda>(r, t). r * unat (num_threads c) + t) (lanes_of c rs) {..<unat (req_block_size q)}"
proof (rule bij_betwI [where g = "\<lambda>n. (n div unat (num_threads c), n mod unat (num_threads c))"])
  note p = block_okD [OF q]
  let ?t = "unat (num_threads c)" and ?b = "unat (req_block_size q)"
  have m: "(r, t) \<in> lanes_of c rs \<longleftrightarrow> r < warps_of c q \<and> t < ?t \<and> r * ?t + t < ?b" for r t
    using rs by (auto simp: lanes_of_def warp_at_def)
  show "(\<lambda>(r, t). r * ?t + t) \<in> lanes_of c rs \<rightarrow> {..<?b}" by (auto simp: m)
  have "n div ?t < warps_of c q" if "n < ?b" for n
  proof -
    have "n div ?t * ?t < ?b" using that div_mult_mod_eq [of n ?t] by linarith
    then show ?thesis unfolding warps_of_def using warps_of_less [OF p(3,4)] by blast
  qed
  then show "(\<lambda>n. (n div ?t, n mod ?t)) \<in> {..<?b} \<rightarrow> lanes_of c rs" using p(3) by (auto simp: m)
  show "(\<lambda>n. (n div ?t, n mod ?t)) (case v of (r, t) \<Rightarrow> r * ?t + t) = v" if "v \<in> lanes_of c rs" for v
    using that p(3) by (cases v) (simp add: m)
qed simp

definition lane_thread :: "cta_warp_record_t list \<Rightarrow> nat \<times> nat \<Rightarrow> (nat \<times> nat \<times> nat) option" where
  "lane_thread rs = (\<lambda>(r, t). map_option unat3 (csr_thread_idx (cta_csrs_of (rs ! r)) (of_nat t)))"

lemma lane_thread_digits:
  assumes q: "block_ok c q" and rs: "\<forall>i < length rs. warp_at c q i (rs ! i)" and l: "(r, t) \<in> lanes_of c rs"
  shows "lane_thread rs (r, t) = Some (digits3 (req_block_dim q) (r * unat (num_threads c) + t))"
proof -
  note p = block_okD [OF q]
  have w: "warp_at c q r (rs ! r)" "t < unat (num_threads c)" "r * unat (num_threads c) + t < unat (req_block_size q)"
    using rs l by (auto simp: lanes_of_def warp_at_def)
  have u: "unat (of_nat t :: u32) = t" using w(2) unat_u32_less [of "num_threads c"] by (intro unat_of_nat_u32) simp
  have "unat3 (cc_thread_idx (cta_csrs_of (rs ! r))) = digits3 (cc_block_dim (cta_csrs_of (rs ! r))) (r * unat (num_threads c))"
    "cc_block_dim (cta_csrs_of (rs ! r)) = req_block_dim q" using w(1) by (simp_all add: warp_at_def cta_csrs_of_def)
  with csr_thread_digits [of "cta_csrs_of (rs ! r)" "r * unat (num_threads c)" "of_nat t"] p u w(3)
  show ?thesis by (auto simp: lane_thread_def)
qed

lemma cta_lanes_bij:
  assumes q: "block_ok c q" and rs: "length rs = warps_of c q" "\<forall>i < length rs. warp_at c q i (rs ! i)"
  shows "bij_betw (lane_thread rs) (lanes_of c rs) (Some ` ({..<unat (dim_x (req_block_dim q))} \<times>
    {..<unat (dim_y (req_block_dim q))} \<times> {..<unat (dim_z (req_block_dim q))}))"
proof -
  note p = block_okD [OF q]
  have e: "unat (req_block_size q) =
      unat (dim_x (req_block_dim q)) * unat (dim_y (req_block_dim q)) * unat (dim_z (req_block_dim q))"
    using q by (simp add: block_ok_def)
  have "bij_betw (digits3 (req_block_dim q) \<circ> (\<lambda>(r, t). r * unat (num_threads c) + t)) (lanes_of c rs)
      ({..<unat (dim_x (req_block_dim q))} \<times> {..<unat (dim_y (req_block_dim q))} \<times> {..<unat (dim_z (req_block_dim q))})"
    using lanes_bij [OF q rs] digits3_bij [OF p(1,2)] unfolding e by (rule bij_betw_trans)
  then have "bij_betw (Some \<circ> (digits3 (req_block_dim q) \<circ> (\<lambda>(r, t). r * unat (num_threads c) + t))) (lanes_of c rs)
    (Some ` ({..<unat (dim_x (req_block_dim q))} \<times> {..<unat (dim_y (req_block_dim q))} \<times> {..<unat (dim_z (req_block_dim q))}))"
    by (rule bij_betw_trans) (simp add: bij_betw_def)
  then show ?thesis by (rule bij_betw_cong [THEN iffD1, rotated]) (use lane_thread_digits [OF q rs(2)] in \<open>auto\<close>)
qed

lemma accept_cta_at:
  assumes a: "accept_cta c D stride m base = Some D'" and q: "block_ok c (pending_cta D)"
  shows "cta_at c (pending_cta D) 0 D'"
proof -
  have r: "req_ok c (pending_cta D)" "0 < unat (num_threads c)" using q by (simp_all add: block_ok_def)
  note sz = cta_size_pos [OF r]
  then have "0 < warps_of c (pending_cta D)" by (simp add: word_less_nat_alt)
  moreover obtain rem where "D' = (if req_PC (pending_cta D) \<noteq> cur_kernel_pc D
      then D\<lparr>cur_kernel_pc := req_PC (pending_cta D), warp_init_mask := replicate (unat (num_warps c)) False\<rparr> else D)
     \<lparr>cta := pending_cta D, has_pending := False,
      cta_size := (req_block_size (pending_cta D) + num_threads c - 1) div num_threads c, rank := 0,
      block_size_rem := req_block_size (pending_cta D), thread_idx := dim3_of 0 0 0, cur_slot := base,
      lmem_addr := lmem_base c + ucast base * ucast stride, slot_rem_warps := rem,
      tail_slot := (base + 1) mod m, has_cta := True\<rparr>"
    using a unfolding accept_cta_def Let_def by (auto simp: bind_eq_Some_conv)
  ultimately show ?thesis using sz(1) by (simp add: cta_at_def unat3_def digits3_def)
qed

lemma accepted_lanes_bij:
  assumes "block_ok c (pending_cta D)" "accept_cta c D stride m base = Some D'"
    and "length init = warps_of c (pending_cta D)"
  shows "\<exists>rs D''. issue_warps c init D' = Some (rs, D'') \<and> \<not> has_cta D'' \<and> length rs = warps_of c (pending_cta D) \<and>
    bij_betw (lane_thread rs) (lanes_of c rs) (Some ` ({..<unat (dim_x (req_block_dim (pending_cta D)))} \<times>
      {..<unat (dim_y (req_block_dim (pending_cta D)))} \<times> {..<unat (dim_z (req_block_dim (pending_cta D)))}))"
proof -
  have "cta_at c (pending_cta D) 0 D'" using assms(2,1) by (rule accept_cta_at)
  then obtain rs D'' where rs: "issue_warps c init D' = Some (rs, D'')" "\<not> has_cta D''"
    "length rs = warps_of c (pending_cta D)" "\<forall>i < length rs. warp_at c (pending_cta D) i (rs ! i)"
    using issue_warps_at [OF assms(1), of 0 D' init] assms(3) by auto
  then show ?thesis using cta_lanes_bij [OF assms(1) rs(3,4)] by blast
qed

subsection \<open>Local memory\<close>

lemma cta_stride_round_up:
  assumes "mem_block_size c = 2 ^ k" "k < 32" "unat (req_lmem_size q) + 2 ^ k \<le> 2 ^ 32"
  shows "unat (cta_stride c q) = round_up (2 ^ k) (unat (req_lmem_size q))"
proof -
  let ?s = "req_lmem_size q"
  have k: "unat (2 ^ k :: u32) = 2 ^ k" using assms(2) by (intro unat_pow2) simp
  have v: "unat (?s + 2 ^ k - 1) = unat ?s + 2 ^ k - 1"
  proof -
    have e: "?s + 2 ^ k - 1 = ?s + (2 ^ k - 1)" by (simp add: algebra_simps)
    have m: "unat (2 ^ k - 1 :: u32) = 2 ^ k - 1" using k by (subst unat_sub) (simp_all add: word_le_nat_alt)
    have l: "unat ?s + (2 ^ k - 1) < 2 ^ 32"
    proof -
      have "(0 :: nat) < 2 ^ k" by simp
      with assms(3) show ?thesis by linarith
    qed
    have "unat (?s + (2 ^ k - 1)) = (unat ?s + unat (2 ^ k - 1 :: u32)) mod 2 ^ LENGTH(32)" by (rule unat_word_ariths(1))
    then show ?thesis unfolding e m using l by simp
  qed
  let ?v = "?s + 2 ^ k - 1"
  have "unat (cta_stride c q) = unat ?v - unat ?v mod 2 ^ k"
    unfolding cta_stride_def assms(1) and_not_mask
    by (subst unat_sub) (simp_all add: unat_take_bit word_le_nat_alt)
  then show ?thesis unfolding v round_up_def by (simp add: minus_mod_eq_div_mult)
qed

lemma usable_slots_fit:
  assumes "0 < unat s" "unat s \<le> unat (lmem_capacity c)" "b < usable_slots c s"
  shows "(unat b + 1) * unat s \<le> unat (lmem_capacity c)"
proof -
  have nz: "s \<noteq> 0" using assms(1) by auto
  have "0 < unat (lmem_capacity c) div unat s" using assms by (simp add: div_greater_zero_iff)
  then have f: "lmem_capacity c div s \<noteq> 0" by (metis unat_0 unat_div neq0_conv)
  then have "usable_slots c s \<le> lmem_capacity c div s" using nz
    by (auto simp: usable_slots_def Let_def word_le_nat_alt word_less_nat_alt Suc_le_eq unat_gt_0)
  then have "unat b < unat (lmem_capacity c) div unat s" using assms(3) by (simp add: word_less_nat_alt word_le_nat_alt unat_div)
  then have "(unat b + 1) * unat s \<le> unat (lmem_capacity c) div unat s * unat s" by (intro mult_right_mono) simp_all
  also have "\<dots> \<le> unat (lmem_capacity c)" by simp
  finally show ?thesis .
qed

lemma accept_lmem_addr: "accept_cta c D stride m base = Some D' \<Longrightarrow> lmem_addr D' = lmem_base c + ucast base * ucast stride"
  by (auto simp: accept_cta_def Let_def bind_eq_Some_conv)

lemma lmem_window:
  assumes c: "mem_block_size c = 2 ^ k" "k < 32" "unat (lmem_base c) + unat (lmem_capacity c) \<le> 2 ^ 64"
    and q: "unat (req_lmem_size q) + 2 ^ k \<le> 2 ^ 32" "0 < unat (req_lmem_size q)"
      "unat (cta_stride c q) \<le> unat (lmem_capacity c)"
    and a: "accept_cta c D (cta_stride c q) m b = Some D'" "b < usable_slots c (cta_stride c q)"
  shows "unat (lmem_addr D') = unat (lmem_base c) + unat b * unat (cta_stride c q)"
    and "unat (req_lmem_size q) \<le> unat (cta_stride c q)"
    and "unat b * unat (cta_stride c q) + unat (cta_stride c q) \<le> unat (lmem_capacity c)"
proof -
  have s: "unat (cta_stride c q) = round_up (2 ^ k) (unat (req_lmem_size q))" using c(1,2) q(1) by (rule cta_stride_round_up)
  then show r: "unat (req_lmem_size q) \<le> unat (cta_stride c q)" by (simp add: round_up_bounds)
  with q(2) have "0 < unat (cta_stride c q)" by simp
  from usable_slots_fit [OF this q(3) a(2)]
  show f: "unat b * unat (cta_stride c q) + unat (cta_stride c q) \<le> unat (lmem_capacity c)" by simp
  have "unat (ucast b * ucast (cta_stride c q) :: u64) = unat b * unat (cta_stride c q)"
    using f unat_u32_less [of "lmem_capacity c"] by (simp add: unat_word_ariths)
  then show "unat (lmem_addr D') = unat (lmem_base c) + unat b * unat (cta_stride c q)"
    unfolding accept_lmem_addr [OF a(1)] using f c(3) \<open>0 < unat (cta_stride c q)\<close> by (subst unat_add_exact) simp_all
qed

subsection \<open>From the host launch to the threads\<close>

lemma kmu_advance_block [simp]:
  "kmu_block_dim (kmu_advance k) = kmu_block_dim k" "kmu_block_size (kmu_advance k) = kmu_block_size k"
  "kmu_warp_step (kmu_advance k) = kmu_warp_step k" "kmu_lmem_size (kmu_advance k) = kmu_lmem_size k"
  by (simp_all add: kmu_advance_def advance_origin_def Let_def)

lemma drain_requests:
  assumes "kmu_drain n k = (rs, k')" "q \<in> set rs"
  shows "req_block_dim q = kmu_block_dim k \<and> req_block_size q = kmu_block_size k \<and> req_warp_step q = kmu_warp_step k \<and>
    req_cluster_dim q = kmu_cluster_dim k \<and> req_lmem_size q = kmu_lmem_size k"
  using assms
proof (induction n arbitrary: k rs)
  case (Suc n)
  show ?case
  proof (cases "kmu_running k")
    case True
    then have "kmu_step k = (Some (kmu_request k), kmu_advance k)" by (simp add: kmu_step_def)
    with Suc.prems obtain ss where "rs = kmu_request k # ss" "kmu_drain n (kmu_advance k) = (ss, k')"
      by (auto split: prod.splits)
    with Suc.IH [of "kmu_advance k" ss] Suc.prems(2) show ?thesis by (auto simp: kmu_request_def)
  qed (use Suc.prems in \<open>simp add: kmu_step_def\<close>)
qed simp

lemma unat_mult3:
  assumes "unat a * unat b * unat d < 2 ^ 32" "0 < unat d"
  shows "unat (a * b :: u32) = unat a * unat b" "unat (a * b * d) = unat a * unat b * unat d"
proof -
  have "unat a * unat b \<le> unat a * unat b * unat d" using assms(2) by simp
  then have "unat a * unat b < 2 ^ 32" using assms(1) by linarith
  then show e: "unat (a * b) = unat a * unat b" by (simp add: unat_word_ariths)
  show "unat (a * b * d) = unat a * unat b * unat d" using assms(1) unfolding unat_word_ariths(2) [of "a * b"] e by simp
qed

lemma warp_steps_digits3:
  assumes p: "all_pos b" and b: "b = axes n v" and n: "0 < n"
    and l: "unat (dim_x b) * unat (dim_y b) * unat (dim_z b) < 2 ^ 32"
    and t: "unat tpw < unat (dim_x b) * unat (dim_y b) * unat (dim_z b)" and s: "warp_steps n tpw b = Some step"
  shows "unat3 step = digits3 b (unat tpw)"
proof -
  have q: "0 < unat (dim_x b)" "0 < unat (dim_y b)" "0 < unat (dim_z b)" using p by (simp_all add: all_pos_def unat_gt_0)
  have xy: "unat (dim_x b * dim_y b) = unat (dim_x b) * unat (dim_y b)" using l q(3) by (rule unat_mult3)
  then have "dim_x b * dim_y b \<noteq> 0" using q by (metis nat_0_less_mult_iff unat_0 less_numeral_extra(3))
  from warp_steps_digits [OF p this b, of tpw] s
  have st: "step = dim3_of (if n \<ge> 1 then tpw mod dim_x b else 0) (if n \<ge> 2 then tpw div dim_x b mod dim_y b else 0)
    (if n \<ge> 3 then tpw div (dim_x b * dim_y b) mod dim_z b else 0)" by simp
  have z: "unat tpw div unat (dim_x b) div unat (dim_y b) < unat (dim_z b)"
    using t by (simp add: less_mult_imp_div_less ac_simps flip: div_mult2_eq)
  have y: "\<not> 2 \<le> n \<Longrightarrow> dim_y b = 1" and zz: "\<not> 3 \<le> n \<Longrightarrow> dim_z b = 1"
    unfolding b by (auto simp: word_le_nat_alt word_less_nat_alt)
  have "1 \<le> n" using n by (simp add: word_le_nat_alt word_less_nat_alt)
  moreover have "\<not> 2 \<le> n \<Longrightarrow> \<not> 3 \<le> n" by (simp add: word_le_nat_alt)
  ultimately show ?thesis unfolding st using y zz z xy
    by (auto simp: unat3_def digits3_def unat_mod unat_div div_mult2_eq)
qed

lemma launch_block_ok:
  assumes c: "launch_check i = Inr (g, b, lg)" and n: "0 < li_ndim i" and b: "all_pos b"
    and l: "unat (dim_x b) * unat (dim_y b) * unat (dim_z b) + unat (num_threads cfg) < 2 ^ 32"
    and t: "0 < unat (num_threads cfg)" "ucast nt = num_threads cfg"
    and w: "unat (dim_x lg * dim_y lg * dim_z lg) + unat (num_warps cfg) < 2 ^ 32"
    and e: "enqueue_launch nt krnl args (Some i) k = Some (Inr k')"
    and d: "kmu_drain m k' = (rs, k'')" "q \<in> set rs"
  shows "block_ok cfg q" "req_block_dim q = b"
proof -
  have q: "0 < unat (dim_x b)" "0 < unat (dim_y b)" "0 < unat (dim_z b)" using b by (simp_all add: all_pos_def unat_gt_0)
  note C = launch_check_cluster [OF c]
  have l': "unat (dim_x b) * unat (dim_y b) * unat (dim_z b) < 2 ^ 32" using l by linarith
  note u = unat_mult3 [OF l' q(3)]
  have xy: "dim_x b * dim_y b \<noteq> 0" using u(1) q by (metis nat_0_less_mult_iff unat_0 less_numeral_extra(3))
  from enqueue_launch_ok [OF c n b xy, of nt krnl args k] e obtain step where
    k': "k' = kmu_start ((kmu_dcr_writes (launch_pcs krnl args) k)\<lparr>kmu_block_dim := b, kmu_grid_dim := g,
      kmu_lmem_size := li_lmem_size i, kmu_block_size := dim_x b * dim_y b * dim_z b, kmu_warp_step := step,
      kmu_cluster_dim := lg\<rparr>)" and st: "warp_steps (li_ndim i) (ucast nt) b = Some step" by (metis option.inject sum.inject(2))
  have r: "req_block_dim q = b" "req_block_size q = dim_x b * dim_y b * dim_z b" "req_warp_step q = step" "req_cluster_dim q = lg"
    using drain_requests [OF d] by (simp_all add: k' kmu_start_def Let_def)
  have "unat3 step = digits3 b (unat (num_threads cfg))" if "unat (num_threads cfg) < unat (req_block_size q)"
    using warp_steps_digits3 [OF b C(6) n l' _ st] that r(2) u(2) t(2) by simp
  then show "block_ok cfg q" using r l t w u(2) q by (simp add: block_ok_def req_ok_def)
  show "req_block_dim q = b" by (rule r)
qed

subsection \<open>A concrete block\<close>

text \<open>A block of 3 x 5 x 2 threads on a core with warps of four threads, 100 bytes of local memory each.\<close>

definition req4 :: kmu_req_t where
  "req4 = cta_req0\<lparr>req_block_dim := dim3_of 3 5 2, req_block_size := 30, req_warp_step := dim3_of 1 1 0,
     req_cluster_dim := dim3_of 1 1 1, req_lmem_size := 100\<rparr>"

definition cfg_t4 :: vx_cfg where
  "cfg_t4 = \<lparr>num_threads = 4, num_warps = 4, num_barriers = 8, num_cores = 1, num_clusters = 1, lmem_base = 0xFFFF0000,
     lmem_capacity = 16384, mem_block_size = 2 ^ 6\<rparr>"

definition disp4 :: cta_dispatcher where
  "disp4 = (cta_dispatcher_new cfg_t4)\<lparr>pending_cta := req4, has_pending := True\<rparr>"

lemma req4_ok: "block_ok cfg_t4 req4" "warps_of cfg_t4 req4 = 8"
  by (simp_all add: block_ok_def req_ok_def req4_def cfg_t4_def cta_req0_def unat3_def digits3_def warps_of_def)

lemma stride4: "unat (cta_stride cfg_t4 req4) = 128"
  using cta_stride_round_up [of cfg_t4 6 req4] by (simp add: cfg_t4_def req4_def cta_req0_def round_up_def)

lemma disp4_accept: "b < 4 \<Longrightarrow> \<exists>D'. accept_cta cfg_t4 disp4 (cta_stride cfg_t4 req4) 4 b = Some D'"
  by (simp add: accept_cta_def Let_def disp4_def cta_dispatcher_new_def cfg_t4_def lset_def word_less_nat_alt)

subsection \<open>Properties\<close>

text \<open>
  C12. The warps of a CTA are its threads: when a CTA has been admitted and its warps are handed out,
  the dispatcher hands out as many warps as the block needs and is then free for the next CTA, and
  the thread indices that the active lanes of these warps read from their CSRs are the threads of
  the block, each exactly once.
\<close>

theorem cta_threads_covered:
  assumes "block_ok c (pending_cta D)" "accept_cta c D stride m base = Some D'"
    and "length init = warps_of c (pending_cta D)"
  shows "\<exists>rs D''. issue_warps c init D' = Some (rs, D'') \<and> \<not> has_cta D'' \<and> length rs = warps_of c (pending_cta D) \<and>
    bij_betw (lane_thread rs) (lanes_of c rs) (Some ` ({..<unat (dim_x (req_block_dim (pending_cta D)))} \<times>
      {..<unat (dim_y (req_block_dim (pending_cta D)))} \<times> {..<unat (dim_z (req_block_dim (pending_cta D)))}))"
  using assms by (rule accepted_lanes_bij)

theorem cta_threads_covered_witness:
  "\<exists>D' rs D''. accept_cta cfg_t4 disp4 (cta_stride cfg_t4 req4) 4 1 = Some D' \<and>
     issue_warps cfg_t4 (replicate 8 True) D' = Some (rs, D'') \<and>
     bij_betw (lane_thread rs) (lanes_of cfg_t4 rs) (Some ` ({..<3} \<times> {..<5} \<times> {..<2}))"
proof -
  obtain D' where a: "accept_cta cfg_t4 disp4 (cta_stride cfg_t4 req4) 4 1 = Some D'" using disp4_accept [of 1] by auto
  have p: "pending_cta disp4 = req4" by (simp add: disp4_def)
  from cta_threads_covered [OF _ a, of "replicate 8 True"] req4_ok a show ?thesis
    unfolding p by (auto simp: req4_def)
qed

text \<open>
  C29. Two CTAs of a kernel that are resident in different slots have disjoint windows of local
  memory, and every window lies inside the local memory, provided the window of one CTA fits.
\<close>

theorem lmem_windows_disjoint:
  assumes "mem_block_size c = 2 ^ k" "k < 32" "unat (lmem_base c) + unat (lmem_capacity c) \<le> 2 ^ 64"
    and "unat (req_lmem_size q) + 2 ^ k \<le> 2 ^ 32" "0 < unat (req_lmem_size q)"
      "unat (cta_stride c q) \<le> unat (lmem_capacity c)"
    and a: "accept_cta c D (cta_stride c q) m b = Some D'" "b < usable_slots c (cta_stride c q)"
    and e: "accept_cta c E (cta_stride c q) n d = Some E'" "d < usable_slots c (cta_stride c q)"
    and "b \<noteq> d"
  shows "(unat (lmem_addr D') + unat (req_lmem_size q) \<le> unat (lmem_addr E') \<or>
      unat (lmem_addr E') + unat (req_lmem_size q) \<le> unat (lmem_addr D')) \<and>
    unat (lmem_base c) \<le> unat (lmem_addr D') \<and>
    unat (lmem_addr D') + unat (req_lmem_size q) \<le> unat (lmem_base c) + unat (lmem_capacity c)"
proof -
  note A = lmem_window [OF assms(1-6) a] and B = lmem_window [OF assms(1-6) e]
  let ?s = "unat (cta_stride c q)"
  have "unat b \<noteq> unat d" using assms(11) by (simp add: word_unat_eq_iff)
  then consider "unat b + 1 \<le> unat d" | "unat d + 1 \<le> unat b" by linarith
  then have "unat b * ?s + ?s \<le> unat d * ?s \<or> unat d * ?s + ?s \<le> unat b * ?s"
    by cases (use mult_right_mono [of "unat b + 1" "unat d" ?s] mult_right_mono [of "unat d + 1" "unat b" ?s] in auto)
  with A B show ?thesis by linarith
qed

theorem lmem_windows_disjoint_witness:
  "\<exists>D' E'. accept_cta cfg_t4 disp4 (cta_stride cfg_t4 req4) 4 1 = Some D' \<and>
     accept_cta cfg_t4 disp4 (cta_stride cfg_t4 req4) 4 3 = Some E' \<and>
     (unat (lmem_addr D') + 100 \<le> unat (lmem_addr E') \<or> unat (lmem_addr E') + 100 \<le> unat (lmem_addr D'))"
proof -
  obtain D' E' where a: "accept_cta cfg_t4 disp4 (cta_stride cfg_t4 req4) 4 1 = Some D'"
    "accept_cta cfg_t4 disp4 (cta_stride cfg_t4 req4) 4 3 = Some E'" using disp4_accept [of 1] disp4_accept [of 3] by auto
  have "cta_stride cfg_t4 req4 = 128" using stride4 by (simp add: word_unat_eq_iff)
  then have u: "usable_slots cfg_t4 (cta_stride cfg_t4 req4) = 4" by (simp add: usable_slots_def cfg_t4_def)
  have "(unat (lmem_addr D') + unat (req_lmem_size req4) \<le> unat (lmem_addr E') \<or>
      unat (lmem_addr E') + unat (req_lmem_size req4) \<le> unat (lmem_addr D'))"
    using lmem_windows_disjoint [of cfg_t4 6 req4 disp4 4 1 D' disp4 4 3 E'] a u stride4
    by (simp add: cfg_t4_def req4_def cta_req0_def)
  with a show ?thesis by (auto simp: req4_def)
qed

end
