(* ===== verification/Barrier.thy ===== *)
theory Barrier
  imports Scheduler
begin

text \<open>
  Barriers: \<open>BarrierUnit\<close> of \<open>sim/simx/barrier_unit.{h,cpp}\<close>, one per core, and the device-wide
  barriers of \<open>ProcessorImpl\<close>. A local barrier counts the arrivals of the warps of its core; a global
  one counts cores, whose last warp reports to the processor, which then resumes every core. The
  call from a core to the processor and back is synchronous, so the state is that of all cores.
\<close>

definition MAX_NUM_CORES :: nat where "MAX_NUM_CORES = 1024"

record warp_barrier_t =
  wait_mask :: "bool list"
  arrival_mask :: "bool list"
  bar_count :: u32
  bar_events :: u32
  bar_phase :: u32

definition warp_barrier_new :: warp_barrier_t where
  "warp_barrier_new = \<lparr>wait_mask = replicate MAX_NUM_WARPS False, arrival_mask = replicate MAX_NUM_WARPS False,
     bar_count = 0, bar_events = 0, bar_phase = 0\<rparr>"

definition warp_barrier_reset :: "warp_barrier_t \<Rightarrow> warp_barrier_t" where
  "warp_barrier_reset b = b\<lparr>wait_mask := replicate MAX_NUM_WARPS False, arrival_mask := replicate MAX_NUM_WARPS False,
     bar_count := 0, bar_events := 0, bar_phase := 0\<rparr>"

record core_t =
  core_sched :: sched
  core_bars :: "warp_barrier_t list"

record proc_t =
  proc_cores :: "core_t list"
  gbarriers :: "bool list list"

definition barriers_new :: "vx_cfg \<Rightarrow> warp_barrier_t list" where
  "barriers_new c = replicate (unat (num_warps c * num_barriers c)) warp_barrier_new"

definition barriers_on_reset :: "core_t \<Rightarrow> core_t" where
  "barriers_on_reset C = C\<lparr>core_bars := map warp_barrier_reset (core_bars C)\<rparr>"

text \<open>The flat index of a barrier, from the packed name a kernel uses; bit 31 marks a global barrier.\<close>

definition bar_decode_id :: "u32 \<Rightarrow> u32 \<Rightarrow> u32" where
  "bar_decode_id raw n =
     (let cta_no = raw AND 0xFF; bar_no = drop_bit 8 raw AND 0x7FFFFF
      in (cta_no * n + bar_no) OR (raw AND 0x80000000))"

definition bar_index :: "u32 \<Rightarrow> u32" where
  "bar_index bar_id = bar_id AND 0x7FFFFFFF"

definition is_global :: "u32 \<Rightarrow> bool" where
  "is_global bar_id \<longleftrightarrow> drop_bit 31 bar_id \<noteq> 0"

definition get_phase :: "core_t \<Rightarrow> u32 \<Rightarrow> u32 option" where
  "get_phase C bar_id = map_option bar_phase (vat (core_bars C) (bar_index bar_id))"

fun resume_waiters :: "bool list \<Rightarrow> nat list \<Rightarrow> sched \<Rightarrow> sched option" where
  "resume_waiters m [] S = Some S"
| "resume_waiters m (i # is) S = do {
     b \<leftarrow> lat m i;
     S \<leftarrow> (if b then resume S i else Some S);
     resume_waiters m is S }"

text \<open>Resume the warps that wait, and start the next phase of the barrier.\<close>

definition release_bar :: "vx_cfg \<Rightarrow> core_t \<Rightarrow> u32 \<Rightarrow> core_t option" where
  "release_bar c C i = do {
     b \<leftarrow> vat (core_bars C) i;
     S \<leftarrow> resume_waiters (wait_mask b) [0 ..< unat (num_warps c)] (core_sched C);
     bs \<leftarrow> vset (core_bars C) i (b\<lparr>wait_mask := replicate MAX_NUM_WARPS False, bar_phase := bar_phase b + 1\<rparr>);
     Some (C\<lparr>core_sched := S, core_bars := bs\<rparr>) }"

definition global_resume :: "vx_cfg \<Rightarrow> core_t \<Rightarrow> u32 \<Rightarrow> core_t option" where
  "global_resume c C bar_id = release_bar c C (bar_index bar_id)"

definition put_core :: "proc_t \<Rightarrow> nat \<Rightarrow> core_t \<Rightarrow> proc_t option" where
  "put_core P cid C = do { cs \<leftarrow> lset (proc_cores P) cid C; Some (P\<lparr>proc_cores := cs\<rparr>) }"

fun resume_cores :: "vx_cfg \<Rightarrow> bool list \<Rightarrow> u32 \<Rightarrow> nat list \<Rightarrow> proc_t \<Rightarrow> proc_t option" where
  "resume_cores c m bar_id [] P = Some P"
| "resume_cores c m bar_id (i # is) P = do {
     b \<leftarrow> lat m i;
     P \<leftarrow> (if b then do { C \<leftarrow> lat (proc_cores P) i; C \<leftarrow> global_resume c C bar_id; put_core P i C } else Some P);
     resume_cores c m bar_id is P }"

definition global_barrier_arrive :: "vx_cfg \<Rightarrow> proc_t \<Rightarrow> u32 \<Rightarrow> u32 \<Rightarrow> nat \<Rightarrow> proc_t option" where
  "global_barrier_arrive c P bar_id count core_id = do {
     check (gbarriers P \<noteq> []);
     let g = unat bar_id mod length (gbarriers P);
     m \<leftarrow> lat (gbarriers P) g;
     m \<leftarrow> lset m core_id True;
     gs \<leftarrow> lset (gbarriers P) g m;
     let P = P\<lparr>gbarriers := gs\<rparr>;
     if mcount m = unat count then do {
       P \<leftarrow> resume_cores c m bar_id [0 ..< unat (num_clusters c * num_cores c)] P;
       gs \<leftarrow> lset (gbarriers P) g (replicate MAX_NUM_CORES False);
       Some (P\<lparr>gbarriers := gs\<rparr>) }
     else Some P }"

text \<open>Tell the processor that this core has arrived, and forget the local arrivals.\<close>

definition report_core :: "vx_cfg \<Rightarrow> proc_t \<Rightarrow> nat \<Rightarrow> u32 \<Rightarrow> u32 \<Rightarrow> proc_t option" where
  "report_core c P cid bar_id count = do {
     P \<leftarrow> global_barrier_arrive c P bar_id count cid;
     C \<leftarrow> lat (proc_cores P) cid;
     b \<leftarrow> vat (core_bars C) (bar_index bar_id);
     bs \<leftarrow> vset (core_bars C) (bar_index bar_id)
       (b\<lparr>arrival_mask := replicate MAX_NUM_WARPS False, bar_count := 0, bar_events := 0\<rparr>);
     put_core P cid (C\<lparr>core_bars := bs\<rparr>) }"

definition arrive_global :: "vx_cfg \<Rightarrow> proc_t \<Rightarrow> nat \<Rightarrow> u32 \<Rightarrow> u32 \<Rightarrow> nat \<Rightarrow> bool \<Rightarrow> proc_t option" where
  "arrive_global c P cid bar_id count wid is_sync = do {
     C \<leftarrow> lat (proc_cores P) cid;
     b \<leftarrow> vat (core_bars C) (bar_index bar_id);
     a \<leftarrow> lset (arrival_mask b) wid True;
     w \<leftarrow> (if is_sync then lset (wait_mask b) wid True else Some (wait_mask b));
     bs \<leftarrow> vset (core_bars C) (bar_index bar_id) (b\<lparr>bar_count := count, arrival_mask := a, wait_mask := w\<rparr>);
     P \<leftarrow> put_core P cid (C\<lparr>core_bars := bs\<rparr>);
     if mcount a = mcount (active_warps (core_sched C)) \<and> bar_events b = 0
     then report_core c P cid bar_id count
     else Some P }"

definition arrive_local :: "vx_cfg \<Rightarrow> core_t \<Rightarrow> u32 \<Rightarrow> u32 \<Rightarrow> nat \<Rightarrow> bool \<Rightarrow> core_t option" where
  "arrive_local c C i count wid is_sync = do {
     b \<leftarrow> vat (core_bars C) i;
     w \<leftarrow> (if is_sync then lset (wait_mask b) wid True else Some (wait_mask b));
     bs \<leftarrow> vset (core_bars C) i (b\<lparr>wait_mask := w\<rparr>);
     let C = C\<lparr>core_bars := bs\<rparr>;
     let count_p1 = bar_count b + 1;
     C \<leftarrow> (if count_p1 = count \<and> bar_events b = 0 then release_bar c C i else Some C);
     check (count \<noteq> 0);
     b \<leftarrow> vat (core_bars C) i;
     bs \<leftarrow> vset (core_bars C) i (b\<lparr>bar_count := count_p1 mod count\<rparr>);
     Some (C\<lparr>core_bars := bs\<rparr>) }"

definition arrive :: "vx_cfg \<Rightarrow> proc_t \<Rightarrow> nat \<Rightarrow> u32 \<Rightarrow> u32 \<Rightarrow> nat \<Rightarrow> bool \<Rightarrow> proc_t option" where
  "arrive c P cid bar_id count wid is_sync =
     (if is_global bar_id then arrive_global c P cid bar_id count wid is_sync
      else do {
        C \<leftarrow> lat (proc_cores P) cid;
        C \<leftarrow> arrive_local c C (bar_index bar_id) count wid is_sync;
        put_core P cid C })"

definition bar_wait :: "core_t \<Rightarrow> u32 \<Rightarrow> u32 \<Rightarrow> nat \<Rightarrow> (bool \<times> core_t) option" where
  "bar_wait C bar_id phase wid = do {
     b \<leftarrow> vat (core_bars C) (bar_index bar_id);
     if bar_phase b = phase then do {
       w \<leftarrow> lset (wait_mask b) wid True;
       bs \<leftarrow> vset (core_bars C) (bar_index bar_id) (b\<lparr>wait_mask := w\<rparr>);
       Some (True, C\<lparr>core_bars := bs\<rparr>) }
     else Some (False, C) }"

definition event_attach :: "core_t \<Rightarrow> u32 \<Rightarrow> u32 \<Rightarrow> core_t option" where
  "event_attach C bar_id count = do {
     b \<leftarrow> vat (core_bars C) (bar_index bar_id);
     bs \<leftarrow> vset (core_bars C) (bar_index bar_id) (b\<lparr>bar_events := bar_events b + count\<rparr>);
     Some (C\<lparr>core_bars := bs\<rparr>) }"

definition event_release :: "vx_cfg \<Rightarrow> proc_t \<Rightarrow> nat \<Rightarrow> u32 \<Rightarrow> proc_t option" where
  "event_release c P cid bar_id = do {
     C \<leftarrow> lat (proc_cores P) cid;
     b \<leftarrow> vat (core_bars C) (bar_index bar_id);
     check (bar_events b > 0);
     bs \<leftarrow> vset (core_bars C) (bar_index bar_id) (b\<lparr>bar_events := bar_events b - 1\<rparr>);
     let C = C\<lparr>core_bars := bs\<rparr>;
     P \<leftarrow> put_core P cid C;
     if bar_events b - 1 = 0 then
       (if is_global bar_id then
          (if mcount (arrival_mask b) = mcount (active_warps (core_sched C))
           then report_core c P cid bar_id (bar_count b) else Some P)
        else
          (if bar_count b = 0 then do { C \<leftarrow> release_bar c C (bar_index bar_id); put_core P cid C } else Some P))
     else Some P }"

end
