(* ===== verification/Wctl.thy ===== *)
theory Wctl
  imports Barrier
begin

text \<open>
  The warp-control instructions, \<open>WctlUnit::process\<close> of \<open>sim/simx/wctl_unit.cpp\<close>: thread masks,
  divergence with the stack of reconvergence points, predication, spawning and barriers. A result
  \<open>None\<close> is an abort, an out-of-range access or undefined behaviour. Thread masks have \<open>num_threads\<close> bits, as
  \<open>sched_shape\<close> says.
\<close>

datatype WctlType = TMC | WSPAWN | SPLIT | JOIN | BAR | PRED | WSYNC

record IntrWctlArgs =
  is_cond_neg :: bool
  is_sync_bar :: bool
  is_bar_arrive :: bool

record wctl_trace =
  wctl_type :: WctlType
  wctl_args :: IntrWctlArgs
  wt_wid :: nat
  wt_PC :: u64
  wt_eop :: bool
  wt_wb :: bool
  wt_fetch_stall :: bool
  wt_rs1 :: "u64 list"
  wt_rs2 :: "u64 list"
  wt_dst :: "u64 list"

text \<open>The scans for the first and for the last active thread; without one they leave the range.\<close>

definition wctl_thread_start :: "nat \<Rightarrow> bool list \<Rightarrow> nat" where
  "wctl_thread_start nt tm = (case List.find (\<lambda>t. tm ! t) [0 ..< nt] of Some t \<Rightarrow> t | None \<Rightarrow> nt)"

definition thread_last :: "nat \<Rightarrow> bool list \<Rightarrow> nat option" where
  "thread_last nt tm = List.find (\<lambda>t. tm ! t) (rev [0 ..< nt])"

definition last_arg :: "nat \<Rightarrow> bool list \<Rightarrow> u64 list \<Rightarrow> u64 option" where
  "last_arg nt tm rs = do { t \<leftarrow> thread_last nt tm; lat rs t }"

text \<open>
  \<open>1 << t\<close> is an \<open>int\<close>, which the conversion to the type of the register sign-extends: for \<open>t = 31\<close> it is
  negative and its sign fills the upper half of the register. A larger shift is undefined.
\<close>

definition tmc_bit :: "u64 \<Rightarrow> nat \<Rightarrow> bool option" where
  "tmc_bit v t = (if t < 32 then Some (v AND scast (push_bit t (1 :: u32)) \<noteq> 0) else None)"

fun tmc_bits :: "u64 \<Rightarrow> nat list \<Rightarrow> bool list option" where
  "tmc_bits v [] = Some []"
| "tmc_bits v (t # ts) = do { b \<leftarrow> tmc_bit v t; bs \<leftarrow> tmc_bits v ts; Some (b # bs) }"

definition lane_cond :: "bool \<Rightarrow> u64 \<Rightarrow> bool" where
  "lane_cond neg v \<longleftrightarrow> (v AND 1 \<noteq> 0) \<noteq> neg"

definition mand :: "bool list \<Rightarrow> bool list \<Rightarrow> bool list" where
  "mand a b = map2 (\<and>) a b"

definition mnot :: "bool list \<Rightarrow> bool list" where
  "mnot a = map Not a"

definition cond_mask :: "nat \<Rightarrow> bool \<Rightarrow> bool list \<Rightarrow> u64 list \<Rightarrow> bool list" where
  "cond_mask nt neg tm rs = map (\<lambda>t. tm ! t \<and> lane_cond neg (rs ! t)) [0 ..< nt]"

text \<open>A \<open>ThreadMask\<close> made from the low bits of a register.\<close>

definition mask_of :: "nat \<Rightarrow> u64 \<Rightarrow> bool list" where
  "mask_of n v = map (bit v) [0 ..< n]"

definition fill_from :: "nat \<Rightarrow> nat \<Rightarrow> u64 list \<Rightarrow> u64 \<Rightarrow> u64 list" where
  "fill_from i nt dst v = map (\<lambda>t. if i \<le> t \<and> t < nt then v else dst ! t) [0 ..< length dst]"

text \<open>
  The effect of \<open>SPLIT\<close> and \<open>JOIN\<close> on the warp before the new mask is set: that mask and the warp with
  its reconvergence stack, the top of the stack first.
\<close>

definition split_warp :: "u32 \<Rightarrow> nat \<Rightarrow> bool \<Rightarrow> u64 list \<Rightarrow> u64 \<Rightarrow> warp_t \<Rightarrow> (bool list \<times> warp_t) option" where
  "split_warp limit nt neg rs next_pc w =
     (let then_tmask = cond_mask nt neg (tmask w) rs;
          else_tmask = cond_mask nt (\<not> neg) (tmask w) rs
      in if many then_tmask \<and> many else_tmask then do {
           check (length (ipdom_stack w) \<noteq> unat limit);
           Some (if mcount then_tmask \<le> mcount else_tmask then then_tmask else else_tmask,
             w\<lparr>ipdom_stack := ipdom_entry_new (tmask w) next_pc # ipdom_stack w\<rparr>) }
         else Some (tmask w, w))"

definition join_warp :: "u64 \<Rightarrow> warp_t \<Rightarrow> (bool list \<times> warp_t) option" where
  "join_warp stack_ptr w =
     (if stack_ptr \<noteq> of_nat (length (ipdom_stack w)) then
        (case ipdom_stack w of
           [] \<Rightarrow> None
         | e # es \<Rightarrow>
             if fallthrough e then Some (orig_tmask e, w\<lparr>ipdom_stack := es\<rparr>)
             else Some (mand (mnot (tmask w)) (orig_tmask e),
               w\<lparr>wPC := else_PC e, ipdom_stack := e\<lparr>fallthrough := True\<rparr> # es\<rparr>))
      else Some (tmask w, w))"

definition wctl_put_warp :: "core_t \<Rightarrow> nat \<Rightarrow> warp_t \<Rightarrow> core_t option" where
  "wctl_put_warp C wid w = do { ws \<leftarrow> lset (warps (core_sched C)) wid w; Some (C\<lparr>core_sched := (core_sched C)\<lparr>warps := ws\<rparr>\<rparr>) }"

definition core_setTmask :: "vx_cfg \<Rightarrow> proc_t \<Rightarrow> nat \<Rightarrow> core_t \<Rightarrow> nat \<Rightarrow> bool list \<Rightarrow> (bool \<times> proc_t) option" where
  "core_setTmask c P cid C wid tm = do {
     (r, S) \<leftarrow> setTmask c (core_sched C) wid tm;
     P \<leftarrow> put_core P cid (C\<lparr>core_sched := S\<rparr>);
     Some (r, P) }"

definition process_bar :: "vx_cfg \<Rightarrow> proc_t \<Rightarrow> nat \<Rightarrow> core_t \<Rightarrow> warp_t \<Rightarrow> wctl_trace \<Rightarrow> (bool \<times> u64 list \<times> proc_t) option" where
  "process_bar c P cid C w tr = do {
     let nt = unat (num_threads c);
     v1 \<leftarrow> last_arg nt (tmask w) (wt_rs1 tr);
     v2 \<leftarrow> last_arg nt (tmask w) (wt_rs2 tr);
     let arg1 = (ucast v1 :: u32);
     let arg2 = (ucast v2 :: u32);
     let bar_id = bar_decode_id arg1 (num_barriers c);
     let is_tx_expect = (is_bar_arrive (wctl_args tr) \<and> bit arg2 31);
     dst \<leftarrow> (if is_bar_arrive (wctl_args tr) then do {
         ph \<leftarrow> get_phase C bar_id;
         Some (map (\<lambda>t. if t < nt \<and> tmask w ! t then ucast (ph AND 1) else wt_dst tr ! t) [0 ..< length (wt_dst tr)]) }
       else Some (wt_dst tr));
     if \<not> wt_eop tr then Some (wt_fetch_stall tr, dst, P)
     else if is_tx_expect then do {
       C \<leftarrow> event_attach C bar_id (arg2 AND 0x7FFFFFFF);
       P \<leftarrow> put_core P cid C;
       Some (wt_fetch_stall tr, dst, P) }
     else if wt_wb tr \<or> is_sync_bar (wctl_args tr) then do {
       P \<leftarrow> arrive c P cid bar_id arg2 (wt_wid tr) (is_sync_bar (wctl_args tr));
       Some (wt_fetch_stall tr \<and> \<not> is_sync_bar (wctl_args tr), dst, P) }
     else do {
       (wt, C) \<leftarrow> bar_wait C bar_id arg2 (wt_wid tr);
       P \<leftarrow> put_core P cid C;
       Some (\<not> wt, dst, P) } }"

definition wctl_process :: "vx_cfg \<Rightarrow> proc_t \<Rightarrow> nat \<Rightarrow> wctl_trace \<Rightarrow> (bool \<times> u64 list \<times> proc_t) option" where
  "wctl_process c P cid tr = do {
     C \<leftarrow> lat (proc_cores P) cid;
     w \<leftarrow> lat (warps (core_sched C)) (wt_wid tr);
     let nt = unat (num_threads c);
     let wid = wt_wid tr;
     let skip = (wt_fetch_stall tr, wt_dst tr, P);
     case wctl_type tr of
       TMC \<Rightarrow> do {
         v \<leftarrow> last_arg nt (tmask w) (wt_rs1 tr);
         tm \<leftarrow> tmc_bits v [0 ..< nt];
         if \<not> wt_eop tr then Some skip
         else do { (r, P) \<leftarrow> core_setTmask c P cid C wid tm; Some (r, wt_dst tr, P) } }
     | WSPAWN \<Rightarrow>
         if \<not> wt_eop tr then Some skip
         else do {
           n \<leftarrow> last_arg nt (tmask w) (wt_rs1 tr);
           pc \<leftarrow> last_arg nt (tmask w) (wt_rs2 tr);
           let (r, S) = wspawn c (core_sched C) (ucast n) pc;
           P \<leftarrow> put_core P cid (C\<lparr>core_sched := S\<rparr>);
           Some (r, wt_dst tr, P) }
     | SPLIT \<Rightarrow> do {
         let dst = fill_from (wctl_thread_start nt (tmask w)) nt (wt_dst tr) (of_nat (length (ipdom_stack w)));
         check (length (wt_rs1 tr) \<ge> nt);
         if \<not> wt_eop tr then Some (wt_fetch_stall tr, dst, P)
         else do {
           (tm, w) \<leftarrow> split_warp (ipdom_size c) nt (is_cond_neg (wctl_args tr)) (wt_rs1 tr) (wt_PC tr + 4) w;
           C \<leftarrow> wctl_put_warp C wid w;
           (r, P) \<leftarrow> core_setTmask c P cid C wid tm;
           Some (r, dst, P) } }
     | JOIN \<Rightarrow> do {
         sp \<leftarrow> last_arg nt (tmask w) (wt_rs1 tr);
         if \<not> wt_eop tr then Some skip
         else do {
           (tm, w) \<leftarrow> join_warp sp w;
           C \<leftarrow> wctl_put_warp C wid w;
           (r, P) \<leftarrow> core_setTmask c P cid C wid tm;
           Some (r, wt_dst tr, P) } }
     | BAR \<Rightarrow> process_bar c P cid C w tr
     | PRED \<Rightarrow> do {
         check (length (wt_rs1 tr) \<ge> nt);
         let pred = cond_mask nt (is_cond_neg (wctl_args tr)) (tmask w) (wt_rs1 tr);
         tm \<leftarrow> (if many pred then Some (mand (tmask w) pred)
           else do { v \<leftarrow> last_arg nt (tmask w) (wt_rs2 tr); Some (mask_of nt v) });
         if \<not> wt_eop tr then Some skip
         else do { (r, P) \<leftarrow> core_setTmask c P cid C wid tm; Some (r, wt_dst tr, P) } }
     | WSYNC \<Rightarrow> Some (True, wt_dst tr, P) }"

end
