(* ===== verification/Barrier_Inv.thy ===== *)
theory Barrier_Inv
  imports Barrier Scheduler_Inv
begin

text \<open>
  Correctness of the barriers. A warp that waits at a barrier is parked: it is active, stalled, and
  waits nowhere else, so that the release of its barrier can resume it. Every operation keeps this,
  on the core of the warp and, for global barriers, on the whole device.
\<close>

definition parked :: "vx_cfg \<Rightarrow> sched \<Rightarrow> nat \<Rightarrow> bool" where
  "parked c S w \<longleftrightarrow> w < unat (num_warps c) \<and> active_warps S ! w \<and> stalled_warps_next S ! w \<and> (w = 0 \<longrightarrow> \<not> wspawn_valid S)"

definition bar_shape :: "warp_barrier_t \<Rightarrow> bool" where
  "bar_shape b \<longleftrightarrow> length (wait_mask b) = MAX_NUM_WARPS \<and> length (arrival_mask b) = MAX_NUM_WARPS"

definition waits_at :: "core_t \<Rightarrow> nat \<Rightarrow> nat \<Rightarrow> bool" where
  "waits_at C i w \<longleftrightarrow> w < MAX_NUM_WARPS \<and> wait_mask (core_bars C ! i) ! w"

definition core_inv :: "vx_cfg \<Rightarrow> core_t \<Rightarrow> bool" where
  "core_inv c C \<longleftrightarrow> sched_inv c (core_sched C) \<and> (\<forall>b \<in> set (core_bars C). bar_shape b) \<and>
     (\<forall>i < length (core_bars C). \<forall>w. waits_at C i w \<longrightarrow> parked c (core_sched C) w) \<and>
     (\<forall>i < length (core_bars C). \<forall>j < length (core_bars C). \<forall>w. waits_at C i w \<longrightarrow> waits_at C j w \<longrightarrow> i = j)"

text \<open>The stall state once the warps of a mask have been resumed.\<close>

definition unstall :: "nat set \<Rightarrow> sched \<Rightarrow> sched" where
  "unstall W S = S\<lparr>stalled_warps_next := map (\<lambda>w. stalled_warps_next S ! w \<and> w \<notin> W) [0 ..< MAX_NUM_WARPS]\<rparr>"

lemma unstall_simps [simp]:
  "active_warps (unstall W S) = active_warps S" "stalled_warps (unstall W S) = stalled_warps S"
  "warps (unstall W S) = warps S" "wspawn_valid (unstall W S) = wspawn_valid S" "cta_disp (unstall W S) = cta_disp S"
  "w < MAX_NUM_WARPS \<Longrightarrow> stalled_warps_next (unstall W S) ! w = (stalled_warps_next S ! w \<and> w \<notin> W)"
  "length (stalled_warps_next (unstall W S)) = MAX_NUM_WARPS"
  by (simp_all add: unstall_def)

lemma unstall_inv:
  assumes "sched_inv c S" "0 \<in> W \<Longrightarrow> \<not> wspawn_valid S"
  shows "sched_inv c (unstall W S)"
proof -
  have "sched_inv c (S\<lparr>stalled_warps_next := map (\<lambda>w. stalled_warps_next S ! w \<and> w \<notin> W) [0 ..< MAX_NUM_WARPS],
      stalled_warps := stalled_warps S\<rparr>)"
  proof (rule sched_inv_stall [OF assms(1)])
    show "length (stalled_warps S) = MAX_NUM_WARPS" using assms(1) by (simp add: sched_inv_def sched_shape_def)
    show "\<forall>w < MAX_NUM_WARPS. map (\<lambda>w. stalled_warps_next S ! w \<and> w \<notin> W) [0 ..< MAX_NUM_WARPS] ! w \<longrightarrow> stalled_warps S ! w"
      using assms(1) by (simp add: sched_inv_def masks_inv_def)
    assume "wspawn_valid S"
    with assms have "stalled_warps_next S ! 0" "0 \<notin> W" by (auto simp: sched_inv_def wspawn_inv_def)
    then show "map (\<lambda>w. stalled_warps_next S ! w \<and> w \<notin> W) [0 ..< MAX_NUM_WARPS] ! 0"
      using nth_map [of 0 "[0 ..< MAX_NUM_WARPS]"] by (simp add: MAX_NUM_WARPS_def del: upt_rec_numeral)
  qed simp
  then show ?thesis by (simp add: unstall_def)
qed

lemma resume_waiters_spec:
  assumes "sched_inv c S" "distinct is" "\<forall>i \<in> set is. i < unat (num_warps c)" "length m = MAX_NUM_WARPS"
    and "\<forall>i \<in> set is. m ! i \<longrightarrow> parked c S i"
  shows "resume_waiters m is S = Some (unstall {i \<in> set is. m ! i} S)"
  using assms
proof (induction "is" arbitrary: S)
  case Nil
  have "S\<lparr>stalled_warps_next := map (\<lambda>w. stalled_warps_next S ! w) [0 ..< MAX_NUM_WARPS]\<rparr> = S"
    using Nil.prems(1) map_nth [of "stalled_warps_next S"] by (simp add: sched_inv_def sched_shape_def)
  then show ?case by (simp add: unstall_def)
next
  case (Cons i "is")
  have i: "i < unat (num_warps c)" using Cons.prems(3) by simp
  have l: "i < MAX_NUM_WARPS" "i < length m" using sched_inv_lengths [OF Cons.prems(1) i] Cons.prems(4) by simp_all
  show ?case
  proof (cases "m ! i")
    case False
    then have "{j \<in> set (i # is). m ! j} = {j \<in> set is. m ! j}" by auto
    with False Cons.IH [OF Cons.prems(1)] Cons.prems l show ?thesis by simp
  next
    case True
    let ?T = "S\<lparr>stalled_warps_next := (stalled_warps_next S)[i := False]\<rparr>"
    have p: "parked c S i" using Cons.prems(5) True by simp
    then have r: "resume S i = Some ?T" "sched_inv c ?T" using resume_inv [OF Cons.prems(1) i] by (auto simp: parked_def)
    have d: "i \<notin> set is" "distinct is" using Cons.prems(2) by auto
    have q: "\<forall>j \<in> set is. m ! j \<longrightarrow> parked c ?T j"
    proof (intro ballI impI)
      fix j assume j: "j \<in> set is" "m ! j"
      then have "i \<noteq> j" using d by blast
      moreover have "parked c S j" using j Cons.prems(5) by simp
      ultimately show "parked c ?T j" by (simp add: parked_def)
    qed
    have "resume_waiters m is ?T = Some (unstall {j \<in> set is. m ! j} ?T)"
      using Cons.prems(3,4) d(2) q by (intro Cons.IH [OF r(2)]) simp_all
    moreover have "unstall {j \<in> set is. m ! j} ?T = unstall {j \<in> set (i # is). m ! j} S"
      using True l sched_inv_lengths(4) [OF Cons.prems(1) i] by (auto simp: unstall_def nth_list_update)
    ultimately show ?thesis using True l r(1) by simp
  qed
qed

text \<open>The warps that wait at a barrier.\<close>

definition waiters :: "core_t \<Rightarrow> nat \<Rightarrow> nat set" where
  "waiters C i = {w. waits_at C i w}"

lemma core_invD:
  assumes "core_inv c C"
  shows "sched_inv c (core_sched C)" "\<And>b. b \<in> set (core_bars C) \<Longrightarrow> bar_shape b"
    "\<And>i w. i < length (core_bars C) \<Longrightarrow> waits_at C i w \<Longrightarrow> parked c (core_sched C) w"
    "\<And>i j w. i < length (core_bars C) \<Longrightarrow> j < length (core_bars C) \<Longrightarrow> waits_at C i w \<Longrightarrow> waits_at C j w \<Longrightarrow> i = j"
  using assms by (simp_all add: core_inv_def)

lemma core_inv_shape:
  assumes "core_inv c C" "i < length (core_bars C)"
  shows "length (wait_mask (core_bars C ! i)) = MAX_NUM_WARPS" "length (arrival_mask (core_bars C ! i)) = MAX_NUM_WARPS"
  using core_invD(2) [OF assms(1), of "core_bars C ! i"] assms(2) by (simp_all add: bar_shape_def)

text \<open>A barrier whose bookkeeping changes, but not the warps that wait.\<close>

definition set_bar :: "core_t \<Rightarrow> nat \<Rightarrow> warp_barrier_t \<Rightarrow> core_t" where
  "set_bar C i b = C\<lparr>core_bars := (core_bars C)[i := b]\<rparr>"

lemma set_bar_simps [simp]:
  "core_sched (set_bar C i b) = core_sched C" "length (core_bars (set_bar C i b)) = length (core_bars C)"
  "i < length (core_bars C) \<Longrightarrow> core_bars (set_bar C i b) ! i = b"
  "j \<noteq> i \<Longrightarrow> core_bars (set_bar C i b) ! j = core_bars C ! j"
  "set_bar (set_bar C i b) i b' = set_bar C i b'"
  "set_bar (C\<lparr>core_sched := S\<rparr>) i b = (set_bar C i b)\<lparr>core_sched := S\<rparr>"
  by (simp_all add: set_bar_def)

lemma waits_at_set_bar:
  assumes "i < length (core_bars C)"
  shows "waits_at (set_bar C i b) j w \<longleftrightarrow> (if j = i then w < MAX_NUM_WARPS \<and> wait_mask b ! w else waits_at C j w)"
  using assms by (simp add: waits_at_def)

lemma core_inv_set_bar:
  assumes i: "core_inv c C" "i < length (core_bars C)" and b: "bar_shape b"
    and w: "\<And>w. w < MAX_NUM_WARPS \<Longrightarrow> wait_mask b ! w \<Longrightarrow> waits_at C i w \<or>
      parked c (core_sched C) w \<and> (\<forall>j < length (core_bars C). \<not> waits_at C j w)"
  shows "core_inv c (set_bar C i b)"
proof -
  have m: "j = i" if "waits_at C j w" "j < length (core_bars C)" "w < MAX_NUM_WARPS" "wait_mask b ! w" for j w
    using w [OF that(3,4)] core_invD(4) [OF i(1) that(2) i(2) that(1)] that(1,2) by blast
  have "parked c (core_sched C) w" if "waits_at (set_bar C i b) j w" "j < length (core_bars C)" for j w
  proof (cases "j = i")
    case True
    with that have "w < MAX_NUM_WARPS" "wait_mask b ! w" by (simp_all add: waits_at_set_bar [OF i(2)])
    with w [of w] core_invD(3) [OF i] show ?thesis by blast
  next
    case False
    with that core_invD(3) [OF i(1) that(2)] show ?thesis by (simp add: waits_at_set_bar [OF i(2)])
  qed
  moreover have "j = k" if a: "waits_at (set_bar C i b) j w" "waits_at (set_bar C i b) k w"
      "j < length (core_bars C)" "k < length (core_bars C)" for j k w
  proof (cases "j = i")
    case True
    with a(1) have w: "w < MAX_NUM_WARPS" "wait_mask b ! w" by (simp_all add: waits_at_set_bar [OF i(2)])
    show ?thesis
    proof (rule ccontr)
      assume n: "j \<noteq> k"
      with a(2) True have "waits_at C k w" by (simp add: waits_at_set_bar [OF i(2)])
      with m [OF _ a(4) w] n True show False by simp
    qed
  next
    case j: False
    with a(1) have x: "waits_at C j w" by (simp add: waits_at_set_bar [OF i(2)])
    show ?thesis
    proof (cases "k = i")
      case True
      with a(2) have "w < MAX_NUM_WARPS" "wait_mask b ! w" by (simp_all add: waits_at_set_bar [OF i(2)])
      with m [OF x a(3)] j show ?thesis by simp
    next
      case False
      with a(2) have "waits_at C k w" by (simp add: waits_at_set_bar [OF i(2)])
      with core_invD(4) [OF i(1) a(3,4) x] show ?thesis by simp
    qed
  qed
  moreover have "\<forall>d \<in> set (core_bars (set_bar C i b)). bar_shape d"
    using core_invD(2) [OF i(1)] b set_update_subset_insert [of "core_bars C" i b] by (auto simp: set_bar_def)
  ultimately show ?thesis using core_invD(1) [OF i(1)] unfolding core_inv_def set_bar_simps by blast
qed

lemma core_inv_sched:
  assumes "core_inv c C" "sched_inv c S" "\<And>i w. i < length (core_bars C) \<Longrightarrow> waits_at C i w \<Longrightarrow> parked c S w"
  shows "core_inv c (C\<lparr>core_sched := S\<rparr>)"
proof -
  have "waits_at (C\<lparr>core_sched := S\<rparr>) = waits_at C" by (intro ext) (simp add: waits_at_def)
  with assms show ?thesis by (simp add: core_inv_def)
qed

text \<open>The core after the release of a barrier.\<close>

definition released :: "core_t \<Rightarrow> nat \<Rightarrow> core_t" where
  "released C i = (set_bar C i ((core_bars C ! i)\<lparr>wait_mask := replicate MAX_NUM_WARPS False,
     bar_phase := bar_phase (core_bars C ! i) + 1\<rparr>))\<lparr>core_sched := unstall (waiters C i) (core_sched C)\<rparr>"

lemma release_bar_spec:
  assumes i: "core_inv c C" "unat i < length (core_bars C)"
  defines "b \<equiv> core_bars C ! unat i"
  shows "release_bar c C i = Some (released C (unat i))" "core_inv c (released C (unat i))"
proof -
  note s = core_invD(1) [OF i(1)]
  have n: "unat (num_warps c) \<le> MAX_NUM_WARPS" using s by (simp add: sched_inv_def sched_shape_def)
  have p: "w < MAX_NUM_WARPS \<Longrightarrow> wait_mask b ! w \<Longrightarrow> parked c (core_sched C) w" for w
    using core_invD(3) [OF i] by (simp add: waits_at_def b_def)
  have W: "{w \<in> set [0 ..< unat (num_warps c)]. wait_mask b ! w} = waiters C (unat i)"
    using p n by (auto simp: waiters_def waits_at_def b_def [symmetric] parked_def)
  have "resume_waiters (wait_mask b) [0 ..< unat (num_warps c)] (core_sched C) =
      Some (unstall {w \<in> set [0 ..< unat (num_warps c)]. wait_mask b ! w} (core_sched C))"
    using p n core_inv_shape [OF i] by (intro resume_waiters_spec [OF s]) (auto simp: b_def)
  then show "release_bar c C i = Some (released C (unat i))"
    using i(2) unfolding W by (simp add: release_bar_def released_def set_bar_def b_def)
  let ?b = "b\<lparr>wait_mask := replicate MAX_NUM_WARPS False, bar_phase := bar_phase b + 1\<rparr>"
  have j: "core_inv c (set_bar C (unat i) ?b)"
    using core_inv_shape [OF i] by (intro core_inv_set_bar [OF i]) (simp_all add: bar_shape_def b_def)
  have "0 \<in> waiters C (unat i) \<Longrightarrow> \<not> wspawn_valid (core_sched C)"
    using p [of 0] by (auto simp: waiters_def waits_at_def b_def [symmetric] parked_def)
  then have u: "sched_inv c (unstall (waiters C (unat i)) (core_sched C))" by (rule unstall_inv [OF s])
  have q: "parked c (unstall (waiters C (unat i)) (core_sched C)) w"
    if a: "waits_at (set_bar C (unat i) ?b) k w" "k < length (core_bars C)" for k w
  proof -
    have w: "w < MAX_NUM_WARPS" using a(1) by (simp add: waits_at_def)
    have k: "k \<noteq> unat i" using a(1) w by (auto simp: waits_at_set_bar [OF i(2)])
    with a(1) have x: "waits_at C k w" by (simp add: waits_at_set_bar [OF i(2)])
    then have "\<not> waits_at C (unat i) w" using core_invD(4) [OF i(1) a(2) i(2)] k by blast
    with w core_invD(3) [OF i(1) a(2) x] show ?thesis by (simp add: parked_def waiters_def)
  qed
  show "core_inv c (released C (unat i))"
    unfolding released_def b_def [symmetric] by (rule core_inv_sched [OF j u]) (simp add: q)
qed

definition proc_inv :: "vx_cfg \<Rightarrow> proc_t \<Rightarrow> bool" where
  "proc_inv c P \<longleftrightarrow> length (proc_cores P) = unat (num_clusters c * num_cores c) \<and> length (proc_cores P) \<le> MAX_NUM_CORES \<and>
     (\<forall>C \<in> set (proc_cores P). core_inv c C \<and> length (core_bars C) = unat (num_warps c * num_barriers c)) \<and>
     gbarriers P \<noteq> [] \<and> (\<forall>m \<in> set (gbarriers P). length m = MAX_NUM_CORES)"

text \<open>A warp may arrive at a barrier it would suspend on while it is stalled and waits nowhere.\<close>

definition may_wait :: "vx_cfg \<Rightarrow> core_t \<Rightarrow> nat \<Rightarrow> bool" where
  "may_wait c C w \<longleftrightarrow> parked c (core_sched C) w \<and> (\<forall>i < length (core_bars C). \<not> waits_at C i w)"

lemma may_wait_less:
  assumes "core_inv c C" "may_wait c C w"
  shows "w < MAX_NUM_WARPS"
  using sched_inv_lengths(10) [OF core_invD(1) [OF assms(1)]] assms(2) by (simp add: may_wait_def parked_def)

definition add_waiter :: "bool \<Rightarrow> nat \<Rightarrow> bool list \<Rightarrow> bool list" where
  "add_waiter is_sync w m = (if is_sync then m[w := True] else m)"

lemma length_add_waiter [simp]: "length (add_waiter s w m) = length m"
  by (simp add: add_waiter_def)

lemma nth_add_waiter: "w < length m \<Longrightarrow> add_waiter s w m ! v \<longleftrightarrow> m ! v \<or> s \<and> v = w"
  by (auto simp: add_waiter_def nth_list_update)

lemma add_waiter_inv:
  assumes i: "core_inv c C" "i < length (core_bars C)" and w: "s \<longrightarrow> may_wait c C w" "w < MAX_NUM_WARPS"
    and b: "wait_mask b = add_waiter s w (wait_mask (core_bars C ! i))" "length (arrival_mask b) = MAX_NUM_WARPS"
  shows "core_inv c (set_bar C i b)" "waiters (set_bar C i b) i = waiters C i \<union> (if s then {w} else {})"
proof -
  have n: "wait_mask b ! v \<longleftrightarrow> wait_mask (core_bars C ! i) ! v \<or> s \<and> v = w" for v
    using w(2) core_inv_shape [OF i] by (simp add: b nth_add_waiter)
  show "core_inv c (set_bar C i b)"
    using w n b core_inv_shape [OF i]
    by (intro core_inv_set_bar [OF i]) (auto simp: bar_shape_def may_wait_def waits_at_def)
  show "waiters (set_bar C i b) i = waiters C i \<union> (if s then {w} else {})"
    using n w(2) i(2) by (auto simp: waiters_def waits_at_def)
qed

lemma arrive_local_first:
  fixes s :: bool
  assumes i: "core_inv c C" "unat i < length (core_bars C)" and w: "w < MAX_NUM_WARPS"
  defines "b \<equiv> core_bars C ! unat i"
  defines "C1 \<equiv> set_bar C (unat i) (b\<lparr>wait_mask := add_waiter s w (wait_mask b)\<rparr>)"
  shows "arrive_local c C i n w s = do {
     C \<leftarrow> (if bar_count b + 1 = n \<and> bar_events b = 0 then release_bar c C1 i else Some C1);
     check (n \<noteq> 0);
     b' \<leftarrow> vat (core_bars C) i;
     bs \<leftarrow> vset (core_bars C) i (b'\<lparr>bar_count := (bar_count b + 1) mod n\<rparr>);
     Some (C\<lparr>core_bars := bs\<rparr>) }"
  using i(2) w core_inv_shape [OF i]
  by (simp add: arrive_local_def b_def C1_def add_waiter_def set_bar_def Let_def cong: if_cong)

lemma arrive_local_waits:
  assumes i: "core_inv c C" "unat i < length (core_bars C)" and w: "s \<longrightarrow> may_wait c C w" "w < MAX_NUM_WARPS" and n: "n \<noteq> 0"
  defines "b \<equiv> core_bars C ! unat i"
  assumes e: "\<not> (bar_count b + 1 = n \<and> bar_events b = 0)"
  defines "C' \<equiv> set_bar C (unat i) (b\<lparr>wait_mask := add_waiter s w (wait_mask b), bar_count := (bar_count b + 1) mod n\<rparr>)"
  shows "arrive_local c C i n w s = Some C'" "core_inv c C'" "waiters C' (unat i) = waiters C (unat i) \<union> (if s then {w} else {})"
proof -
  show "arrive_local c C i n w s = Some C'"
    using i(2) n unfolding arrive_local_first [OF i w(2)] if_not_P [OF e [unfolded b_def]]
    by (simp add: C'_def b_def set_bar_def)
  show "core_inv c C'" "waiters C' (unat i) = waiters C (unat i) \<union> (if s then {w} else {})"
    unfolding C'_def using core_inv_shape [OF i] by (intro add_waiter_inv [OF i w]; simp add: b_def)+
qed

lemma arrive_local_releases:
  assumes i: "core_inv c C" "unat i < length (core_bars C)" and w: "s \<longrightarrow> may_wait c C w" "w < MAX_NUM_WARPS" and n: "n \<noteq> 0"
  defines "b \<equiv> core_bars C ! unat i"
  assumes e: "bar_count b + 1 = n \<and> bar_events b = 0"
  defines "C' \<equiv> set_bar C (unat i) (b\<lparr>wait_mask := replicate MAX_NUM_WARPS False, bar_phase := bar_phase b + 1, bar_count := 0\<rparr>)
    \<lparr>core_sched := unstall (waiters C (unat i) \<union> (if s then {w} else {})) (core_sched C)\<rparr>"
  shows "arrive_local c C i n w s = Some C'" "core_inv c C'"
proof -
  let ?b = "b\<lparr>wait_mask := add_waiter s w (wait_mask b)\<rparr>"
  let ?C = "set_bar C (unat i) ?b"
  have j: "core_inv c ?C" and x: "waiters ?C (unat i) = waiters C (unat i) \<union> (if s then {w} else {})"
    using core_inv_shape [OF i] by (intro add_waiter_inv [OF i w]; simp add: b_def)+
  have l: "unat i < length (core_bars ?C)" using i(2) by simp
  have r: "released ?C (unat i) = (set_bar C (unat i) (b\<lparr>wait_mask := replicate MAX_NUM_WARPS False, bar_phase := bar_phase b + 1\<rparr>))
      \<lparr>core_sched := unstall (waiters C (unat i) \<union> (if s then {w} else {})) (core_sched C)\<rparr>" (is "_ = ?D")
    using i(2) by (simp add: released_def x)
  have m: "(bar_count b + 1) mod n = 0" using e by simp
  show "arrive_local c C i n w s = Some C'"
    using i(2) n unfolding arrive_local_first [OF i w(2)] b_def [symmetric] if_P [OF e] release_bar_spec(1) [OF j l] r m
    by (simp add: C'_def set_bar_def)
  have d: "core_inv c ?D" using release_bar_spec(2) [OF j l] unfolding r .
  have "core_inv c (set_bar ?D (unat i) (b\<lparr>wait_mask := replicate MAX_NUM_WARPS False, bar_phase := bar_phase b + 1, bar_count := 0\<rparr>))"
    using i(2) core_inv_shape [OF i] by (intro core_inv_set_bar [OF d]) (simp_all add: bar_shape_def b_def)
  then show "core_inv c C'" unfolding C'_def set_bar_simps .
qed

text \<open>Synchronous arrivals of several warps, one after the other.\<close>

fun arrive_locals :: "vx_cfg \<Rightarrow> core_t \<Rightarrow> u32 \<Rightarrow> u32 \<Rightarrow> nat list \<Rightarrow> core_t option" where
  "arrive_locals c C i n [] = Some C"
| "arrive_locals c C i n (w # ws) = do { C \<leftarrow> arrive_local c C i n w True; arrive_locals c C i n ws }"

lemma arrive_locals_snoc:
  "arrive_locals c C i n (ws @ [w]) = do { C \<leftarrow> arrive_locals c C i n ws; arrive_local c C i n w True }"
  by (induction ws arbitrary: C) (simp_all split: Option.bind_split)

lemma arrive_locals_wait:
  assumes "core_inv c C" "unat i < length (core_bars C)" "distinct ws" "\<forall>w \<in> set ws. may_wait c C w"
    "bar_events (core_bars C ! unat i) = 0" "unat (bar_count (core_bars C ! unat i)) + length ws < unat n"
  shows "\<exists>C'. arrive_locals c C i n ws = Some C' \<and> core_inv c C' \<and> core_sched C' = core_sched C \<and>
    length (core_bars C') = length (core_bars C) \<and> waiters C' (unat i) = waiters C (unat i) \<union> set ws \<and>
    (\<forall>j. j \<noteq> unat i \<longrightarrow> core_bars C' ! j = core_bars C ! j) \<and>
    bar_events (core_bars C' ! unat i) = 0 \<and> bar_phase (core_bars C' ! unat i) = bar_phase (core_bars C ! unat i) \<and>
    unat (bar_count (core_bars C' ! unat i)) = unat (bar_count (core_bars C ! unat i)) + length ws"
  using assms
proof (induction ws arbitrary: C)
  case (Cons w ws)
  let ?b = "core_bars C ! unat i"
  note i = Cons.prems(1,2)
  have w: "may_wait c C w" "w < MAX_NUM_WARPS" using Cons.prems may_wait_less by auto
  have p: "unat (bar_count ?b + 1) = unat (bar_count ?b) + 1" "bar_count ?b + 1 < n"
    using Cons.prems(6) unat_u32_less [of n] by (simp_all add: unat_word_ariths word_less_nat_alt)
  have m: "(bar_count ?b + 1) mod n = bar_count ?b + 1" "bar_count ?b + 1 \<noteq> n" "n \<noteq> 0"
    using p(2) Cons.prems(6) by (auto simp: word_unat_eq_iff unat_mod_distrib word_less_nat_alt)
  let ?C = "set_bar C (unat i) (?b\<lparr>wait_mask := add_waiter True w (wait_mask ?b), bar_count := bar_count ?b + 1\<rparr>)"
  have a: "arrive_local c C i n w True = Some ?C" "core_inv c ?C" "waiters ?C (unat i) = insert w (waiters C (unat i))"
    using arrive_local_waits [OF i, of True w n] w m by simp_all
  have "may_wait c ?C v" if "v \<in> set ws" for v
  proof -
    have "v \<noteq> w" "may_wait c C v" using Cons.prems(3,4) that by auto
    moreover have "v \<notin> waiters ?C (unat i)" using calculation i(2) unfolding a(3) by (simp add: may_wait_def waiters_def)
    ultimately show ?thesis using i(2) by (auto simp: may_wait_def waiters_def waits_at_set_bar split: if_splits)
  qed
  then have "\<exists>C'. arrive_locals c ?C i n ws = Some C' \<and> core_inv c C' \<and> core_sched C' = core_sched ?C \<and>
    length (core_bars C') = length (core_bars ?C) \<and> waiters C' (unat i) = waiters ?C (unat i) \<union> set ws \<and>
    (\<forall>j. j \<noteq> unat i \<longrightarrow> core_bars C' ! j = core_bars ?C ! j) \<and>
    bar_events (core_bars C' ! unat i) = 0 \<and> bar_phase (core_bars C' ! unat i) = bar_phase (core_bars ?C ! unat i) \<and>
    unat (bar_count (core_bars C' ! unat i)) = unat (bar_count (core_bars ?C ! unat i)) + length ws"
    using Cons.prems(3,5,6) i(2) p(1) by (intro Cons.IH [OF a(2)]) simp_all
  then show ?case using i(2) p(1) unfolding a(3) by (auto simp: a(1))
qed simp

abbreviation bar_pos :: "u32 \<Rightarrow> nat" where
  "bar_pos bar_id \<equiv> unat (bar_index bar_id)"

lemma proc_invD:
  assumes "proc_inv c P"
  shows "length (proc_cores P) = unat (num_clusters c * num_cores c)" "length (proc_cores P) \<le> MAX_NUM_CORES"
    "\<And>i. i < length (proc_cores P) \<Longrightarrow> core_inv c (proc_cores P ! i)"
    "\<And>i. i < length (proc_cores P) \<Longrightarrow> length (core_bars (proc_cores P ! i)) = unat (num_warps c * num_barriers c)"
    "gbarriers P \<noteq> []" "\<And>g. g < length (gbarriers P) \<Longrightarrow> length (gbarriers P ! g) = MAX_NUM_CORES"
  using assms by (simp_all add: proc_inv_def)

lemma proc_inv_cores:
  assumes "proc_inv c P" "length cs = length (proc_cores P)"
    "\<And>i. i < length cs \<Longrightarrow> core_inv c (cs ! i) \<and> length (core_bars (cs ! i)) = unat (num_warps c * num_barriers c)"
  shows "proc_inv c (P\<lparr>proc_cores := cs\<rparr>)"
  using assms by (auto simp: proc_inv_def in_set_conv_nth)

lemma proc_inv_put:
  assumes i: "proc_inv c P" "cid < length (proc_cores P)"
    and C: "core_inv c C" "length (core_bars C) = length (core_bars (proc_cores P ! cid))"
  shows "put_core P cid C = Some (P\<lparr>proc_cores := (proc_cores P)[cid := C]\<rparr>)"
    "proc_inv c (P\<lparr>proc_cores := (proc_cores P)[cid := C]\<rparr>)"
proof -
  show "put_core P cid C = Some (P\<lparr>proc_cores := (proc_cores P)[cid := C]\<rparr>)" using i(2) by (simp add: put_core_def)
  show "proc_inv c (P\<lparr>proc_cores := (proc_cores P)[cid := C]\<rparr>)"
    using C proc_invD(3,4) [OF i(1)] i(2) by (intro proc_inv_cores [OF i(1)]) (simp_all add: nth_list_update)
qed

lemma proc_inv_gbar:
  assumes "proc_inv c P" "length m = MAX_NUM_CORES"
  shows "proc_inv c (P\<lparr>gbarriers := (gbarriers P)[g := m]\<rparr>)"
  using assms set_update_subset_insert [of "gbarriers P" g m] by (auto simp: proc_inv_def)

lemma released_shape [simp]: "length (core_bars (released C i)) = length (core_bars C)"
  by (simp add: released_def set_bar_def)

text \<open>The cores of a mask release a barrier.\<close>

definition release_cores :: "nat set \<Rightarrow> nat \<Rightarrow> core_t list \<Rightarrow> core_t list" where
  "release_cores K i cs = map (\<lambda>k. if k \<in> K then released (cs ! k) i else cs ! k) [0 ..< length cs]"

lemma release_cores_simps [simp]:
  "length (release_cores K i cs) = length cs"
  "k < length cs \<Longrightarrow> release_cores K i cs ! k = (if k \<in> K then released (cs ! k) i else cs ! k)"
  by (simp_all add: release_cores_def)

lemma release_cores_inv:
  assumes i: "proc_inv c P" and b: "bar_pos bar_id < unat (num_warps c * num_barriers c)"
  shows "proc_inv c (P\<lparr>proc_cores := release_cores K (bar_pos bar_id) (proc_cores P)\<rparr>)"
  using proc_invD(3,4) [OF i] b release_bar_spec(2) by (intro proc_inv_cores [OF i]) simp_all

lemma resume_cores_spec:
  assumes "proc_inv c P" "distinct is" "\<forall>i \<in> set is. i < length (proc_cores P)" "length m = MAX_NUM_CORES"
    "bar_pos bar_id < unat (num_warps c * num_barriers c)"
  shows "resume_cores c m bar_id is P =
    Some (P\<lparr>proc_cores := release_cores {i \<in> set is. m ! i} (bar_pos bar_id) (proc_cores P)\<rparr>)"
  using assms
proof (induction "is" arbitrary: P)
  case Nil
  then show ?case by (simp add: release_cores_def map_nth)
next
  case (Cons i "is")
  have i: "i < length (proc_cores P)" "i < length m" using Cons.prems(3,4) proc_invD(2) [OF Cons.prems(1)] by auto
  show ?case
  proof (cases "m ! i")
    case False
    then have "{j \<in> set (i # is). m ! j} = {j \<in> set is. m ! j}" by auto
    with False Cons.IH [OF Cons.prems(1)] Cons.prems i show ?thesis by simp
  next
    case True
    let ?C = "released (proc_cores P ! i) (bar_pos bar_id)"
    let ?P = "P\<lparr>proc_cores := (proc_cores P)[i := ?C]\<rparr>"
    have b: "bar_pos bar_id < length (core_bars (proc_cores P ! i))"
      using Cons.prems(5) proc_invD(4) [OF Cons.prems(1) i(1)] by simp
    note r = release_bar_spec [OF proc_invD(3) [OF Cons.prems(1) i(1)] b]
    note p = proc_inv_put [OF Cons.prems(1) i(1) r(2) released_shape]
    have d: "i \<notin> set is" "distinct is" using Cons.prems(2) by simp_all
    have "resume_cores c m bar_id is ?P =
        Some (?P\<lparr>proc_cores := release_cores {j \<in> set is. m ! j} (bar_pos bar_id) (proc_cores ?P)\<rparr>)"
      using Cons.prems(3,4,5) d(2) by (intro Cons.IH [OF p(2)]) simp_all
    moreover have "release_cores {j \<in> set is. m ! j} (bar_pos bar_id) ((proc_cores P)[i := ?C]) =
        release_cores {j \<in> set (i # is). m ! j} (bar_pos bar_id) (proc_cores P)"
      using True d(1) i(1) by (intro nth_equalityI) (auto simp: nth_list_update)
    ultimately show ?thesis using True i by (simp add: global_resume_def r(1) p(1))
  qed
qed

text \<open>The device-wide part: the cores that have arrived, and those a completed barrier releases.\<close>

definition gbar_pos :: "proc_t \<Rightarrow> u32 \<Rightarrow> nat" where
  "gbar_pos P bar_id = unat bar_id mod length (gbarriers P)"

definition arrived_cores :: "proc_t \<Rightarrow> u32 \<Rightarrow> nat \<Rightarrow> bool list" where
  "arrived_cores P bar_id cid = (gbarriers P ! gbar_pos P bar_id)[cid := True]"

definition arrived_set :: "proc_t \<Rightarrow> u32 \<Rightarrow> nat \<Rightarrow> nat set" where
  "arrived_set P bar_id cid = {k. k < length (proc_cores P) \<and> arrived_cores P bar_id cid ! k}"

definition gbar_done :: "proc_t \<Rightarrow> u32 \<Rightarrow> nat \<Rightarrow> proc_t" where
  "gbar_done P bar_id cid =
     P\<lparr>proc_cores := release_cores (arrived_set P bar_id cid) (bar_pos bar_id) (proc_cores P),
       gbarriers := (gbarriers P)[gbar_pos P bar_id := replicate MAX_NUM_CORES False]\<rparr>"

definition gbar_pending :: "proc_t \<Rightarrow> u32 \<Rightarrow> nat \<Rightarrow> proc_t" where
  "gbar_pending P bar_id cid = P\<lparr>gbarriers := (gbarriers P)[gbar_pos P bar_id := arrived_cores P bar_id cid]\<rparr>"

lemma global_barrier_arrive_spec:
  fixes n :: u32
  assumes i: "proc_inv c P" "cid < length (proc_cores P)" and b: "bar_pos bar_id < unat (num_warps c * num_barriers c)"
  defines "P' \<equiv> if mcount (arrived_cores P bar_id cid) = unat n then gbar_done P bar_id cid else gbar_pending P bar_id cid"
  shows "global_barrier_arrive c P bar_id n cid = Some P'" "proc_inv c P'"
proof -
  let ?g = "gbar_pos P bar_id" and ?m = "arrived_cores P bar_id cid"
  have g: "?g < length (gbarriers P)" using proc_invD(5) [OF i(1)] by (simp add: gbar_pos_def)
  have l: "cid < length (gbarriers P ! ?g)" using i(2) proc_invD(2) [OF i(1)] proc_invD(6) [OF i(1) g] by simp
  have m: "length ?m = MAX_NUM_CORES" using proc_invD(6) [OF i(1) g] by (simp add: arrived_cores_def)
  have j: "proc_inv c (gbar_pending P bar_id cid)" unfolding gbar_pending_def by (rule proc_inv_gbar [OF i(1) m])
  let ?Q = "P\<lparr>gbarriers := (gbarriers P)[?g := ?m]\<rparr>"
  have "resume_cores c ?m bar_id [0 ..< unat (num_clusters c * num_cores c)] ?Q =
      Some (?Q\<lparr>proc_cores := release_cores {i \<in> set [0 ..< unat (num_clusters c * num_cores c)]. ?m ! i} (bar_pos bar_id) (proc_cores ?Q)\<rparr>)"
    using proc_invD(1) [OF i(1)] by (intro resume_cores_spec [OF j [unfolded gbar_pending_def] _ _ m b]) simp_all
  also have "{i \<in> set [0 ..< unat (num_clusters c * num_cores c)]. ?m ! i} = arrived_set P bar_id cid"
    using proc_invD(1) [OF i(1)] by (auto simp: arrived_set_def)
  finally have r: "resume_cores c ?m bar_id [0 ..< unat (num_clusters c * num_cores c)] ?Q =
      Some (?Q\<lparr>proc_cores := release_cores (arrived_set P bar_id cid) (bar_pos bar_id) (proc_cores P)\<rparr>)" by simp
  show "global_barrier_arrive c P bar_id n cid = Some P'"
  proof (cases "mcount ?m = unat n")
    case True
    then show ?thesis
      using g l r proc_invD(5) [OF i(1)] unfolding P'_def gbar_done_def
      by (simp add: global_barrier_arrive_def Let_def gbar_pos_def [symmetric] arrived_cores_def [symmetric])
  next
    case False
    then show ?thesis
      using g l proc_invD(5) [OF i(1)] unfolding P'_def gbar_pending_def
      by (simp add: global_barrier_arrive_def Let_def gbar_pos_def [symmetric] arrived_cores_def [symmetric])
  qed
  have "proc_inv c (gbar_done P bar_id cid)"
    using proc_inv_gbar [OF release_cores_inv [OF i(1) b, of "arrived_set P bar_id cid"], where m = "replicate MAX_NUM_CORES False" and g = ?g]
    by (simp add: gbar_done_def)
  with j show "proc_inv c P'" by (simp add: P'_def)
qed

definition clear_arrivals :: "core_t \<Rightarrow> nat \<Rightarrow> core_t" where
  "clear_arrivals C i = set_bar C i ((core_bars C ! i)\<lparr>arrival_mask := replicate MAX_NUM_WARPS False, bar_count := 0, bar_events := 0\<rparr>)"

lemma same_waiters_inv:
  assumes i: "core_inv c C" "i < length (core_bars C)" and b: "wait_mask b = wait_mask (core_bars C ! i)"
    "length (arrival_mask b) = MAX_NUM_WARPS"
  shows "core_inv c (set_bar C i b)"
  using b core_inv_shape [OF i] by (intro core_inv_set_bar [OF i]) (simp_all add: bar_shape_def waits_at_def)

lemma report_core_spec:
  assumes i: "proc_inv c P" "cid < length (proc_cores P)" and b: "bar_pos bar_id < unat (num_warps c * num_barriers c)"
    and g: "global_barrier_arrive c P bar_id n cid = Some Q" "proc_inv c Q" "length (proc_cores Q) = length (proc_cores P)"
  defines "P' \<equiv> Q\<lparr>proc_cores := (proc_cores Q)[cid := clear_arrivals (proc_cores Q ! cid) (bar_pos bar_id)]\<rparr>"
  shows "report_core c P cid bar_id n = Some P'" "proc_inv c P'"
proof -
  have c: "cid < length (proc_cores Q)" using i(2) g(3) by simp
  note C = proc_invD(3,4) [OF g(2) c]
  have k: "bar_pos bar_id < length (core_bars (proc_cores Q ! cid))" using C(2) b by simp
  have "core_inv c (clear_arrivals (proc_cores Q ! cid) (bar_pos bar_id))"
    using k by (simp add: clear_arrivals_def same_waiters_inv [OF C(1) k])
  note p = proc_inv_put [OF g(2) c this]
  show "proc_inv c P'" unfolding P'_def by (rule p(2)) (simp add: clear_arrivals_def)
  show "report_core c P cid bar_id n = Some P'"
    using c k by (simp add: report_core_def g(1) P'_def put_core_def clear_arrivals_def set_bar_def)
qed

text \<open>The core of a warp that arrives at a global barrier, before the processor hears of it.\<close>

definition note_arrival :: "core_t \<Rightarrow> nat \<Rightarrow> u32 \<Rightarrow> nat \<Rightarrow> bool \<Rightarrow> core_t" where
  "note_arrival C i n w s = set_bar C i ((core_bars C ! i)\<lparr>bar_count := n, arrival_mask := (arrival_mask (core_bars C ! i))[w := True],
     wait_mask := add_waiter s w (wait_mask (core_bars C ! i))\<rparr>)"

lemma note_arrival_inv:
  assumes i: "core_inv c C" "i < length (core_bars C)" and w: "s \<longrightarrow> may_wait c C w" "w < MAX_NUM_WARPS"
  shows "core_inv c (note_arrival C i n w s)"
    "waiters (note_arrival C i n w s) i = waiters C i \<union> (if s then {w} else {})"
    "core_sched (note_arrival C i n w s) = core_sched C"
    "length (core_bars (note_arrival C i n w s)) = length (core_bars C)"
  unfolding note_arrival_def using core_inv_shape [OF i] by (intro add_waiter_inv [OF i w]; simp)+ simp_all

lemma arrive_global_pending:
  fixes n :: u32
  assumes i: "proc_inv c P" "cid < length (proc_cores P)" and b: "bar_pos bar_id < unat (num_warps c * num_barriers c)"
    and w: "s \<longrightarrow> may_wait c (proc_cores P ! cid) w" "w < MAX_NUM_WARPS"
  defines "C \<equiv> proc_cores P ! cid"
  defines "P1 \<equiv> P\<lparr>proc_cores := (proc_cores P)[cid := note_arrival C (bar_pos bar_id) n w s]\<rparr>"
  shows "proc_inv c P1"
    "arrive_global c P cid bar_id n w s =
      (if mcount ((arrival_mask (core_bars C ! bar_pos bar_id))[w := True]) = mcount (active_warps (core_sched C)) \<and>
          bar_events (core_bars C ! bar_pos bar_id) = 0
       then report_core c P1 cid bar_id n else Some P1)"
proof -
  note I = proc_invD(3,4) [OF i, folded C_def]
  have k: "bar_pos bar_id < length (core_bars C)" using I(2) b by simp
  note N = note_arrival_inv [OF I(1) k w [folded C_def]]
  show "proc_inv c P1" unfolding P1_def by (rule proc_inv_put(2) [OF i N(1)]) (simp_all add: N(4) C_def [symmetric])
  show "arrive_global c P cid bar_id n w s =
      (if mcount ((arrival_mask (core_bars C ! bar_pos bar_id))[w := True]) = mcount (active_warps (core_sched C)) \<and>
          bar_events (core_bars C ! bar_pos bar_id) = 0
       then report_core c P1 cid bar_id n else Some P1)"
    using i(2) k w(2) core_inv_shape [OF I(1) k]
    by (simp add: arrive_global_def C_def [symmetric] put_core_def P1_def note_arrival_def set_bar_def add_waiter_def cong: if_cong)
qed

lemma length_cores_gbar [simp]:
  "length (proc_cores (gbar_done P bar_id cid)) = length (proc_cores P)"
  "length (proc_cores (gbar_pending P bar_id cid)) = length (proc_cores P)"
  by (simp_all add: gbar_done_def gbar_pending_def)

lemma report_core_inv:
  assumes i: "proc_inv c P" "cid < length (proc_cores P)" and b: "bar_pos bar_id < unat (num_warps c * num_barriers c)"
  shows "\<exists>P'. report_core c P cid bar_id n = Some P' \<and> proc_inv c P'"
  using report_core_spec [OF i b global_barrier_arrive_spec [OF i b]] by auto

lemma arrive_inv:
  assumes i: "proc_inv c P" "cid < length (proc_cores P)" and b: "bar_pos bar_id < unat (num_warps c * num_barriers c)"
    and w: "s \<longrightarrow> may_wait c (proc_cores P ! cid) w" "w < MAX_NUM_WARPS" and n: "n \<noteq> 0"
  shows "\<exists>P'. arrive c P cid bar_id n w s = Some P' \<and> proc_inv c P'"
proof (cases "is_global bar_id")
  case True
  note a = arrive_global_pending [OF i b w]
  show ?thesis unfolding arrive_def if_P [OF True] a(2) using report_core_inv [OF a(1) _ b] a(1) i(2) by simp
next
  case False
  let ?C = "proc_cores P ! cid"
  note I = proc_invD(3,4) [OF i]
  have k: "bar_pos bar_id < length (core_bars ?C)" using I(2) b by simp
  have "\<exists>C'. arrive_local c ?C (bar_index bar_id) n w s = Some C' \<and> core_inv c C' \<and> length (core_bars C') = length (core_bars ?C)"
    using arrive_local_waits [OF I(1) k w n] arrive_local_releases [OF I(1) k w n]
    by (cases "bar_count (core_bars ?C ! bar_pos bar_id) + 1 = n \<and> bar_events (core_bars ?C ! bar_pos bar_id) = 0") auto
  then obtain C' where C: "arrive_local c ?C (bar_index bar_id) n w s = Some C'" "core_inv c C'"
    "length (core_bars C') = length (core_bars ?C)" by blast
  then show ?thesis unfolding arrive_def if_not_P [OF False] using i(2) proc_inv_put [OF i C(2,3)] by simp
qed

lemma bar_wait_inv:
  assumes i: "core_inv c C" "bar_pos bar_id < length (core_bars C)" and w: "may_wait c C w"
  shows "\<exists>C'. bar_wait C bar_id ph w = Some (bar_phase (core_bars C ! bar_pos bar_id) = ph, C') \<and> core_inv c C' \<and>
    core_sched C' = core_sched C \<and> length (core_bars C') = length (core_bars C) \<and>
    waiters C' (bar_pos bar_id) = waiters C (bar_pos bar_id) \<union> (if bar_phase (core_bars C ! bar_pos bar_id) = ph then {w} else {})"
proof -
  let ?b = "core_bars C ! bar_pos bar_id"
  have l: "w < MAX_NUM_WARPS" by (rule may_wait_less [OF i(1) w])
  let ?C = "set_bar C (bar_pos bar_id) (?b\<lparr>wait_mask := add_waiter True w (wait_mask ?b)\<rparr>)"
  have "core_inv c ?C" "waiters ?C (bar_pos bar_id) = waiters C (bar_pos bar_id) \<union> {w}"
    using add_waiter_inv [OF i, of True w "?b\<lparr>wait_mask := add_waiter True w (wait_mask ?b)\<rparr>"] w l core_inv_shape [OF i] by simp_all
  moreover have "bar_phase ?b = ph \<Longrightarrow> bar_wait C bar_id ph w = Some (True, ?C)"
    using i(2) l core_inv_shape [OF i] by (simp add: bar_wait_def add_waiter_def set_bar_def)
  moreover have "bar_phase ?b \<noteq> ph \<Longrightarrow> bar_wait C bar_id ph w = Some (False, C)" using i(2) by (simp add: bar_wait_def)
  ultimately show ?thesis using i(1) by (cases "bar_phase ?b = ph") simp_all
qed

lemma event_attach_inv:
  assumes i: "core_inv c C" "bar_pos bar_id < length (core_bars C)"
  shows "\<exists>C'. event_attach C bar_id n = Some C' \<and> core_inv c C' \<and> length (core_bars C') = length (core_bars C)"
  using i(2) core_inv_shape [OF i]
    same_waiters_inv [OF i, of "(core_bars C ! bar_pos bar_id)\<lparr>bar_events := bar_events (core_bars C ! bar_pos bar_id) + n\<rparr>"]
  by (simp add: event_attach_def set_bar_def)

lemma event_release_inv:
  assumes i: "proc_inv c P" "cid < length (proc_cores P)" and b: "bar_pos bar_id < unat (num_warps c * num_barriers c)"
    and e: "bar_events (core_bars (proc_cores P ! cid) ! bar_pos bar_id) > 0"
  shows "\<exists>P'. event_release c P cid bar_id = Some P' \<and> proc_inv c P'"
proof -
  let ?C = "proc_cores P ! cid" and ?i = "bar_pos bar_id"
  let ?b = "core_bars ?C ! ?i"
  let ?D = "set_bar ?C ?i (?b\<lparr>bar_events := bar_events ?b - 1\<rparr>)"
  note I = proc_invD(3,4) [OF i]
  have k: "?i < length (core_bars ?C)" using I(2) b by simp
  have D: "core_inv c ?D" "length (core_bars ?D) = length (core_bars ?C)"
    using core_inv_shape [OF I(1) k] by (simp_all add: same_waiters_inv [OF I(1) k])
  note p = proc_inv_put [OF i D]
  let ?P = "P\<lparr>proc_cores := (proc_cores P)[cid := ?D]\<rparr>"
  have c: "cid < length (proc_cores ?P)" using i(2) by simp
  have r: "\<exists>P'. report_core c ?P cid bar_id n = Some P' \<and> proc_inv c P'" for n by (rule report_core_inv [OF p(2) c b])
  have kd: "bar_pos bar_id < length (core_bars ?D)" using k by simp
  have q: "put_core ?P cid (released ?D ?i) = Some (?P\<lparr>proc_cores := (proc_cores ?P)[cid := released ?D ?i]\<rparr>)"
    "proc_inv c (?P\<lparr>proc_cores := (proc_cores ?P)[cid := released ?D ?i]\<rparr>)"
    using c by (intro proc_inv_put [OF p(2) c release_bar_spec(2) [OF D(1) kd]]; simp)+
  have "event_release c P cid bar_id =
      (if bar_events ?b - 1 = 0 then
        (if is_global bar_id then (if mcount (arrival_mask ?b) = mcount (active_warps (core_sched ?C)) then report_core c ?P cid bar_id (bar_count ?b) else Some ?P)
         else (if bar_count ?b = 0 then do { C \<leftarrow> release_bar c ?D (bar_index bar_id); put_core ?P cid C } else Some ?P))
       else Some ?P)"
    using i(2) k e by (simp add: event_release_def set_bar_def put_core_def Let_def)
  with r [of "bar_count ?b"] p(2) q release_bar_spec(1) [OF D(1) kd] show ?thesis by auto
qed

end
