(* ===== verification/Barrier_Props.thy ===== *)
theory Barrier_Props
  imports Barrier_Inv Scheduler_Props
begin

text \<open>
  Runs of a device of several cores, each with a scheduler and barriers: arrivals of many warps, the
  operations of the schedulers in between, and what local and global barriers guarantee.
\<close>

subsection \<open>Sequences of arrivals\<close>

text \<open>Warps of one core that arrive in turn at a barrier and suspend.\<close>

fun arrive_all :: "vx_cfg \<Rightarrow> nat \<Rightarrow> u32 \<Rightarrow> u32 \<Rightarrow> nat list \<Rightarrow> proc_t \<Rightarrow> proc_t option" where
  "arrive_all c cid bar_id n [] P = Some P"
| "arrive_all c cid bar_id n (w # ws) P = do { P \<leftarrow> arrive c P cid bar_id n w True; arrive_all c cid bar_id n ws P }"

lemma arrive_all_local:
  assumes "\<not> is_global bar_id" "cid < length (proc_cores P)"
  shows "arrive_all c cid bar_id n ws P =
    do { C \<leftarrow> arrive_locals c (proc_cores P ! cid) (bar_index bar_id) n ws; put_core P cid C }"
  using assms
proof (induction ws arbitrary: P)
  case (Cons w ws)
  then show ?case by (auto simp: arrive_def put_core_def split: Option.bind_split)
qed (simp add: put_core_def)

lemma arrive_locals_release:
  assumes i: "core_inv c C" "unat i < length (core_bars C)" and ws: "distinct ws" "\<forall>w \<in> set ws. may_wait c C w"
    and b: "bar_events (core_bars C ! unat i) = 0" "bar_count (core_bars C ! unat i) = 0" "waiters C (unat i) = {}"
    and n: "unat n = length ws" "ws \<noteq> []"
  shows "\<exists>C'. arrive_locals c C i n ws = Some C' \<and> core_inv c C' \<and> core_sched C' = unstall (set ws) (core_sched C) \<and>
    length (core_bars C') = length (core_bars C) \<and> waiters C' (unat i) = {} \<and> bar_count (core_bars C' ! unat i) = 0 \<and>
    bar_phase (core_bars C' ! unat i) = bar_phase (core_bars C ! unat i) + 1"
proof -
  obtain vs w where vw: "ws = vs @ [w]" using n(2) by (metis rev_exhaust)
  have v: "distinct vs" "w \<notin> set vs" "\<forall>w \<in> set vs. may_wait c C w" "may_wait c C w" using ws by (auto simp: vw)
  have l: "unat (bar_count (core_bars C ! unat i)) + length vs < unat n" using b(2) n(1) by (simp add: vw)
  obtain D where D: "arrive_locals c C i n vs = Some D" "core_inv c D" "core_sched D = core_sched C"
    "length (core_bars D) = length (core_bars C)" "waiters D (unat i) = set vs"
    "\<forall>j. j \<noteq> unat i \<longrightarrow> core_bars D ! j = core_bars C ! j"
    "bar_events (core_bars D ! unat i) = 0" "bar_phase (core_bars D ! unat i) = bar_phase (core_bars C ! unat i)"
    "unat (bar_count (core_bars D ! unat i)) = length vs"
    using arrive_locals_wait [OF i v(1,3) b(1) l] b by auto
  have k: "unat i < length (core_bars D)" using i(2) D(4) by simp
  have "waits_at D j w \<Longrightarrow> j < length (core_bars D) \<Longrightarrow> False" for j
    using v(2,4) D(4,5,6) by (cases "j = unat i") (auto simp: waiters_def may_wait_def waits_at_def)
  then have m: "True \<longrightarrow> may_wait c D w" "w < MAX_NUM_WARPS"
    using v(4) D(3) may_wait_less [OF i(1) v(4)] by (auto simp: may_wait_def)
  have e: "bar_count (core_bars D ! unat i) + 1 = n \<and> bar_events (core_bars D ! unat i) = 0"
    using D(7,9) n(1) unat_u32_less [of n] by (simp add: vw word_unat_eq_iff unat_word_ariths)
  have "n \<noteq> 0" using l by auto
  from arrive_local_releases [OF D(2) k m this e, unfolded D(3,5,8)] show ?thesis
    using k D(4) by (simp add: vw arrive_locals_snoc D(1) waiters_def waits_at_def)
qed

lemma arrived_note:
  "arrived_cores (P\<lparr>proc_cores := (proc_cores P)[cid := C]\<rparr>) = arrived_cores P"
  "arrived_set (P\<lparr>proc_cores := (proc_cores P)[cid := C]\<rparr>) = arrived_set P"
  by (auto simp: fun_eq_iff arrived_cores_def gbar_pos_def arrived_set_def)

text \<open>What is left of a core once a global barrier it arrived at has been released.\<close>

lemma released_simps [simp]:
  "core_sched (released C i) = unstall (waiters C i) (core_sched C)"
  "i < length (core_bars C) \<Longrightarrow> waiters (released C i) i = {}"
  "i < length (core_bars C) \<Longrightarrow> bar_phase (core_bars (released C i) ! i) = bar_phase (core_bars C ! i) + 1"
  by (auto simp: released_def waiters_def waits_at_def set_bar_def)

lemma clear_arrivals_simps [simp]:
  "core_sched (clear_arrivals C i) = core_sched C"
  "i < length (core_bars C) \<Longrightarrow> waiters (clear_arrivals C i) i = waiters C i"
  "i < length (core_bars C) \<Longrightarrow> bar_phase (core_bars (clear_arrivals C i) ! i) = bar_phase (core_bars C ! i)"
  by (auto simp: clear_arrivals_def waiters_def waits_at_def)

text \<open>The cores a report of core \<open>cid\<close> releases: all that have arrived once their number is reached.\<close>

definition completes :: "proc_t \<Rightarrow> u32 \<Rightarrow> nat \<Rightarrow> u32 \<Rightarrow> nat set" where
  "completes P bar_id cid n = (if mcount (arrived_cores P bar_id cid) = unat n then arrived_set P bar_id cid else {})"

lemma arrive_global_last:
  fixes n :: u32
  assumes i: "proc_inv c P" "cid < length (proc_cores P)" and b: "bar_pos bar_id < unat (num_warps c * num_barriers c)"
    and w: "may_wait c (proc_cores P ! cid) w"
  defines "C \<equiv> proc_cores P ! cid"
  assumes e: "mcount ((arrival_mask (core_bars C ! bar_pos bar_id))[w := True]) = mcount (active_warps (core_sched C))"
    "bar_events (core_bars C ! bar_pos bar_id) = 0"
  defines "cs \<equiv> release_cores (completes P bar_id cid n) (bar_pos bar_id)
     ((proc_cores P)[cid := note_arrival C (bar_pos bar_id) n w True])"
  shows "\<exists>P'. arrive_global c P cid bar_id n w True = Some P' \<and> proc_inv c P' \<and>
    proc_cores P' = cs[cid := clear_arrivals (cs ! cid) (bar_pos bar_id)] \<and>
    gbarriers P' = (gbarriers P)[gbar_pos P bar_id :=
      if mcount (arrived_cores P bar_id cid) = unat n then replicate MAX_NUM_CORES False else arrived_cores P bar_id cid]"
proof -
  let ?P = "P\<lparr>proc_cores := (proc_cores P)[cid := note_arrival C (bar_pos bar_id) n w True]\<rparr>"
  have l: "w < MAX_NUM_WARPS" by (rule may_wait_less [OF proc_invD(3) [OF i] w])
  have p: "proc_inv c ?P" and a: "arrive_global c P cid bar_id n w True = report_core c ?P cid bar_id n"
    using arrive_global_pending [OF i b _ l, of True n] w e by (simp_all add: C_def)
  have c: "cid < length (proc_cores ?P)" using i(2) by simp
  let ?Q = "if mcount (arrived_cores ?P bar_id cid) = unat n then gbar_done ?P bar_id cid else gbar_pending ?P bar_id cid"
  note g = global_barrier_arrive_spec [OF p c b, of n]
  have "length (proc_cores ?Q) = length (proc_cores ?P)" by simp
  note r = report_core_spec [OF p c b g this]
  have "release_cores {} j ds = ds" for j ds by (simp add: release_cores_def map_nth)
  then have "proc_cores ?Q = cs" by (simp add: gbar_done_def gbar_pending_def cs_def completes_def arrived_note)
  moreover have "gbarriers ?Q = (gbarriers P)[gbar_pos P bar_id :=
      if mcount (arrived_cores P bar_id cid) = unat n then replicate MAX_NUM_CORES False else arrived_cores P bar_id cid]"
    by (simp add: gbar_done_def gbar_pending_def arrived_note gbar_pos_def)
  ultimately show ?thesis using r unfolding a by auto
qed

text \<open>
  Whether an arrival of warp \<open>w\<close> is the one its core waits for, and the cores that it then releases.
\<close>

definition core_last :: "core_t \<Rightarrow> nat \<Rightarrow> nat \<Rightarrow> bool" where
  "core_last C i w \<longleftrightarrow> mcount ((arrival_mask (core_bars C ! i))[w := True]) = mcount (active_warps (core_sched C)) \<and>
     bar_events (core_bars C ! i) = 0"

definition frees :: "proc_t \<Rightarrow> nat \<Rightarrow> u32 \<Rightarrow> u32 \<Rightarrow> nat \<Rightarrow> nat set" where
  "frees P cid bar_id n w = (if core_last (proc_cores P ! cid) (bar_pos bar_id) w then completes P bar_id cid n else {})"

lemma arrive_global_effect:
  fixes n :: u32
  assumes i: "proc_inv c P" "cid < length (proc_cores P)" and b: "bar_pos bar_id < unat (num_warps c * num_barriers c)"
    and w: "may_wait c (proc_cores P ! cid) w"
  defines "i \<equiv> bar_pos bar_id" and "C \<equiv> proc_cores P ! cid"
  defines "N \<equiv> \<lambda>k. if k = cid then note_arrival C i n w True else proc_cores P ! k"
  defines "X \<equiv> \<lambda>k. if k \<in> frees P cid bar_id n w then released (N k) i else N k"
  shows "\<exists>P'. arrive_global c P cid bar_id n w True = Some P' \<and> proc_inv c P' \<and> length (proc_cores P') = length (proc_cores P) \<and>
    (\<forall>k < length (proc_cores P). proc_cores P' ! k = (if k = cid \<and> core_last C i w then clear_arrivals (X k) i else X k)) \<and>
    gbarriers P' = (if core_last C i w then (gbarriers P)[gbar_pos P bar_id :=
      if mcount (arrived_cores P bar_id cid) = unat n then replicate MAX_NUM_CORES False else arrived_cores P bar_id cid] else gbarriers P)"
proof (cases "core_last C i w")
  case True
  then have e: "mcount ((arrival_mask (core_bars (proc_cores P ! cid) ! bar_pos bar_id))[w := True]) = mcount (active_warps (core_sched (proc_cores P ! cid)))"
    "bar_events (core_bars (proc_cores P ! cid) ! bar_pos bar_id) = 0" by (simp_all add: core_last_def i_def C_def)
  have f: "frees P cid bar_id n w = completes P bar_id cid n" using True by (simp add: frees_def i_def C_def)
  obtain P' where P: "arrive_global c P cid bar_id n w True = Some P'" "proc_inv c P'"
    "proc_cores P' = (release_cores (completes P bar_id cid n) i ((proc_cores P)[cid := note_arrival C i n w True]))[cid :=
       clear_arrivals (release_cores (completes P bar_id cid n) i ((proc_cores P)[cid := note_arrival C i n w True]) ! cid) i]"
    "gbarriers P' = (gbarriers P)[gbar_pos P bar_id :=
      if mcount (arrived_cores P bar_id cid) = unat n then replicate MAX_NUM_CORES False else arrived_cores P bar_id cid]"
    using arrive_global_last [OF i b w e, of n] unfolding i_def C_def by blast
  show ?thesis using P(1,2,4) True i(2) by (intro exI [of _ P']) (auto simp: P(3) X_def N_def f nth_list_update)
next
  case False
  have l: "w < MAX_NUM_WARPS" by (rule may_wait_less [OF proc_invD(3) [OF i] w])
  note a = arrive_global_pending [OF i b _ l, of True n, folded C_def i_def]
  have "arrive_global c P cid bar_id n w True = Some (P\<lparr>proc_cores := (proc_cores P)[cid := note_arrival C i n w True]\<rparr>)"
    using a(2) w False by (auto simp: core_last_def C_def [symmetric])
  moreover have "frees P cid bar_id n w = {}" using False by (simp add: frees_def i_def C_def)
  ultimately show ?thesis using a(1) w False by (auto simp: X_def N_def nth_list_update C_def)
qed

subsection \<open>Runs of a device: schedulers and barriers\<close>

text \<open>What keeps a warp that waits at a barrier ready to be resumed by it.\<close>

definition asleep :: "sched \<Rightarrow> nat \<Rightarrow> bool" where
  "asleep S w \<longleftrightarrow> active_warps S ! w \<and> stalled_warps_next S ! w \<and> (w = 0 \<longrightarrow> \<not> wspawn_valid S)"

lemma parked_asleep: "parked c S w \<longleftrightarrow> w < unat (num_warps c) \<and> asleep S w"
  by (simp add: parked_def asleep_def)

lemma asleep_cong:
  "active_warps S' = active_warps S \<Longrightarrow> stalled_warps_next S' = stalled_warps_next S \<Longrightarrow> wspawn_valid S' = wspawn_valid S \<Longrightarrow>
   asleep S' w = asleep S w"
  by (simp add: asleep_def)

lemma activate_warp_asleep:
  "activate_warp S v r = Some S' \<Longrightarrow> v \<noteq> w \<Longrightarrow> asleep S w \<Longrightarrow> asleep S' w"
  by (auto simp: activate_warp_def Let_def bind_eq_Some_conv lset_eq_Some asleep_def)

lemma free_warp_inactive: "free_warp c f = Some v \<Longrightarrow> \<not> f v"
  by (auto simp: free_warp_def find_Some_iff)

lemma fwd_try_inject_asleep: "fwd_try_inject c pc vs S = Some S' \<Longrightarrow> asleep S w \<Longrightarrow> asleep S' w"
proof (induction vs arbitrary: S)
  case (Cons v vs)
  show ?case
  proof (cases "free_warp c (\<lambda>w. active_warps S ! w)")
    case None
    with Cons.prems have "S' = S\<lparr>fwd_waves := v # vs\<rparr>" by simp
    with Cons.prems(2) show ?thesis by (simp add: asleep_def)
  next
    case (Some u)
    with Cons.prems obtain T ws f where T: "activate_warp S u (fwd_record c S pc u v) = Some T"
      "fwd_try_inject c pc vs (T\<lparr>warps := ws, fwd_is_fragment := f, fwd_launched := fwd_launched T + 1\<rparr>) = Some S'"
      by (auto simp: bind_eq_Some_conv)
    have "u \<noteq> w" using free_warp_inactive [OF Some] Cons.prems(2) by (auto simp: asleep_def)
    from activate_warp_asleep [OF T(1) this Cons.prems(2)] show ?thesis by (intro Cons.IH [OF T(2)]) (simp add: asleep_def)
  qed
qed (auto simp: asleep_def)

lemma dispatch_cta_asleep:
  assumes i: "sched_inv c S" "kmu_ok c k" and d: "dispatch_cta c S k = Some (S', k')" and a: "asleep S w"
  shows "asleep S' w"
proof (rule cta_step_inv [OF sched_inv_cta [OF i(1)] i(2)])
  fix D k'' assume "cta_step c (cta_disp S) k (\<lambda>w. active_warps S ! w) = Some (None, D, k'')"
  with d a show ?thesis by (auto simp: dispatch_cta_def asleep_def)
next
  fix v r D k'' assume s: "cta_step c (cta_disp S) k (\<lambda>w. active_warps S ! w) = Some (Some (v, r), D, k'')"
    and v: "\<not> active_warps S ! v"
  from s d have "activate_warp (S\<lparr>cta_disp := D\<rparr>) v r = Some S'" by (auto simp: dispatch_cta_def bind_eq_Some_conv)
  moreover have "v \<noteq> w" using v a by (auto simp: asleep_def)
  moreover have "asleep (S\<lparr>cta_disp := D\<rparr>) w" using a by (simp add: asleep_def)
  ultimately show ?thesis by (rule activate_warp_asleep)
qed

lemma process_wspawn_asleep:
  assumes i: "sched_inv c S" and p: "process_wspawn S = Some S'" and a: "asleep S w" and w: "w < MAX_NUM_WARPS"
  shows "S' = S"
proof -
  have "\<not> (wspawn_valid S \<and> mcount (active_warps S) = 1)"
  proof
    assume v: "wspawn_valid S \<and> mcount (active_warps S) = 1"
    have l: "length (active_warps S) = MAX_NUM_WARPS" using i by (simp add: sched_inv_def sched_shape_def)
    have z: "active_warps S ! 0" using i v by (simp add: sched_inv_def wspawn_inv_def)
    have "active_warps S ! w" using a by (simp add: asleep_def)
    then have "w = 0" using v w z l mcount_1_unique [of "active_warps S" w 0] by (metis not_less_zero zero_less_iff_neq_zero)
    with v a show False by (simp add: asleep_def)
  qed
  with p show ?thesis unfolding process_wspawn_def by (simp only: if_False) simp
qed

lemma fetch_warp_asleep:
  "fetch_warp c cid S v = Some (t, S') \<Longrightarrow> asleep S w \<Longrightarrow> asleep S' w"
  by (auto simp: fetch_warp_def suspend_def bind_eq_Some_conv Let_def lset_eq_Some asleep_def nth_list_update lat_eq_Some
      split: if_splits)

lemma schedule_asleep:
  assumes i: "sched_inv c S" "kmu_ok c k" and s: "schedule c cid S k m = Some (t, S', k')"
    and a: "asleep S w" "w < MAX_NUM_WARPS"
  shows "asleep S' w"
proof -
  obtain T k'' U V W where u: "dispatch_cta c S k = Some (T, k'')"
    "(if fwd_armed T then fwd_try_inject c (kmu_PC k'') (fwd_waves T) T else Some T) = Some U"
    "process_wspawn U = Some V" "(case pick_warp c V m of None \<Rightarrow> Some (None, V)
      | Some wid \<Rightarrow> do { (t, S) \<leftarrow> fetch_warp c cid V wid; Some (Some t, S) }) = Some (t, W)"
    "S' = W\<lparr>stalled_warps := stalled_warps_next W\<rparr>"
    using s unfolding schedule_def by (auto simp: bind_eq_Some_conv)
  obtain T' k3 where "dispatch_cta c S k = Some (T', k3)" "sched_inv c T'" by (rule dispatch_cta_inv [OF i])
  then have T: "sched_inv c T" using u(1) by simp
  have "\<exists>U. (if fwd_armed T then fwd_try_inject c (kmu_PC k'') (fwd_waves T) T else Some T) = Some U \<and> sched_inv c U"
    using T by (cases "fwd_armed T") (simp_all add: fwd_try_inject_inv sched_inv_waves_ok)
  then have U: "sched_inv c U" using u(2) by auto
  have "asleep T w" by (rule dispatch_cta_asleep [OF i u(1) a(1)])
  then have x: "asleep U w" using u(2) by (auto split: if_splits dest: fwd_try_inject_asleep)
  have "V = U" by (rule process_wspawn_asleep [OF U u(3) x a(2)])
  with x u(4) have "asleep W w" by (auto simp: bind_eq_Some_conv split: option.splits dest: fetch_warp_asleep)
  then show ?thesis by (simp add: u(5) asleep_def)
qed

text \<open>
  A warp that waits at a barrier runs no instruction: the pipeline does not resume it, change its
  threads or spawn warps on its behalf. It takes no asynchronous trap, which would resume it, and
  the core is reset only as a whole.
\<close>

fun leaves_asleep :: "nat \<Rightarrow> sched_op \<Rightarrow> bool" where
  "leaves_asleep w (Resume v) \<longleftrightarrow> v \<noteq> w"
| "leaves_asleep w (SetTmask v tm) \<longleftrightarrow> v \<noteq> w"
| "leaves_asleep w (Wspawn n pc) \<longleftrightarrow> w \<noteq> 0"
| "leaves_asleep w (AsyncTrap v cause pc tm fl sn) \<longleftrightarrow> v \<noteq> w"
| "leaves_asleep w Reset \<longleftrightarrow> False"
| "leaves_asleep w _ \<longleftrightarrow> True"

lemma resume_asleep: "resume S v = Some S' \<Longrightarrow> v \<noteq> w \<Longrightarrow> asleep S w \<Longrightarrow> asleep S' w"
  by (auto simp: resume_def bind_eq_Some_conv lset_eq_Some asleep_def)

lemma setTmask_asleep: "setTmask c S v tm = Some (r, S') \<Longrightarrow> v \<noteq> w \<Longrightarrow> asleep S w \<Longrightarrow> asleep S' w"
proof -
  assume s: "setTmask c S v tm = Some (r, S')" and v: "v \<noteq> w" "asleep S w"
  show "asleep S' w"
  proof (cases "many tm")
    case True
    with s obtain ws where "S' = S\<lparr>warps := ws\<rparr>" unfolding setTmask_def Let_def bind_eq_Some_conv by auto
    with v show ?thesis by (simp add: asleep_def)
  next
    case False
    with s obtain ws a fr D where x: "lset (active_warps (S\<lparr>warps := ws\<rparr>)) v False = Some a"
      "S' = (if fr then S\<lparr>warps := ws, fwd_is_fragment := (fwd_is_fragment (S\<lparr>warps := ws\<rparr>))[v := False],
          fwd_retired := fwd_retired (S\<lparr>warps := ws\<rparr>) + 1\<rparr>
        else S\<lparr>warps := ws\<rparr>)\<lparr>active_warps := a, cta_disp := D\<rparr>"
      unfolding setTmask_def Let_def bind_eq_Some_conv
      by (auto simp only: if_True not_False_eq_True bind_eq_Some_conv option.inject prod.inject)
    have "active_warps S' = (active_warps S)[v := False]" using x by (simp add: lset_eq_Some)
    moreover have "stalled_warps_next S' = stalled_warps_next S" "wspawn_valid S' = wspawn_valid S" using x(2) by (cases fr; simp)+
    ultimately show ?thesis using v by (simp add: asleep_def)
  qed
qed

lemma raise_trap_asleep: "raise_trap S v cause pc = Some S' \<Longrightarrow> asleep S' w = asleep S w"
  by (auto simp: raise_trap_def bind_eq_Some_conv asleep_def)

lemma raise_async_trap_asleep:
  assumes "raise_async_trap S v cause pc tm fl sn = Some S'" "v \<noteq> w" "asleep S w"
  shows "asleep S' w"
proof -
  obtain T st ws t U sn' es where T: "raise_trap S v cause (if fl = 0 then pc else fl) = Some T"
    "(if st then resume (T\<lparr>warps := ws, in_async_trap := t\<rparr>) v else Some (T\<lparr>warps := ws, in_async_trap := t\<rparr>)) = Some U"
    "S' = U\<lparr>async_trap_snapshot := sn', trap_epoch := es\<rparr>"
    using assms(1) unfolding raise_async_trap_def Let_def bind_eq_Some_conv by blast
  have "asleep (T\<lparr>warps := ws, in_async_trap := t\<rparr>) w" using raise_trap_asleep [OF T(1)] assms(3) by (simp add: asleep_def)
  then have "asleep U w" using T(2) assms(2) by (cases st) (auto dest: resume_asleep)
  then show ?thesis by (simp add: T(3) asleep_def)
qed

lemma advance_pc_asleep: "advance_pc S t n = Some S' \<Longrightarrow> asleep S' w = asleep S w"
  by (auto simp: advance_pc_def bind_eq_Some_conv asleep_def split: if_splits)

lemma mret_asleep: "mret S v n = Some (r, S') \<Longrightarrow> asleep S' w = asleep S w"
  unfolding mret_def Let_def bind_eq_Some_conv by (auto simp: asleep_def)

lemma wspawn_asleep: "w \<noteq> 0 \<Longrightarrow> asleep (snd (wspawn c S n pc)) w = asleep S w"
  by (simp add: wspawn_def asleep_def Let_def)

lemma fwd_asleep:
  "asleep (fwd_arm S e p) w = asleep S w" "asleep (fwd_push_wave S v) w = asleep S w" "asleep (fwd_mark_drained S) w = asleep S w"
  "asleep (fwd_on_request S) w = asleep S w" "asleep (fwd_on_response S) w = asleep S w" "asleep (fwd_disarm S) w = asleep S w"
  by (simp_all add: asleep_def fwd_arm_def fwd_push_wave_def fwd_mark_drained_def fwd_on_request_def fwd_on_response_def fwd_disarm_def)

lemma sched_exec_asleep:
  assumes i: "sched_inv c S" "kmu_ok c k" and a: "asleep S w" "w < MAX_NUM_WARPS" and l: "leaves_asleep w op"
    and e: "sched_exec c cid op (S, k) = Some (S', k')"
  shows "asleep S' w"
proof (cases op)
  case (Cycle m)
  with e schedule_asleep [OF i _ a] show ?thesis by auto
next
  case (SetTmask v tm)
  with e a l show ?thesis by (auto dest: setTmask_asleep)
next
  case (AsyncTrap v cause pc tm fl sn)
  with e a l show ?thesis by (auto dest: raise_async_trap_asleep)
qed (use e a l in \<open>auto simp: trigger_ecall_def trigger_ebreak_def raise_trap_asleep wspawn_asleep advance_pc_asleep mret_asleep
       fwd_asleep dest: resume_asleep\<close>)

datatype proc_op =
    SchedOp nat sched_op kmu
  | BarArrive nat u32 u32 nat bool
  | BarWait nat u32 u32 nat
  | BarAttach nat u32 u32
  | BarEvent nat u32

definition proc_new :: "vx_cfg \<Rightarrow> warp_t \<Rightarrow> proc_t" where
  "proc_new c w = \<lparr>proc_cores = replicate (unat (num_clusters c * num_cores c)) \<lparr>core_sched = sched_new c w 0 0, core_bars = barriers_new c\<rparr>,
     gbarriers = replicate (unat (num_barriers c)) (replicate MAX_NUM_CORES False)\<rparr>"

fun proc_exec :: "vx_cfg \<Rightarrow> proc_op \<Rightarrow> proc_t \<Rightarrow> proc_t option" where
  "proc_exec c (SchedOp cid op k) P = do {
     C \<leftarrow> lat (proc_cores P) cid;
     (S, _) \<leftarrow> sched_exec c (of_nat cid) op (core_sched C, k);
     put_core P cid (C\<lparr>core_sched := S\<rparr>) }"
| "proc_exec c (BarArrive cid bar_id n w s) P = arrive c P cid bar_id n w s"
| "proc_exec c (BarWait cid bar_id ph w) P = do {
     C \<leftarrow> lat (proc_cores P) cid;
     (_, C) \<leftarrow> bar_wait C bar_id ph w;
     put_core P cid C }"
| "proc_exec c (BarAttach cid bar_id n) P = do {
     C \<leftarrow> lat (proc_cores P) cid;
     C \<leftarrow> event_attach C bar_id n;
     put_core P cid C }"
| "proc_exec c (BarEvent cid bar_id) P = event_release c P cid bar_id"

text \<open>
  When a core performs these: a scheduler operation as in a run of the scheduler, and never on a
  warp that waits at a barrier; an arrival or a wait of a warp that executes it, hence is stalled and
  waits nowhere; the end of an event for a barrier that expects one.
\<close>

fun proc_allowed :: "vx_cfg \<Rightarrow> proc_t \<Rightarrow> proc_op \<Rightarrow> bool" where
  "proc_allowed c P (SchedOp cid op k) \<longleftrightarrow> cid < length (proc_cores P) \<and> kmu_ok c k \<and>
     sched_allowed c (core_sched (proc_cores P ! cid)) op \<and>
     (\<forall>i < length (core_bars (proc_cores P ! cid)). \<forall>w. waits_at (proc_cores P ! cid) i w \<longrightarrow> leaves_asleep w op)"
| "proc_allowed c P (BarArrive cid bar_id n w s) \<longleftrightarrow> cid < length (proc_cores P) \<and>
     bar_pos bar_id < unat (num_warps c * num_barriers c) \<and> n \<noteq> 0 \<and> w < MAX_NUM_WARPS \<and> (s \<longrightarrow> may_wait c (proc_cores P ! cid) w)"
| "proc_allowed c P (BarWait cid bar_id ph w) \<longleftrightarrow> cid < length (proc_cores P) \<and>
     bar_pos bar_id < unat (num_warps c * num_barriers c) \<and> may_wait c (proc_cores P ! cid) w"
| "proc_allowed c P (BarAttach cid bar_id n) \<longleftrightarrow> cid < length (proc_cores P) \<and>
     bar_pos bar_id < unat (num_warps c * num_barriers c)"
| "proc_allowed c P (BarEvent cid bar_id) \<longleftrightarrow> cid < length (proc_cores P) \<and>
     bar_pos bar_id < unat (num_warps c * num_barriers c) \<and>
     bar_events (core_bars (proc_cores P ! cid) ! bar_pos bar_id) > 0"

inductive proc_reach :: "vx_cfg \<Rightarrow> warp_t \<Rightarrow> proc_t \<Rightarrow> bool" for c w where
  init: "proc_reach c w (proc_new c w)"
| step: "proc_reach c w P \<Longrightarrow> proc_allowed c P op \<Longrightarrow> proc_exec c op P = Some P' \<Longrightarrow> proc_reach c w P'"

definition proc_cfg_ok :: "vx_cfg \<Rightarrow> bool" where
  "proc_cfg_ok c \<longleftrightarrow> cfg_ok c \<and> num_barriers c \<noteq> 0 \<and> unat (num_clusters c * num_cores c) \<le> MAX_NUM_CORES"

lemma proc_new_inv:
  assumes "proc_cfg_ok c" "warp_ok c w"
  shows "proc_inv c (proc_new c w)"
proof -
  have s: "sched_inv c (sched_new c w 0 0)"
    using assms by (auto simp: proc_cfg_ok_def cfg_ok_def warp_ok_def intro: sched_inv_new)
  have n: "\<not> waits_at \<lparr>core_sched = S, core_bars = barriers_new c\<rparr> i v" if "i < length (barriers_new c)" for i v S
    using that by (simp add: waits_at_def barriers_new_def warp_barrier_new_def)
  have "core_inv c \<lparr>core_sched = sched_new c w 0 0, core_bars = barriers_new c\<rparr>"
    using s n by (auto simp: core_inv_def barriers_new_def bar_shape_def warp_barrier_new_def)
  then show ?thesis using assms by (auto simp: proc_inv_def proc_new_def proc_cfg_ok_def barriers_new_def unat_eq_0)
qed

lemma sched_op_inv:
  assumes i: "core_inv c C" "kmu_ok c k" and a: "sched_allowed c (core_sched C) op"
    and l: "\<forall>i < length (core_bars C). \<forall>w. waits_at C i w \<longrightarrow> leaves_asleep w op"
  shows "\<exists>S k'. sched_exec c cid op (core_sched C, k) = Some (S, k') \<and> core_inv c (C\<lparr>core_sched := S\<rparr>)"
proof -
  note s = core_invD(1) [OF i(1)]
  obtain S k' where e: "sched_exec c cid op (core_sched C, k) = Some (S, k')" "sched_inv c S"
    using sched_exec_inv [OF s i(2) a] by blast
  have "parked c S w" if w: "i < length (core_bars C)" "waits_at C i w" for i w
  proof -
    have p: "parked c (core_sched C) w" by (rule core_invD(3) [OF i(1) w])
    moreover have "leaves_asleep w op" using l w by blast
    ultimately show ?thesis using sched_exec_asleep [OF s i(2) _ _ _ e(1)] w(2) by (simp add: parked_asleep waits_at_def)
  qed
  then have "core_inv c (C\<lparr>core_sched := S\<rparr>)" by (rule core_inv_sched [OF i(1) e(2)])
  with e(1) show ?thesis by blast
qed

lemma proc_exec_inv:
  assumes i: "proc_inv c P" and a: "proc_allowed c P op"
  shows "\<exists>P'. proc_exec c op P = Some P' \<and> proc_inv c P'"
proof (cases op)
  case (SchedOp cid op' k)
  with a have c: "cid < length (proc_cores P)" by simp
  from SchedOp a sched_op_inv [OF proc_invD(3) [OF i c], of k op' "of_nat cid"]
  obtain S k' where e: "sched_exec c (of_nat cid) op' (core_sched (proc_cores P ! cid), k) = Some (S, k')"
    "core_inv c ((proc_cores P ! cid)\<lparr>core_sched := S\<rparr>)" by auto
  from proc_inv_put [OF i c e(2)] e(1) c SchedOp show ?thesis by simp
next
  case (BarArrive cid bar_id n w s)
  with a arrive_inv [OF i, of cid bar_id s w n] show ?thesis by simp
next
  case (BarWait cid bar_id ph w)
  with a have c: "cid < length (proc_cores P)" by simp
  note I = proc_invD(3,4) [OF i c]
  obtain r C' where e: "bar_wait (proc_cores P ! cid) bar_id ph w = Some (r, C')" "core_inv c C'"
    "length (core_bars C') = length (core_bars (proc_cores P ! cid))"
    using bar_wait_inv [OF I(1), of bar_id w ph] a BarWait I(2) by auto
  from proc_inv_put [OF i c e(2,3)] e(1) c BarWait show ?thesis by simp
next
  case (BarAttach cid bar_id n)
  with a have c: "cid < length (proc_cores P)" by simp
  note I = proc_invD(3,4) [OF i c]
  obtain C' where e: "event_attach (proc_cores P ! cid) bar_id n = Some C'" "core_inv c C'"
    "length (core_bars C') = length (core_bars (proc_cores P ! cid))"
    using event_attach_inv [OF I(1), of bar_id n] a BarAttach I(2) by auto
  from proc_inv_put [OF i c e(2,3)] e(1) c BarAttach show ?thesis by simp
next
  case (BarEvent cid bar_id)
  with a event_release_inv [OF i, of cid bar_id] show ?thesis by simp
qed

lemma proc_reach_inv:
  assumes "proc_cfg_ok c" "warp_ok c w" "proc_reach c w P"
  shows "proc_inv c P"
  using assms(3)
proof induction
  case init
  then show ?case by (rule proc_new_inv [OF assms(1,2)])
next
  case (step P op P')
  with proc_exec_inv show ?case by fastforce
qed

subsection \<open>A device of two cores\<close>

text \<open>Two fragment waves run on each core, and their warps have just been fetched for.\<close>

definition cfg42 :: vx_cfg where
  "cfg42 = cfg4\<lparr>num_cores := 2\<rparr>"

definition cyc42 :: "sched \<Rightarrow> sched" where
  "cyc42 S = (case schedule cfg42 0 S kmu_new (replicate 64 True) of Some (t, S, k) \<Rightarrow> S | None \<Rightarrow> S)"

definition two42 :: sched where
  "two42 = fwd_push_wave (fwd_push_wave (fwd_arm (sched_new cfg42 warp4 0 0) 0x80000100 0x1000) wave4) wave4"

definition core42 :: core_t where
  "core42 = \<lparr>core_sched = cyc42 (cyc42 two42), core_bars = barriers_new cfg42\<rparr>"

definition proc42 :: proc_t where
  "proc42 = \<lparr>proc_cores = [core42, core42], gbarriers = replicate 8 (replicate MAX_NUM_CORES False)\<rparr>"

lemma cfg42_ok: "proc_cfg_ok cfg42" "warp_ok cfg42 warp4" "kmu_ok cfg42 kmu_new"
  by (simp_all add: proc_cfg_ok_def cfg_ok_def warp_ok_def cfg42_def cfg4_def warp4_def warp_new_def MAX_NUM_WARPS_def
      MAX_NUM_CORES_def kmu_ok_def kmu_new_def)

lemma cyc42_inv: "sched_inv cfg42 S \<Longrightarrow> sched_inv cfg42 (cyc42 S)"
  using schedule_inv [OF _ cfg42_ok(3), of S 0 "replicate 64 True"] by (force simp: cyc42_def)

lemma core42_parked: "parked cfg42 (core_sched core42) 0 \<and> parked cfg42 (core_sched core42) 1 \<and>
    mcount (active_warps (core_sched core42)) = 2"
  by code_simp

lemma core42_quiet: "i < 32 \<Longrightarrow> \<not> waits_at core42 i w"
  by (simp add: waits_at_def core42_def barriers_new_def warp_barrier_new_def cfg42_def cfg4_def)

lemma core42_inv: "core_inv cfg42 core42"
proof -
  have "sched_inv cfg42 (sched_new cfg42 warp4 0 0)"
    using cfg42_ok by (auto simp: proc_cfg_ok_def cfg_ok_def warp_ok_def intro: sched_inv_new)
  then have "sched_inv cfg42 two42"
    unfolding two42_def by (intro fwd_push_wave_inv fwd_arm_inv) (simp_all add: wave4_def cfg42_def cfg4_def many_def sched_new_def Let_def)
  then have s: "sched_inv cfg42 (core_sched core42)" by (simp add: core42_def cyc42_inv)
  have "length (core_bars core42) = 32" "\<forall>b \<in> set (core_bars core42). bar_shape b"
    by (simp_all add: core42_def barriers_new_def bar_shape_def warp_barrier_new_def cfg42_def cfg4_def)
  with s core42_quiet show ?thesis by (simp add: core_inv_def)
qed

lemma proc42_inv: "proc_inv cfg42 proc42"
proof -
  have "length (core_bars core42) = 32" by (simp add: core42_def barriers_new_def cfg42_def cfg4_def)
  then show ?thesis using core42_inv by (simp add: proc_inv_def proc42_def MAX_NUM_CORES_def cfg42_def cfg4_def)
qed

lemma core42_may_wait: "may_wait cfg42 core42 0" "may_wait cfg42 core42 1"
  using core42_parked core42_quiet
  by (auto simp: may_wait_def core42_def barriers_new_def cfg42_def cfg4_def)

lemma core42_idle:
  assumes "i < 32"
  shows "bar_events (core_bars core42 ! i) = 0" "bar_count (core_bars core42 ! i) = 0" "waiters core42 i = {}"
    "arrival_mask (core_bars core42 ! i) = replicate MAX_NUM_WARPS False"
  using assms core42_quiet [OF assms]
  by (auto simp: waiters_def core42_def barriers_new_def warp_barrier_new_def cfg42_def cfg4_def)

text \<open>Core 1 has arrived at the global barrier 0 with a warp that waits, and so has the first warp of core 0.\<close>

definition core42g :: core_t where
  "core42g = note_arrival core42 0 2 0 True"

definition proc42g :: proc_t where
  "proc42g = \<lparr>proc_cores = [core42g, core42g], gbarriers = (replicate 8 (replicate MAX_NUM_CORES False))[0 := (replicate MAX_NUM_CORES False)[1 := True]]\<rparr>"

lemma core42g:
  "core_inv cfg42 core42g" "length (core_bars core42g) = 32" "core_sched core42g = core_sched core42" "waiters core42g 0 = {0}"
  "may_wait cfg42 core42g 1" "arrival_mask (core_bars core42g ! 0) = (replicate MAX_NUM_WARPS False)[0 := True]"
  "bar_events (core_bars core42g ! 0) = 0"
proof -
  have l: "length (core_bars core42) = 32" by (simp add: core42_def barriers_new_def cfg42_def cfg4_def)
  have w: "True \<longrightarrow> may_wait cfg42 core42 0" "0 < MAX_NUM_WARPS" using core42_may_wait by (simp_all add: MAX_NUM_WARPS_def)
  have z: "0 < length (core_bars core42)" using l by simp
  note N = note_arrival_inv [OF core42_inv z w, of 2, folded core42g_def]
  show "core_inv cfg42 core42g" "length (core_bars core42g) = 32" "core_sched core42g = core_sched core42"
    using N l by simp_all
  show W: "waiters core42g 0 = {0}" using N(2) core42_idle(3) [of 0] by simp
  have "\<not> waits_at core42g i 1" if "i < 32" for i
    using that W core42_quiet [OF that] l by (cases "i = 0") (auto simp: waiters_def core42g_def note_arrival_def waits_at_def)
  then show "may_wait cfg42 core42g 1" using core42_parked N l by (simp add: may_wait_def)
  show "arrival_mask (core_bars core42g ! 0) = (replicate MAX_NUM_WARPS False)[0 := True]" "bar_events (core_bars core42g ! 0) = 0"
    using l core42_idle [of 0] by (simp_all add: core42g_def note_arrival_def)
qed

lemma proc42g_inv: "proc_inv cfg42 proc42g"
proof -
  have "proc_inv cfg42 (proc42g\<lparr>gbarriers := replicate 8 (replicate MAX_NUM_CORES False)\<rparr>)"
    using core42g(1,2) by (simp add: proc_inv_def proc42g_def MAX_NUM_CORES_def cfg42_def cfg4_def)
  from proc_inv_gbar [OF this, of "(replicate MAX_NUM_CORES False)[1 := True]" 0] show ?thesis by (simp add: proc42g_def)
qed

lemma proc42g_arrived1: "mcount (arrived_cores proc42g 0x80000000 1) = 1"
proof -
  have "arrived_cores proc42g 0x80000000 1 = (replicate MAX_NUM_CORES False)[1 := True]"
    by (simp add: arrived_cores_def gbar_pos_def proc42g_def)
  moreover have "mcount ((replicate MAX_NUM_CORES False)[1 := True]) = 1" by code_simp
  ultimately show ?thesis by simp
qed

lemma proc42g_state:
  "mcount ((replicate MAX_NUM_WARPS False)[0 := True, 1 := True]) = mcount (active_warps (core_sched core42))"
  "mcount (arrived_cores proc42g 0x80000000 0) = 2" "arrived_cores proc42g 0x80000000 0 ! 1"
proof -
  have "mcount ((replicate MAX_NUM_WARPS False)[0 := True, 1 := True]) = 2" by code_simp
  then show "mcount ((replicate MAX_NUM_WARPS False)[0 := True, 1 := True]) = mcount (active_warps (core_sched core42))"
    using core42_parked by simp
  have a: "arrived_cores proc42g 0x80000000 0 = (replicate MAX_NUM_CORES False)[1 := True, 0 := True]"
    by (simp add: arrived_cores_def gbar_pos_def proc42g_def)
  have "mcount (replicate MAX_NUM_CORES False) = 0" by (simp add: mcount_0_iff many_def)
  then show "mcount (arrived_cores proc42g 0x80000000 0) = 2" unfolding a by (simp add: mcount_set MAX_NUM_CORES_def)
  show "arrived_cores proc42g 0x80000000 0 ! 1" unfolding a by (simp add: MAX_NUM_CORES_def)
qed

subsection \<open>Properties\<close>

text \<open>
  C7. The barriers and the schedulers of a device work together. In every state reached from a new
  device by scheduler and barrier operations of its cores, in any order, every operation a core may
  perform returns: no assertion fails and no table is read out of range. A warp that waits at a
  barrier is active and stalled, and it waits at no other barrier.
\<close>

theorem barrier_safe:
  assumes "proc_cfg_ok c" "warp_ok c w0" "proc_reach c w0 P"
  shows "(\<forall>op. proc_allowed c P op \<longrightarrow> proc_exec c op P \<noteq> None) \<and>
    (\<forall>cid < length (proc_cores P). \<forall>i < length (core_bars (proc_cores P ! cid)). \<forall>w. waits_at (proc_cores P ! cid) i w \<longrightarrow>
       active_warps (core_sched (proc_cores P ! cid)) ! w \<and> stalled_warps_next (core_sched (proc_cores P ! cid)) ! w \<and>
       (\<forall>j < length (core_bars (proc_cores P ! cid)). waits_at (proc_cores P ! cid) j w \<longrightarrow> j = i))"
proof -
  have i: "proc_inv c P" by (rule proc_reach_inv [OF assms])
  have "proc_exec c op P \<noteq> None" if "proc_allowed c P op" for op using proc_exec_inv [OF i that] by auto
  moreover have "active_warps (core_sched C) ! w \<and> stalled_warps_next (core_sched C) ! w \<and>
      (\<forall>j < length (core_bars C). waits_at C j w \<longrightarrow> j = i)"
    if "C = proc_cores P ! cid" "cid < length (proc_cores P)" "i < length (core_bars C)" "waits_at C i w" for cid C i w
  proof -
    have C: "core_inv c C" using proc_invD(3) [OF i that(2)] that(1) by simp
    show ?thesis using core_invD(3) [OF C that(3,4)] core_invD(4) [OF C _ that(3) _ that(4)] by (auto simp: parked_def)
  qed
  ultimately show ?thesis by blast
qed

theorem barrier_safe_witness:
  "proc_exec cfg42 (BarAttach 1 3 2) (proc_new cfg42 warp4) \<noteq> None"
proof -
  have "proc_allowed cfg42 (proc_new cfg42 warp4) (BarAttach 1 3 2)"
    by (simp add: proc_new_def cfg42_def cfg4_def bar_index_def)
  with barrier_safe [OF cfg42_ok(1,2) proc_reach.init] show ?thesis by blast
qed

text \<open>
  C15. A local barrier releases its warps together. When the warps of a list arrive in turn at an
  idle barrier, with their number as its count, none is resumed while one is missing; the last
  arrival resumes exactly these warps, and leaves the barrier idle in its next phase.
\<close>

theorem barrier_local_sync:
  assumes i: "proc_inv c P" "cid < length (proc_cores P)" and b: "bar_pos bar_id < unat (num_warps c * num_barriers c)" "\<not> is_global bar_id"
    and ws: "distinct ws" "\<forall>w \<in> set ws. may_wait c (proc_cores P ! cid) w" "ws \<noteq> []" "unat n = length ws"
    and e: "bar_events (core_bars (proc_cores P ! cid) ! bar_pos bar_id) = 0"
      "bar_count (core_bars (proc_cores P ! cid) ! bar_pos bar_id) = 0" "waiters (proc_cores P ! cid) (bar_pos bar_id) = {}"
  shows "(\<forall>k < length ws. \<exists>P'. arrive_all c cid bar_id n (take k ws) P = Some P' \<and>
      core_sched (proc_cores P' ! cid) = core_sched (proc_cores P ! cid)) \<and>
    (\<exists>P'. arrive_all c cid bar_id n ws P = Some P' \<and> proc_inv c P' \<and>
      active_warps (core_sched (proc_cores P' ! cid)) = active_warps (core_sched (proc_cores P ! cid)) \<and>
      (\<forall>w < MAX_NUM_WARPS. stalled_warps_next (core_sched (proc_cores P' ! cid)) ! w \<longleftrightarrow>
         stalled_warps_next (core_sched (proc_cores P ! cid)) ! w \<and> w \<notin> set ws) \<and>
      waiters (proc_cores P' ! cid) (bar_pos bar_id) = {} \<and> bar_count (core_bars (proc_cores P' ! cid) ! bar_pos bar_id) = 0 \<and>
      bar_phase (core_bars (proc_cores P' ! cid) ! bar_pos bar_id) = bar_phase (core_bars (proc_cores P ! cid) ! bar_pos bar_id) + 1)"
proof (intro conjI allI impI)
  note I = proc_invD(3,4) [OF i]
  have k: "bar_pos bar_id < length (core_bars (proc_cores P ! cid))" using I(2) b(1) by simp
  note A = arrive_all_local [OF b(2) i(2)]
  {
    fix k' assume "k' < length ws"
    then have t: "distinct (take k' ws)" "\<forall>w \<in> set (take k' ws). may_wait c (proc_cores P ! cid) w"
      "unat (bar_count (core_bars (proc_cores P ! cid) ! bar_pos bar_id)) + length (take k' ws) < unat n"
      using ws e(2) by (auto dest: in_set_takeD)
    from arrive_locals_wait [OF I(1) k t(1,2) e(1) t(3)] i(2)
    show "\<exists>P'. arrive_all c cid bar_id n (take k' ws) P = Some P' \<and> core_sched (proc_cores P' ! cid) = core_sched (proc_cores P ! cid)"
      by (auto simp: A put_core_def)
  }
  obtain C' where C: "arrive_locals c (proc_cores P ! cid) (bar_index bar_id) n ws = Some C'" "core_inv c C'"
    "core_sched C' = unstall (set ws) (core_sched (proc_cores P ! cid))"
    "length (core_bars C') = length (core_bars (proc_cores P ! cid))" "waiters C' (bar_pos bar_id) = {}"
    "bar_count (core_bars C' ! bar_pos bar_id) = 0"
    "bar_phase (core_bars C' ! bar_pos bar_id) = bar_phase (core_bars (proc_cores P ! cid) ! bar_pos bar_id) + 1"
    using arrive_locals_release [OF I(1) k ws(1,2) e ws(4,3)] by blast
  show "\<exists>P'. arrive_all c cid bar_id n ws P = Some P' \<and> proc_inv c P' \<and>
      active_warps (core_sched (proc_cores P' ! cid)) = active_warps (core_sched (proc_cores P ! cid)) \<and>
      (\<forall>w < MAX_NUM_WARPS. stalled_warps_next (core_sched (proc_cores P' ! cid)) ! w \<longleftrightarrow>
         stalled_warps_next (core_sched (proc_cores P ! cid)) ! w \<and> w \<notin> set ws) \<and>
      waiters (proc_cores P' ! cid) (bar_pos bar_id) = {} \<and> bar_count (core_bars (proc_cores P' ! cid) ! bar_pos bar_id) = 0 \<and>
      bar_phase (core_bars (proc_cores P' ! cid) ! bar_pos bar_id) = bar_phase (core_bars (proc_cores P ! cid) ! bar_pos bar_id) + 1"
    using proc_inv_put [OF i C(2,4)] i(2) C by (simp add: A)
qed

theorem barrier_local_sync_witness:
  "\<exists>P'. arrive_all cfg42 0 3 2 [0, 1] proc42 = Some P' \<and> \<not> stalled_warps_next (core_sched (proc_cores P' ! 0)) ! 0"
proof -
  have x: "0 < length (proc_cores proc42)" "proc_cores proc42 ! 0 = core42" by (simp_all add: proc42_def)
  have b: "bar_pos 3 = 3" "3 < unat (num_warps cfg42 * num_barriers cfg42)" "\<not> is_global 3"
    by (simp_all add: bar_index_def cfg42_def cfg4_def is_global_def)
  have "(0::nat) < MAX_NUM_WARPS" by (simp add: MAX_NUM_WARPS_def)
  with barrier_local_sync [OF proc42_inv x(1) _ b(3), of "[0, 1]" 2] show ?thesis
    using core42_may_wait core42_idle [of 3] by (auto simp: x(2) b(1,2))
qed

text \<open>
  C16. A global barrier releases the device together. Every arrival of a warp at it returns. Unless the
  arrival is the one its core waits for, which is when all active warps of the core have arrived and no
  transaction is pending, it resumes no warp of any core, changes no phase and reports nothing: the
  warp is noted among those that wait. The arrival that its core waits for is reported to the
  processor. If this completes the number of cores that the barrier expects, on every core that has
  arrived exactly the warps that wait at the barrier are resumed, the barrier there enters its next
  phase, and the processor forgets the arrivals; if not, the core is noted and no warp is resumed.
\<close>

theorem global_barrier_release:
  assumes i: "proc_inv c P" "cid < length (proc_cores P)" and b: "bar_pos bar_id < unat (num_warps c * num_barriers c)" "is_global bar_id"
    and w: "may_wait c (proc_cores P ! cid) w"
  shows "\<exists>P'. arrive c P cid bar_id n w True = Some P' \<and> proc_inv c P' \<and>
    (\<forall>k < length (proc_cores P). \<forall>v < MAX_NUM_WARPS. stalled_warps_next (core_sched (proc_cores P' ! k)) ! v \<longleftrightarrow>
       stalled_warps_next (core_sched (proc_cores P ! k)) ! v \<and>
       \<not> (k \<in> frees P cid bar_id n w \<and> (v \<in> waiters (proc_cores P ! k) (bar_pos bar_id) \<or> k = cid \<and> v = w))) \<and>
    (\<forall>k < length (proc_cores P). waiters (proc_cores P' ! k) (bar_pos bar_id) =
       (if k \<in> frees P cid bar_id n w then {} else waiters (proc_cores P ! k) (bar_pos bar_id) \<union> (if k = cid then {w} else {})) \<and>
       bar_phase (core_bars (proc_cores P' ! k) ! bar_pos bar_id) =
         bar_phase (core_bars (proc_cores P ! k) ! bar_pos bar_id) + (if k \<in> frees P cid bar_id n w then 1 else 0)) \<and>
    arrival_mask (core_bars (proc_cores P' ! cid) ! bar_pos bar_id) =
      (if core_last (proc_cores P ! cid) (bar_pos bar_id) w then replicate MAX_NUM_WARPS False else (arrival_mask (core_bars (proc_cores P ! cid) ! bar_pos bar_id))[w := True]) \<and>
    gbarriers P' ! gbar_pos P bar_id =
      (if \<not> core_last (proc_cores P ! cid) (bar_pos bar_id) w then gbarriers P ! gbar_pos P bar_id
       else if mcount (arrived_cores P bar_id cid) = unat n then replicate MAX_NUM_CORES False else arrived_cores P bar_id cid)"
proof -
  let ?i = "bar_pos bar_id" and ?C = "proc_cores P ! cid"
  let ?N = "note_arrival ?C ?i n w True" and ?K = "frees P cid bar_id n w" and ?last = "core_last (proc_cores P ! cid) (bar_pos bar_id) w"
  note I = proc_invD(3,4) [OF i]
  have k: "?i < length (core_bars (proc_cores P ! j))" if "j < length (proc_cores P)" for j using proc_invD(4) [OF i(1) that] b(1) by simp
  note l = may_wait_less [OF I(1) w]
  have N: "waiters ?N ?i = insert w (waiters ?C ?i)" "core_sched ?N = core_sched ?C" "?i < length (core_bars ?N)"
    "bar_phase (core_bars ?N ! ?i) = bar_phase (core_bars ?C ! ?i)" "arrival_mask (core_bars ?N ! ?i) = (arrival_mask (core_bars ?C ! ?i))[w := True]"
    using note_arrival_inv [OF I(1) k [OF i(2)], of True w n] w l k [OF i(2)] by (simp_all add: note_arrival_def)
  obtain P' where P: "arrive_global c P cid bar_id n w True = Some P'" "proc_inv c P'"
    "\<And>j. j < length (proc_cores P) \<Longrightarrow> proc_cores P' ! j = (let N = (if j = cid then ?N else proc_cores P ! j); X = (if j \<in> ?K then released N ?i else N)
       in if j = cid \<and> ?last then clear_arrivals X ?i else X)"
    "gbarriers P' = (if ?last then (gbarriers P)[gbar_pos P bar_id :=
      if mcount (arrived_cores P bar_id cid) = unat n then replicate MAX_NUM_CORES False else arrived_cores P bar_id cid] else gbarriers P)"
    using arrive_global_effect [OF i b(1) w, of n] unfolding Let_def by blast
  have g: "gbar_pos P bar_id < length (gbarriers P)" using proc_invD(5) [OF i(1)] by (simp add: gbar_pos_def)
  have lK: "j \<in> ?K \<Longrightarrow> ?last" for j by (auto simp: frees_def split: if_splits)
  have "stalled_warps_next (core_sched (proc_cores P' ! j)) ! v \<longleftrightarrow> stalled_warps_next (core_sched (proc_cores P ! j)) ! v \<and>
      \<not> (j \<in> ?K \<and> (v \<in> waiters (proc_cores P ! j) ?i \<or> j = cid \<and> v = w))" if "j < length (proc_cores P)" "v < MAX_NUM_WARPS" for j v
    using that N P(3) [OF that(1)] by (cases "j = cid") (auto simp: Let_def)
  moreover have "waiters (proc_cores P' ! j) ?i = (if j \<in> ?K then {} else waiters (proc_cores P ! j) ?i \<union> (if j = cid then {w} else {})) \<and>
      bar_phase (core_bars (proc_cores P' ! j) ! ?i) = bar_phase (core_bars (proc_cores P ! j) ! ?i) + (if j \<in> ?K then 1 else 0)"
    if "j < length (proc_cores P)" for j
    using N k [OF that] P(3) [OF that] by (cases "j = cid") (auto simp: Let_def)
  moreover have "arrival_mask (core_bars (proc_cores P' ! cid) ! ?i) =
      (if ?last then replicate MAX_NUM_WARPS False else (arrival_mask (core_bars ?C ! ?i))[w := True])"
    using N P(3) [OF i(2)] lK [of cid] by (auto simp: Let_def clear_arrivals_def)
  ultimately show ?thesis using P(1,2,4) b(2) g by (simp add: arrive_def)
qed

theorem global_barrier_release_witness:
  "(\<exists>P'. arrive cfg42 proc42g 0 0x80000000 2 1 True = Some P' \<and> \<not> stalled_warps_next (core_sched (proc_cores P' ! 1)) ! 0) \<and>
   (\<exists>P'. arrive cfg42 proc42g 1 0x80000000 3 1 True = Some P' \<and> waiters (proc_cores P' ! 0) 0 = {0})"
proof
  have b: "bar_pos 0x80000000 = 0" "bar_pos 0x80000000 < unat (num_warps cfg42 * num_barriers cfg42)" "is_global 0x80000000"
    by (simp_all add: bar_index_def cfg42_def cfg4_def is_global_def)
  have c: "0 < length (proc_cores proc42g)" "1 < length (proc_cores proc42g)" "proc_cores proc42g ! 0 = core42g" "proc_cores proc42g ! 1 = core42g"
    by (simp_all add: proc42g_def)
  have w: "may_wait cfg42 (proc_cores proc42g ! 0) 1" "may_wait cfg42 (proc_cores proc42g ! 1) 1" using core42g(5) c by simp_all
  have z: "(0::nat) < MAX_NUM_WARPS" by (simp add: MAX_NUM_WARPS_def)
  have "core_last core42g 0 1" using proc42g_state(1) core42g by (simp add: core_last_def)
  then have k: "1 \<in> frees proc42g 0 0x80000000 2 1" using proc42g_state c b by (simp add: frees_def completes_def arrived_set_def)
  show "\<exists>P'. arrive cfg42 proc42g 0 0x80000000 2 1 True = Some P' \<and> \<not> stalled_warps_next (core_sched (proc_cores P' ! 1)) ! 0"
    using global_barrier_release [OF proc42g_inv c(1) b(2,3) w(1), of 2] c(2,4) z k core42g(4) unfolding b(1) by auto
  have "frees proc42g 1 0x80000000 3 1 = {}" using proc42g_arrived1 by (simp add: frees_def completes_def)
  then show "\<exists>P'. arrive cfg42 proc42g 1 0x80000000 3 1 True = Some P' \<and> waiters (proc_cores P' ! 0) 0 = {0}"
    using global_barrier_release [OF proc42g_inv c(2) b(2,3) w(2), of 3] c(1,3) core42g(4) unfolding b(1) by auto
qed

end
