(* ===== verification/Wctl_Props.thy ===== *)
theory Wctl_Props
  imports Wctl Barrier_Props
begin

text \<open>
  Divergence and the other warp-control instructions: a divergent region runs both halves of its
  threads and reconverges, the reconvergence stack never overflows, and every instruction keeps the
  invariants of the schedulers and of the barriers.
\<close>

subsection \<open>Masks\<close>

definition submask :: "bool list \<Rightarrow> bool list \<Rightarrow> bool" where
  "submask a b \<longleftrightarrow> length a = length b \<and> (\<forall>t < length b. a ! t \<longrightarrow> b ! t)"

definition strict_submask :: "bool list \<Rightarrow> bool list \<Rightarrow> bool" where
  "strict_submask a b \<longleftrightarrow> submask a b \<and> (\<exists>t < length b. b ! t \<and> \<not> a ! t)"

lemma mcount_card: "mcount m = card {t. t < length m \<and> m ! t}"
  by (simp add: mcount_def length_filter_conv_card)

lemma strict_submask_mcount: "strict_submask a b \<Longrightarrow> mcount a < mcount b"
  unfolding mcount_card strict_submask_def submask_def by (intro psubset_card_mono) auto

lemma many_nth: "many m \<longleftrightarrow> (\<exists>t < length m. m ! t)"
  by (simp add: many_iff)

lemma nth_mand: "length a = length b \<Longrightarrow> t < length b \<Longrightarrow> mand a b ! t \<longleftrightarrow> a ! t \<and> b ! t"
  by (simp add: mand_def)

lemma mask_lengths [simp]: "length (mand a b) = min (length a) (length b)" "length (mnot a) = length a"
  "length (cond_mask nt neg tm rs) = nt" "length (mask_of nt v) = nt"
  by (simp_all add: mand_def mnot_def cond_mask_def mask_of_def)

lemma nth_mnot [simp]: "t < length a \<Longrightarrow> mnot a ! t \<longleftrightarrow> \<not> a ! t"
  by (simp add: mnot_def)

lemma nth_cond_mask [simp]: "t < nt \<Longrightarrow> cond_mask nt neg tm rs ! t \<longleftrightarrow> tm ! t \<and> lane_cond neg (rs ! t)"
  by (simp add: cond_mask_def)

lemma lane_cond_not [simp]: "lane_cond (\<not> neg) v \<longleftrightarrow> \<not> lane_cond neg v"
  by (auto simp: lane_cond_def)

lemma mcount_many_le: "strict_submask a b \<Longrightarrow> many a \<Longrightarrow> 2 \<le> mcount b"
  using strict_submask_mcount [of a b] mcount_0_iff [of a] by linarith

subsection \<open>The reconvergence stack\<close>

text \<open>Each mask on the stack strictly contains the one above it, the topmost the current mask.\<close>

fun nested :: "bool list \<Rightarrow> ipdom_entry_t list \<Rightarrow> bool" where
  "nested tm [] \<longleftrightarrow> True"
| "nested tm (e # es) \<longleftrightarrow> strict_submask tm (orig_tmask e) \<and> nested (orig_tmask e) es"

definition div_ok :: "nat \<Rightarrow> warp_t \<Rightarrow> bool" where
  "div_ok nt w \<longleftrightarrow> length (tmask w) = nt \<and> many (tmask w) \<and> nested (tmask w) (ipdom_stack w)"

lemma nested_depth: "nested tm es \<Longrightarrow> mcount tm + length es \<le> length tm"
proof (induction es arbitrary: tm)
  case (Cons e es)
  then have "strict_submask tm (orig_tmask e)" "mcount (orig_tmask e) + length es \<le> length (orig_tmask e)" by simp_all
  then show ?case using strict_submask_mcount [of tm "orig_tmask e"] by (simp add: strict_submask_def submask_def)
qed (simp add: mcount_le)

lemma split_halves:
  assumes "length tm = nt" "many (cond_mask nt neg tm rs)" "many (cond_mask nt (\<not> neg) tm rs)"
  shows "strict_submask (cond_mask nt neg tm rs) tm" "strict_submask (cond_mask nt (\<not> neg) tm rs) tm"
  using assms by (auto simp: strict_submask_def submask_def many_nth)

text \<open>The instructions on a warp whose mask stays non-empty: the new mask is set at once.\<close>

definition exec_split :: "vx_cfg \<Rightarrow> bool \<Rightarrow> u64 list \<Rightarrow> u64 \<Rightarrow> warp_t \<Rightarrow> warp_t option" where
  "exec_split c neg rs next_pc w = do {
     (tm, w) \<leftarrow> split_warp (ipdom_size c) (unat (num_threads c)) neg rs next_pc w; Some (w\<lparr>tmask := tm\<rparr>) }"

definition exec_join :: "u64 \<Rightarrow> warp_t \<Rightarrow> warp_t option" where
  "exec_join sp w = do { (tm, w) \<leftarrow> join_warp sp w; Some (w\<lparr>tmask := tm\<rparr>) }"

definition diverges :: "vx_cfg \<Rightarrow> bool \<Rightarrow> u64 list \<Rightarrow> warp_t \<Rightarrow> bool" where
  "diverges c neg rs w \<longleftrightarrow> many (cond_mask (unat (num_threads c)) neg (tmask w) rs) \<and>
     many (cond_mask (unat (num_threads c)) (\<not> neg) (tmask w) rs)"

text \<open>The half of the threads that runs first: the smaller one.\<close>

definition first_half :: "vx_cfg \<Rightarrow> bool \<Rightarrow> u64 list \<Rightarrow> bool list \<Rightarrow> bool list" where
  "first_half c neg rs tm = (let a = cond_mask (unat (num_threads c)) neg tm rs; b = cond_mask (unat (num_threads c)) (\<not> neg) tm rs
     in if mcount a \<le> mcount b then a else b)"

lemma ipdom_size_pos: "0 < unat (num_threads c) \<Longrightarrow> unat (ipdom_size c) = unat (num_threads c) - 1"
  using unat_minus_one [of "num_threads c"] by (cases "num_threads c = 0") (simp_all add: ipdom_size_def)

lemma exec_split_diverges:
  assumes w: "div_ok (unat (num_threads c)) w" and d: "diverges c neg rs w"
  defines "h \<equiv> first_half c neg rs (tmask w)"
  shows "exec_split c neg rs pc w = Some (w\<lparr>ipdom_stack := ipdom_entry_new (tmask w) pc # ipdom_stack w, tmask := h\<rparr>)"
    "strict_submask h (tmask w)" "many h"
    "div_ok (unat (num_threads c)) (w\<lparr>ipdom_stack := ipdom_entry_new (tmask w) pc # ipdom_stack w, tmask := h\<rparr>)"
proof -
  let ?nt = "unat (num_threads c)"
  have l: "length (tmask w) = ?nt" using w by (simp add: div_ok_def)
  note s = split_halves [OF l] d [unfolded diverges_def]
  show h: "strict_submask h (tmask w)" "many h"
    using s by (auto simp: h_def first_half_def Let_def)
  have "2 \<le> mcount (tmask w)" by (rule mcount_many_le [OF h])
  moreover have "mcount (tmask w) + length (ipdom_stack w) \<le> ?nt" using w nested_depth [of "tmask w" "ipdom_stack w"] by (simp add: div_ok_def)
  ultimately have "length (ipdom_stack w) \<noteq> unat (ipdom_size c)" using ipdom_size_pos [of c] by linarith
  then show "exec_split c neg rs pc w = Some (w\<lparr>ipdom_stack := ipdom_entry_new (tmask w) pc # ipdom_stack w, tmask := h\<rparr>)"
    using d by (simp add: exec_split_def split_warp_def Let_def diverges_def h_def first_half_def)
  show "div_ok ?nt (w\<lparr>ipdom_stack := ipdom_entry_new (tmask w) pc # ipdom_stack w, tmask := h\<rparr>)"
    using w h by (simp add: div_ok_def ipdom_entry_new_def strict_submask_def submask_def)
qed

lemma exec_split_uniform:
  "\<not> diverges c neg rs w \<Longrightarrow> exec_split c neg rs pc w = Some w"
  unfolding exec_split_def split_warp_def diverges_def Let_def by (simp only: if_False) simp

lemma exec_join_cases:
  assumes w: "div_ok nt w" and s: "ipdom_stack w = e # es" "sp \<noteq> of_nat (length (ipdom_stack w))"
  shows "fallthrough e \<Longrightarrow> exec_join sp w = Some (w\<lparr>ipdom_stack := es, tmask := orig_tmask e\<rparr>) \<and>
      div_ok nt (w\<lparr>ipdom_stack := es, tmask := orig_tmask e\<rparr>)"
    "\<not> fallthrough e \<Longrightarrow> exec_join sp w = Some (w\<lparr>wPC := else_PC e, ipdom_stack := e\<lparr>fallthrough := True\<rparr> # es,
        tmask := mand (mnot (tmask w)) (orig_tmask e)\<rparr>) \<and>
      div_ok nt (w\<lparr>wPC := else_PC e, ipdom_stack := e\<lparr>fallthrough := True\<rparr> # es, tmask := mand (mnot (tmask w)) (orig_tmask e)\<rparr>)"
proof -
  have n: "length (tmask w) = nt" "length (orig_tmask e) = nt" "strict_submask (tmask w) (orig_tmask e)" "nested (orig_tmask e) es"
    using w s(1) by (simp_all add: div_ok_def strict_submask_def submask_def)
  assume "fallthrough e"
  moreover have "many (orig_tmask e)" using n(3) by (auto simp: strict_submask_def many_nth)
  ultimately show "exec_join sp w = Some (w\<lparr>ipdom_stack := es, tmask := orig_tmask e\<rparr>) \<and>
      div_ok nt (w\<lparr>ipdom_stack := es, tmask := orig_tmask e\<rparr>)"
    using s n by (simp add: exec_join_def join_warp_def div_ok_def)
next
  have n: "length (tmask w) = nt" "length (orig_tmask e) = nt" "strict_submask (tmask w) (orig_tmask e)" "nested (orig_tmask e) es"
    "many (tmask w)" using w s(1) by (simp_all add: div_ok_def strict_submask_def submask_def)
  assume "\<not> fallthrough e"
  moreover have "strict_submask (mand (mnot (tmask w)) (orig_tmask e)) (orig_tmask e)"
    using n by (fastforce simp: strict_submask_def submask_def nth_mand many_nth)
  moreover have "many (mand (mnot (tmask w)) (orig_tmask e))"
    using n by (fastforce simp: strict_submask_def submask_def nth_mand many_nth)
  ultimately show "exec_join sp w = Some (w\<lparr>wPC := else_PC e, ipdom_stack := e\<lparr>fallthrough := True\<rparr> # es,
        tmask := mand (mnot (tmask w)) (orig_tmask e)\<rparr>) \<and>
      div_ok nt (w\<lparr>wPC := else_PC e, ipdom_stack := e\<lparr>fallthrough := True\<rparr> # es, tmask := mand (mnot (tmask w)) (orig_tmask e)\<rparr>)"
    using s n by (simp add: exec_join_def join_warp_def div_ok_def)
qed

subsection \<open>Structured divergence\<close>

text \<open>
  The execution of a region of a kernel by one warp: instructions that leave the mask and the stack
  alone, sequences, and an \<open>if\<close>, compiled to \<open>SPLIT\<close> and \<open>JOIN\<close>. The operand of \<open>JOIN\<close> is the depth
  that \<open>SPLIT\<close> returned. When the threads diverge, \<open>JOIN\<close> is reached once by each half.
\<close>

inductive runs :: "vx_cfg \<Rightarrow> warp_t \<Rightarrow> warp_t \<Rightarrow> bool" for c where
  other: "tmask w' = tmask w \<Longrightarrow> ipdom_stack w' = ipdom_stack w \<Longrightarrow> runs c w w'"
| seq: "runs c w w1 \<Longrightarrow> runs c w1 w2 \<Longrightarrow> runs c w w2"
| uniform: "\<not> diverges c neg rs w \<Longrightarrow> exec_split c neg rs pc w = Some w1 \<Longrightarrow> runs c w1 w2 \<Longrightarrow>
    exec_join (of_nat (length (ipdom_stack w))) w2 = Some w3 \<Longrightarrow> runs c w w3"
| divergent: "diverges c neg rs w \<Longrightarrow> exec_split c neg rs pc w = Some w1 \<Longrightarrow> runs c w1 w2 \<Longrightarrow>
    exec_join (of_nat (length (ipdom_stack w))) w2 = Some w3 \<Longrightarrow> runs c w3 w4 \<Longrightarrow>
    exec_join (of_nat (length (ipdom_stack w))) w4 = Some w5 \<Longrightarrow> runs c w w5"

lemma div_ok_cong: "tmask w' = tmask w \<Longrightarrow> ipdom_stack w' = ipdom_stack w \<Longrightarrow> div_ok nt w' = div_ok nt w"
  by (simp add: div_ok_def)

text \<open>The first \<open>JOIN\<close> of a divergent \<open>if\<close> turns to the other threads, the second restores the mask.\<close>

lemma first_join:
  assumes w: "div_ok (unat (num_threads c)) w" and d: "diverges c neg rs w"
    and w2: "tmask w2 = first_half c neg rs (tmask w)" "ipdom_stack w2 = ipdom_entry_new (tmask w) pc # ipdom_stack w"
  defines "w3 \<equiv> w2\<lparr>wPC := pc, ipdom_stack := (ipdom_entry_new (tmask w) pc)\<lparr>fallthrough := True\<rparr> # ipdom_stack w,
    tmask := mand (mnot (tmask w2)) (tmask w)\<rparr>"
  shows "exec_join (of_nat (length (ipdom_stack w))) w2 = Some w3" "div_ok (unat (num_threads c)) w3"
proof -
  have "div_ok (unat (num_threads c)) w2" using exec_split_diverges(4) [OF w d, of pc] w2 by (simp add: div_ok_def)
  from exec_join_cases(2) [OF this w2(2), of "of_nat (length (ipdom_stack w))"] w2 show "exec_join (of_nat (length (ipdom_stack w))) w2 = Some w3"
    "div_ok (unat (num_threads c)) w3" by (simp_all add: w3_def ipdom_entry_new_def)
qed

lemma second_join:
  assumes w: "div_ok (unat (num_threads c)) w4"
    and w4: "ipdom_stack w4 = (ipdom_entry_new tm pc)\<lparr>fallthrough := True\<rparr> # es"
  defines "w5 \<equiv> w4\<lparr>ipdom_stack := es, tmask := tm\<rparr>"
  shows "exec_join (of_nat (length es)) w4 = Some w5" "div_ok (unat (num_threads c)) w5"
  using exec_join_cases(1) [OF w w4, of "of_nat (length es)"] w4 by (simp_all add: w5_def ipdom_entry_new_def)

lemma runs_reconverge:
  assumes "runs c w w'" "div_ok (unat (num_threads c)) w"
  shows "tmask w' = tmask w \<and> ipdom_stack w' = ipdom_stack w"
  using assms
proof induction
  case (seq w w1 w2)
  then have "div_ok (unat (num_threads c)) w1" using div_ok_cong [of w1 w] by simp
  with seq show ?case by simp
next
  case (uniform neg rs w pc w1 w2 w3)
  then have "w1 = w" using exec_split_uniform by simp
  with uniform show ?case by (auto simp: exec_join_def join_warp_def)
next
  case (divergent neg rs w pc w1 w2 w3 w4 w5)
  note w = \<open>div_ok (unat (num_threads c)) w\<close>
  note s = exec_split_diverges(1,4) [OF w \<open>diverges c neg rs w\<close>, of pc]
  have w1: "w1 = w\<lparr>ipdom_stack := ipdom_entry_new (tmask w) pc # ipdom_stack w, tmask := first_half c neg rs (tmask w)\<rparr>"
    using s(1) divergent.hyps(2) by simp
  have w2: "tmask w2 = first_half c neg rs (tmask w)" "ipdom_stack w2 = ipdom_entry_new (tmask w) pc # ipdom_stack w"
    using divergent.IH(1) s(2) by (simp_all add: w1)
  note j = first_join [OF w \<open>diverges c neg rs w\<close> w2]
  have w3: "w3 = w2\<lparr>wPC := pc, ipdom_stack := (ipdom_entry_new (tmask w) pc)\<lparr>fallthrough := True\<rparr> # ipdom_stack w,
    tmask := mand (mnot (tmask w2)) (tmask w)\<rparr>" using j(1) divergent.hyps(4) by simp
  have w4: "ipdom_stack w4 = (ipdom_entry_new (tmask w) pc)\<lparr>fallthrough := True\<rparr> # ipdom_stack w" "tmask w4 = tmask w3"
    using divergent.IH(2) j(2) by (simp_all add: w3)
  then have "div_ok (unat (num_threads c)) w4" using j(2) by (simp add: w3 div_ok_def)
  from second_join [OF this w4(1)] divergent.hyps(6) show ?case by auto
qed simp_all

text \<open>The states of a warp that diverges, reconverges and masks threads off or on again within its region.\<close>

inductive div_reach :: "vx_cfg \<Rightarrow> warp_t \<Rightarrow> bool" for c where
  start: "ipdom_stack w = [] \<Longrightarrow> length (tmask w) = unat (num_threads c) \<Longrightarrow> many (tmask w) \<Longrightarrow> div_reach c w"
| split: "div_reach c w \<Longrightarrow> exec_split c neg rs pc w = Some w' \<Longrightarrow> div_reach c w'"
| join: "div_reach c w \<Longrightarrow> exec_join sp w = Some w' \<Longrightarrow> div_reach c w'"
| pred: "div_reach c w \<Longrightarrow> length m = unat (num_threads c) \<Longrightarrow> many m \<Longrightarrow>
    (case ipdom_stack w of [] \<Rightarrow> True | e # _ \<Rightarrow> strict_submask m (orig_tmask e)) \<Longrightarrow> div_reach c (w\<lparr>tmask := m\<rparr>)"
| other: "div_reach c w \<Longrightarrow> tmask w' = tmask w \<Longrightarrow> ipdom_stack w' = ipdom_stack w \<Longrightarrow> div_reach c w'"

lemma exec_join_ok:
  assumes w: "div_ok nt w" and j: "exec_join sp w = Some w'"
  shows "div_ok nt w'"
proof (cases "sp = of_nat (length (ipdom_stack w))")
  case True
  with j w show ?thesis by (auto simp: exec_join_def join_warp_def div_ok_def)
next
  case False
  with j obtain e es where s: "ipdom_stack w = e # es" by (cases "ipdom_stack w") (auto simp: exec_join_def join_warp_def)
  show ?thesis using exec_join_cases [OF w s False] j by (cases "fallthrough e") auto
qed

lemma div_reach_ok: "div_reach c w \<Longrightarrow> div_ok (unat (num_threads c)) w"
proof (induction rule: div_reach.induct)
  case (split w neg rs pc w')
  then show ?case using exec_split_diverges(1,4) [of c w neg rs pc] exec_split_uniform [of c neg rs w pc] by (cases "diverges c neg rs w") auto
next
  case (join w sp w')
  then show ?case using exec_join_ok by blast
next
  case (pred w m)
  then show ?case by (cases "ipdom_stack w") (auto simp: div_ok_def)
next
  case (other w w')
  then show ?case using div_ok_cong [of w' w] by simp
qed (simp add: div_ok_def)

subsection \<open>The instructions on the state of the device\<close>

definition with_warp :: "core_t \<Rightarrow> nat \<Rightarrow> warp_t \<Rightarrow> core_t" where
  "with_warp C wid x = C\<lparr>core_sched := (core_sched C)\<lparr>warps := (warps (core_sched C))[wid := x]\<rparr>\<rparr>"

lemma with_warp_simps [simp]:
  "core_bars (with_warp C wid x) = core_bars C" "with_warp (with_warp C wid x) wid y = with_warp C wid y"
  "warps (core_sched (with_warp C wid x)) = (warps (core_sched C))[wid := x]"
  by (simp_all add: with_warp_def)

lemma may_wait_with_warp [simp]: "may_wait c (with_warp C wid x) v = may_wait c C v"
  by (simp add: may_wait_def parked_def waits_at_def with_warp_def)

lemma with_warp_inv:
  assumes i: "core_inv c C" "wid < unat (num_warps c)"
    and x: "length (tmask x) = unat (num_threads c)" "length (mscratch_tmask x) = unat (num_threads c)" "many (tmask x)"
  shows "core_inv c (with_warp C wid x)"
  unfolding with_warp_def
proof (rule core_inv_sched [OF i(1)])
  show "sched_inv c ((core_sched C)\<lparr>warps := (warps (core_sched C))[wid := x]\<rparr>)"
    using x by (intro sched_inv_warp [OF core_invD(1) [OF i(1)] i(2)]) simp_all
qed (use core_invD(3) [OF i(1)] in \<open>simp add: parked_def\<close>)

text \<open>A warp that executes an instruction.\<close>

lemma executing:
  assumes i: "core_inv c C" and w: "wid < unat (num_warps c)" "active_warps (core_sched C) ! wid"
  shows "wid < length (warps (core_sched C))" "many (tmask (warps (core_sched C) ! wid))"
    "length (tmask (warps (core_sched C) ! wid)) = unat (num_threads c)"
    "length (mscratch_tmask (warps (core_sched C) ! wid)) = unat (num_threads c)" "wid < MAX_NUM_WARPS"
  using sched_inv_lengths(1,10) [OF core_invD(1) [OF i] w(1)] sched_inv_tmask [OF core_invD(1) [OF i] w(1)] w(2) by simp_all

lemma may_wait_executes: "may_wait c C wid \<Longrightarrow> wid < unat (num_warps c) \<and> active_warps (core_sched C) ! wid"
  by (simp add: may_wait_def parked_def)

lemma last_arg_Some:
  assumes "many tm" "length tm = nt" "length rs = nt"
  shows "\<exists>v. last_arg nt tm rs = Some v"
proof -
  obtain t where "t < nt" "tm ! t" using assms(1,2) by (auto simp: many_nth)
  then have "thread_last nt tm \<noteq> None" by (auto simp: thread_last_def find_None_iff)
  then obtain u where u: "thread_last nt tm = Some u" by auto
  then have "u < nt" by (auto simp: thread_last_def find_Some_iff rev_nth)
  then show ?thesis using u assms(3) by (simp add: last_arg_def)
qed

lemma core_setTmask_spec:
  assumes p: "proc_inv c P" "cid < length (proc_cores P)" and i: "core_inv c C" "length (core_bars C) = length (core_bars (proc_cores P ! cid))"
    and w: "may_wait c C wid" and tm: "length tm = unat (num_threads c)"
  shows "many tm \<Longrightarrow> core_setTmask c P cid C wid tm =
      Some (True, P\<lparr>proc_cores := (proc_cores P)[cid := with_warp C wid ((warps (core_sched C) ! wid)\<lparr>tmask := tm\<rparr>)]\<rparr>)"
    "\<exists>r P'. core_setTmask c P cid C wid tm = Some (r, P') \<and> proc_inv c P' \<and> (r \<longrightarrow> may_wait c (proc_cores P' ! cid) wid)"
proof -
  note x = may_wait_executes [OF w, THEN conjunct1] may_wait_executes [OF w, THEN conjunct2]
  note e = x(1) executing [OF i(1) x] and s = core_invD(1) [OF i(1)]
  let ?D = "with_warp C wid ((warps (core_sched C) ! wid)\<lparr>tmask := tm\<rparr>)"
  have m: "core_setTmask c P cid C wid tm = Some (True, P\<lparr>proc_cores := (proc_cores P)[cid := ?D]\<rparr>)" if "many tm"
    using setTmask_run(1) [OF s e(1) tm that] p(2) by (simp add: core_setTmask_def put_core_def with_warp_def)
  then show "many tm \<Longrightarrow> core_setTmask c P cid C wid tm = Some (True, P\<lparr>proc_cores := (proc_cores P)[cid := ?D]\<rparr>)" .
  show "\<exists>r P'. core_setTmask c P cid C wid tm = Some (r, P') \<and> proc_inv c P' \<and> (r \<longrightarrow> may_wait c (proc_cores P' ! cid) wid)"
  proof (cases "many tm")
    case True
    have "core_inv c ?D" using True tm e by (intro with_warp_inv [OF i(1) e(1)]) simp_all
    from m [OF True] proc_inv_put(2) [OF p this] i(2) w p(2) show ?thesis by auto
  next
    case False
    have a: "sched_allowed c (core_sched C) (SetTmask wid tm)" using w tm by (simp add: may_wait_def parked_def)
    have l: "\<forall>i < length (core_bars C). \<forall>v. waits_at C i v \<longrightarrow> leaves_asleep v (SetTmask wid tm)"
      using w by (auto simp: may_wait_def)
    have k: "kmu_ok c kmu_new" by (simp add: kmu_ok_def kmu_new_def)
    obtain S k' where x: "sched_exec c 0 (SetTmask wid tm) (core_sched C, kmu_new) = Some (S, k')" "core_inv c (C\<lparr>core_sched := S\<rparr>)"
      using sched_op_inv [OF i(1) k a l] by blast
    then obtain r where r: "setTmask c (core_sched C) wid tm = Some (r, S)" by auto
    have "r = False" using r False by (auto simp: setTmask_def Let_def bind_eq_Some_conv)
    then show ?thesis using r proc_inv_put [OF p x(2)] i(2) by (auto simp: core_setTmask_def)
  qed
qed

lemma put_warp_with: "wid < length (warps (core_sched C)) \<Longrightarrow> wctl_put_warp C wid x = Some (with_warp C wid x)"
  by (simp add: wctl_put_warp_def with_warp_def)

text \<open>\<open>SPLIT\<close> and \<open>JOIN\<close> change the warp that executes them as \<open>exec_split\<close> and \<open>exec_join\<close> say.\<close>

lemma exec_split_pushed:
  assumes "div_ok (unat (num_threads c)) w" "split_warp (ipdom_size c) (unat (num_threads c)) neg rs pc w = Some (tm, w')"
  shows "exec_split c neg rs pc w = Some (w'\<lparr>tmask := tm\<rparr>)" "tmask w' = tmask w" "mscratch_tmask w' = mscratch_tmask w"
    "div_ok (unat (num_threads c)) (w'\<lparr>tmask := tm\<rparr>)"
proof -
  show e: "exec_split c neg rs pc w = Some (w'\<lparr>tmask := tm\<rparr>)" using assms(2) by (simp add: exec_split_def)
  show "tmask w' = tmask w" "mscratch_tmask w' = mscratch_tmask w"
    using assms(2) by (auto simp: split_warp_def Let_def bind_eq_Some_conv split: if_splits)
  show "div_ok (unat (num_threads c)) (w'\<lparr>tmask := tm\<rparr>)"
    using e exec_split_diverges(1,4) [OF assms(1), of neg rs pc] exec_split_uniform [of c neg rs w pc] assms(1)
    by (cases "diverges c neg rs w") auto
qed

lemma exec_join_popped:
  assumes "div_ok nt w" "join_warp sp w = Some (tm, w')"
  shows "exec_join sp w = Some (w'\<lparr>tmask := tm\<rparr>)" "tmask w' = tmask w" "mscratch_tmask w' = mscratch_tmask w"
    "div_ok nt (w'\<lparr>tmask := tm\<rparr>)"
proof -
  show e: "exec_join sp w = Some (w'\<lparr>tmask := tm\<rparr>)" using assms(2) by (simp add: exec_join_def)
  show "tmask w' = tmask w" "mscratch_tmask w' = mscratch_tmask w"
    using assms(2) by (auto simp: join_warp_def split: if_splits list.splits)
  show "div_ok nt (w'\<lparr>tmask := tm\<rparr>)" by (rule exec_join_ok [OF assms(1) e])
qed

text \<open>The warp gets a new stack and then a new mask.\<close>

lemma change_warp:
  assumes p: "proc_inv c P" "cid < length (proc_cores P)" and w: "may_wait c (proc_cores P ! cid) wid"
    and x: "tmask x = tmask (warps (core_sched (proc_cores P ! cid)) ! wid)"
      "mscratch_tmask x = mscratch_tmask (warps (core_sched (proc_cores P ! cid)) ! wid)"
      "div_ok (unat (num_threads c)) (x\<lparr>tmask := tm\<rparr>)"
  defines "P' \<equiv> P\<lparr>proc_cores := (proc_cores P)[cid := with_warp (proc_cores P ! cid) wid (x\<lparr>tmask := tm\<rparr>)]\<rparr>"
  shows "do { C \<leftarrow> wctl_put_warp (proc_cores P ! cid) wid x; core_setTmask c P cid C wid tm } = Some (True, P')" "proc_inv c P'"
    "may_wait c (proc_cores P' ! cid) wid"
proof -
  let ?C = "proc_cores P ! cid"
  note y = may_wait_executes [OF w, THEN conjunct1] may_wait_executes [OF w, THEN conjunct2]
  note I = proc_invD(3) [OF p] and e = y(1) executing [OF proc_invD(3) [OF p] y]
  have t: "length tm = unat (num_threads c)" "many tm" using x(3) by (simp_all add: div_ok_def)
  have D: "core_inv c (with_warp ?C wid x)" using x e by (intro with_warp_inv [OF I e(1)]) simp_all
  show "do { C \<leftarrow> wctl_put_warp ?C wid x; core_setTmask c P cid C wid tm } = Some (True, P')"
    using core_setTmask_spec(1) [OF p D _ _ t] w e(2) by (simp add: put_warp_with P'_def)
  have "core_inv c (with_warp ?C wid (x\<lparr>tmask := tm\<rparr>))" using x e t by (intro with_warp_inv [OF I e(1)]) simp_all
  then show "proc_inv c P'" unfolding P'_def by (rule proc_inv_put(2) [OF p]) simp
  show "may_wait c (proc_cores P' ! cid) wid" using w p(2) by (simp add: P'_def)
qed

text \<open>A warp that arrives without suspending is still there to be resumed by the pipeline.\<close>

lemma may_wait_set_bar:
  assumes "may_wait c C w" "i < length (core_bars C)" "wait_mask b = wait_mask (core_bars C ! i) \<or> (\<forall>v < MAX_NUM_WARPS. \<not> wait_mask b ! v)"
  shows "may_wait c (set_bar C i b) w"
proof -
  have "\<not> waits_at (set_bar C i b) j w" if "j < length (core_bars C)" for j
    using assms that by (cases "j = i") (auto simp: may_wait_def waits_at_def)
  then show ?thesis using assms(1) by (simp add: may_wait_def)
qed

lemma may_wait_unstall:
  assumes "may_wait c C w" "w < MAX_NUM_WARPS" "W \<subseteq> waiters C i" "i < length (core_bars C)"
  shows "may_wait c (C\<lparr>core_sched := unstall W (core_sched C)\<rparr>) w"
proof -
  have "w \<notin> W" using assms by (auto simp: may_wait_def waiters_def)
  with assms(1,2) show ?thesis by (simp add: may_wait_def parked_def waits_at_def)
qed

lemma may_wait_released:
  assumes "core_inv c C" "may_wait c C w" "i < length (core_bars C)"
  shows "may_wait c (released C i) w"
proof -
  have l: "w < MAX_NUM_WARPS" by (rule may_wait_less [OF assms(1,2)])
  let ?b = "(core_bars C ! i)\<lparr>wait_mask := replicate MAX_NUM_WARPS False, bar_phase := bar_phase (core_bars C ! i) + 1\<rparr>"
  have "may_wait c (C\<lparr>core_sched := unstall (waiters C i) (core_sched C)\<rparr>) w" by (rule may_wait_unstall [OF assms(2) l order_refl assms(3)])
  then have "may_wait c (set_bar (C\<lparr>core_sched := unstall (waiters C i) (core_sched C)\<rparr>) i ?b) w"
    using assms(3) by (intro may_wait_set_bar) simp_all
  then show ?thesis by (simp add: released_def)
qed

lemma arrive_local_async:
  assumes i: "core_inv c C" "unat i < length (core_bars C)" and w: "may_wait c C w" and n: "n \<noteq> 0"
  shows "\<exists>C'. arrive_local c C i n w False = Some C' \<and> core_inv c C' \<and> length (core_bars C') = length (core_bars C) \<and> may_wait c C' w"
proof -
  let ?b = "core_bars C ! unat i"
  have l: "False \<longrightarrow> may_wait c C w" "w < MAX_NUM_WARPS" using may_wait_less [OF i(1) w] by simp_all
  show ?thesis
  proof (cases "bar_count ?b + 1 = n \<and> bar_events ?b = 0")
    case True
    have "may_wait c (C\<lparr>core_sched := unstall (waiters C (unat i)) (core_sched C)\<rparr>) w" by (rule may_wait_unstall [OF w l(2) order_refl i(2)])
    then have "may_wait c (set_bar (C\<lparr>core_sched := unstall (waiters C (unat i)) (core_sched C)\<rparr>) (unat i)
        (?b\<lparr>wait_mask := replicate MAX_NUM_WARPS False, bar_phase := bar_phase ?b + 1, bar_count := 0\<rparr>)) w"
      using i(2) by (intro may_wait_set_bar) simp_all
    with arrive_local_releases [OF i l n True] show ?thesis by simp
  next
    case False
    have "may_wait c (set_bar C (unat i) (?b\<lparr>wait_mask := add_waiter False w (wait_mask ?b), bar_count := (bar_count ?b + 1) mod n\<rparr>)) w"
      using i(2) by (intro may_wait_set_bar [OF w]) (simp_all add: add_waiter_def)
    with arrive_local_waits [OF i l n False] show ?thesis by simp
  qed
qed

lemma arrive_global_async:
  assumes p: "proc_inv c P" "cid < length (proc_cores P)" and b: "bar_pos bar_id < unat (num_warps c * num_barriers c)"
    and w: "may_wait c (proc_cores P ! cid) w"
  shows "\<exists>P'. arrive_global c P cid bar_id n w False = Some P' \<and> proc_inv c P' \<and> may_wait c (proc_cores P' ! cid) w"
proof -
  let ?C = "proc_cores P ! cid" and ?i = "bar_pos bar_id"
  let ?N = "note_arrival ?C ?i n w False"
  let ?P = "P\<lparr>proc_cores := (proc_cores P)[cid := ?N]\<rparr>"
  note I = proc_invD(3,4) [OF p]
  have k: "?i < length (core_bars ?C)" using I(2) b by simp
  have l: "False \<longrightarrow> may_wait c ?C w" "w < MAX_NUM_WARPS" using may_wait_less [OF I(1) w] by simp_all
  have N: "may_wait c ?N w" "?i < length (core_bars ?N)" "core_inv c ?N"
    using k note_arrival_inv(1) [OF I(1) k l] unfolding note_arrival_def
    by (auto intro: may_wait_set_bar [OF w] simp: add_waiter_def)
  note a = arrive_global_pending [OF p b l, of n]
  have c: "cid < length (proc_cores ?P)" using p(2) by simp
  let ?Q = "if mcount (arrived_cores ?P bar_id cid) = unat n then gbar_done ?P bar_id cid else gbar_pending ?P bar_id cid"
  have Q: "may_wait c (proc_cores ?Q ! cid) w" "?i < length (core_bars (proc_cores ?Q ! cid))"
    using N may_wait_released [OF N(3,1,2)] p(2) by (simp_all add: gbar_done_def gbar_pending_def)
  have "length (proc_cores ?Q) = length (proc_cores ?P)" by simp
  note r = report_core_spec [OF a(1) c b global_barrier_arrive_spec [OF a(1) c b] this]
  have "may_wait c (clear_arrivals (proc_cores ?Q ! cid) ?i) w"
    unfolding clear_arrivals_def using Q by (intro may_wait_set_bar) simp_all
  then have "\<exists>P'. report_core c ?P cid bar_id n = Some P' \<and> proc_inv c P' \<and> may_wait c (proc_cores P' ! cid) w"
    using r p(2) by simp
  moreover have "may_wait c (proc_cores ?P ! cid) w" using N(1) p(2) by simp
  ultimately show ?thesis unfolding a(2) using a(1) by (simp split: if_split)
qed

lemma arrive_async:
  assumes p: "proc_inv c P" "cid < length (proc_cores P)" and b: "bar_pos bar_id < unat (num_warps c * num_barriers c)"
    and w: "may_wait c (proc_cores P ! cid) w" and n: "n \<noteq> 0"
  shows "\<exists>P'. arrive c P cid bar_id n w False = Some P' \<and> proc_inv c P' \<and> may_wait c (proc_cores P' ! cid) w"
proof (cases "is_global bar_id")
  case True
  with arrive_global_async [OF p b w] show ?thesis by (simp add: arrive_def)
next
  case False
  note I = proc_invD(3,4) [OF p]
  have k: "bar_pos bar_id < length (core_bars (proc_cores P ! cid))" using I(2) b by simp
  obtain C' where C: "arrive_local c (proc_cores P ! cid) (bar_index bar_id) n w False = Some C'" "core_inv c C'"
    "length (core_bars C') = length (core_bars (proc_cores P ! cid))" "may_wait c C' w"
    using arrive_local_async [OF I(1) k w n] by blast
  from proc_inv_put [OF p C(2,3)] C p(2) False show ?thesis by (simp add: arrive_def)
qed

subsection \<open>Every instruction keeps the invariants\<close>

text \<open>
  When a warp executes an instruction: it is active, its operands have one value per thread, and an
  instruction that stalls the fetch, as all of them do but an arrival that does not suspend, has
  stalled the warp, which waits nowhere. A thread mask is set from an \<open>int\<close>, of 32 bits. Only warp 0 spawns, \<open>JOIN\<close> with an
  empty stack has the depth 0 as its operand, and a barrier exists and has a non-zero count.
\<close>

definition bar_operands_ok :: "vx_cfg \<Rightarrow> warp_t \<Rightarrow> wctl_trace \<Rightarrow> bool" where
  "bar_operands_ok c w tr \<longleftrightarrow> (\<forall>v1 v2. last_arg (unat (num_threads c)) (tmask w) (wt_rs1 tr) = Some v1 \<longrightarrow>
     last_arg (unat (num_threads c)) (tmask w) (wt_rs2 tr) = Some v2 \<longrightarrow>
     bar_pos (bar_decode_id (ucast v1) (num_barriers c)) < unat (num_warps c * num_barriers c) \<and>
     (wt_wb tr \<or> is_sync_bar (wctl_args tr) \<longrightarrow> (ucast v2 :: u32) \<noteq> 0))"

definition wctl_allowed :: "vx_cfg \<Rightarrow> proc_t \<Rightarrow> nat \<Rightarrow> wctl_trace \<Rightarrow> bool" where
  "wctl_allowed c P cid tr \<longleftrightarrow> cid < length (proc_cores P) \<and> wt_wid tr < unat (num_warps c) \<and>
     active_warps (core_sched (proc_cores P ! cid)) ! wt_wid tr \<and>
     (wt_fetch_stall tr \<or> wctl_type tr = BAR \<and> \<not> is_sync_bar (wctl_args tr) \<and> wt_wb tr) \<and>
     (wt_fetch_stall tr \<longrightarrow> may_wait c (proc_cores P ! cid) (wt_wid tr)) \<and>
     length (wt_rs1 tr) = unat (num_threads c) \<and> length (wt_rs2 tr) = unat (num_threads c) \<and>
     (let w = warps (core_sched (proc_cores P ! cid)) ! wt_wid tr in
      case wctl_type tr of
        TMC \<Rightarrow> unat (num_threads c) \<le> 32
      | WSPAWN \<Rightarrow> wt_wid tr = 0
      | SPLIT \<Rightarrow> div_ok (unat (num_threads c)) w
      | JOIN \<Rightarrow> div_ok (unat (num_threads c)) w \<and>
          (ipdom_stack w = [] \<longrightarrow> last_arg (unat (num_threads c)) (tmask w) (wt_rs1 tr) = Some 0)
      | BAR \<Rightarrow> bar_operands_ok c w tr
      | PRED \<Rightarrow> True
      | WSYNC \<Rightarrow> True)"

lemma tmc_bits_Some: "\<forall>t \<in> set ts. t \<le> 31 \<Longrightarrow> \<exists>bs. tmc_bits v ts = Some bs \<and> length bs = length ts"
  by (induction ts) (auto simp: tmc_bit_def)

text \<open>What an instruction guarantees: the invariant, and a released warp that can be resumed.\<close>

definition wctl_ok :: "vx_cfg \<Rightarrow> proc_t \<Rightarrow> nat \<Rightarrow> wctl_trace \<Rightarrow> bool" where
  "wctl_ok c P cid tr \<longleftrightarrow> (\<exists>r dst P'. wctl_process c P cid tr = Some (r, dst, P') \<and> proc_inv c P' \<and>
     (r \<longrightarrow> may_wait c (proc_cores P' ! cid) (wt_wid tr)))"

lemma wctl_bar_ok:
  assumes p: "proc_inv c P" and a: "wctl_allowed c P cid tr" and t: "wctl_type tr = BAR"
  shows "wctl_ok c P cid tr"
proof -
  let ?C = "proc_cores P ! cid"
  let ?w = "warps (core_sched ?C) ! wt_wid tr"
  let ?nt = "unat (num_threads c)"
  from a t have c: "cid < length (proc_cores P)" and x: "wt_wid tr < unat (num_warps c)" "active_warps (core_sched ?C) ! wt_wid tr"
    and w: "wt_fetch_stall tr \<longrightarrow> may_wait c ?C (wt_wid tr)" and f: "wt_fetch_stall tr \<or> \<not> is_sync_bar (wctl_args tr) \<and> wt_wb tr"
    and rs: "length (wt_rs1 tr) = ?nt" "length (wt_rs2 tr) = ?nt" and o: "bar_operands_ok c ?w tr" by (auto simp: wctl_allowed_def Let_def)
  note I = proc_invD(3,4) [OF p c]
  note e = executing [OF I(1) x]
  obtain v1 v2 where v: "last_arg ?nt (tmask ?w) (wt_rs1 tr) = Some v1" "last_arg ?nt (tmask ?w) (wt_rs2 tr) = Some v2"
    using last_arg_Some [OF e(2,3)] rs by blast
  let ?id = "bar_decode_id (ucast v1) (num_barriers c)"
  have b: "bar_pos ?id < unat (num_warps c * num_barriers c)" and n: "wt_wb tr \<or> is_sync_bar (wctl_args tr) \<longrightarrow> (ucast v2 :: u32) \<noteq> 0"
    using o v by (simp_all add: bar_operands_ok_def)
  have k: "bar_pos ?id < length (core_bars ?C)" using b I(2) by simp
  have q: "wctl_process c P cid tr = process_bar c P cid ?C ?w tr" using c e(1) t by (simp add: wctl_process_def Let_def)
  have ph: "get_phase ?C ?id = Some (bar_phase (core_bars ?C ! bar_pos ?id))" using k by (simp add: get_phase_def)
  have att: "\<exists>C'. event_attach ?C ?id m = Some C' \<and> core_inv c C' \<and> length (core_bars C') = length (core_bars ?C) \<and>
      (wt_fetch_stall tr \<longrightarrow> may_wait c C' (wt_wid tr))" for m
  proof -
    have "wt_fetch_stall tr \<longrightarrow> may_wait c (set_bar ?C (bar_pos ?id) ((core_bars ?C ! bar_pos ?id)\<lparr>bar_events := bar_events (core_bars ?C ! bar_pos ?id) + m\<rparr>)) (wt_wid tr)"
      using k w by (auto intro: may_wait_set_bar)
    with event_attach_inv [OF I(1) k, of m] k show ?thesis by (auto simp: event_attach_def set_bar_def)
  qed
  have put: "put_core P cid C' = Some (P\<lparr>proc_cores := (proc_cores P)[cid := C']\<rparr>) \<and> proc_inv c (P\<lparr>proc_cores := (proc_cores P)[cid := C']\<rparr>)"
    if "core_inv c C'" "length (core_bars C') = length (core_bars ?C)" for C' using proc_inv_put [OF p c that] by simp
  consider "\<not> wt_eop tr" | "wt_eop tr" "is_bar_arrive (wctl_args tr) \<and> bit (ucast v2 :: u32) 31"
    | "wt_eop tr" "\<not> (is_bar_arrive (wctl_args tr) \<and> bit (ucast v2 :: u32) 31)" "is_sync_bar (wctl_args tr)"
    | "wt_eop tr" "\<not> (is_bar_arrive (wctl_args tr) \<and> bit (ucast v2 :: u32) 31)" "\<not> is_sync_bar (wctl_args tr)" "wt_wb tr"
    | "wt_eop tr" "\<not> (is_bar_arrive (wctl_args tr) \<and> bit (ucast v2 :: u32) 31)" "\<not> is_sync_bar (wctl_args tr)" "\<not> wt_wb tr" by blast
  then show ?thesis
  proof cases
    case 1
    then show ?thesis using p w unfolding wctl_ok_def q process_bar_def Let_def v by (simp add: ph)
  next
    case 2
    obtain C' where C: "event_attach ?C ?id (ucast v2 AND 0x7FFFFFFF) = Some C'" "core_inv c C'" "length (core_bars C') = length (core_bars ?C)"
      "wt_fetch_stall tr \<longrightarrow> may_wait c C' (wt_wid tr)" using att by blast
    with put [OF C(2,3)] 2 c show ?thesis unfolding wctl_ok_def q process_bar_def Let_def v by (simp add: ph)
  next
    case 3
    obtain P' where "arrive c P cid ?id (ucast v2) (wt_wid tr) True = Some P'" "proc_inv c P'"
      using arrive_inv [OF p c b, of True "wt_wid tr" "ucast v2"] w f e(5) n 3 by auto
    with 3 show ?thesis unfolding wctl_ok_def q process_bar_def Let_def v by (simp add: ph) blast
  next
    case 4
    have "(ucast v2 :: u32) \<noteq> 0" using n 4 by simp
    then obtain P' where "arrive c P cid ?id (ucast v2) (wt_wid tr) False = Some P'" "proc_inv c P'"
      "wt_fetch_stall tr \<longrightarrow> may_wait c (proc_cores P' ! cid) (wt_wid tr)"
      using arrive_async [OF p c b, of "wt_wid tr" "ucast v2"] arrive_inv [OF p c b, of False "wt_wid tr" "ucast v2"] w e(5) by auto
    with 4 show ?thesis unfolding wctl_ok_def q process_bar_def Let_def v by (simp add: ph)
  next
    case 5
    obtain C' where C: "bar_wait ?C ?id (ucast v2) (wt_wid tr) = Some (bar_phase (core_bars ?C ! bar_pos ?id) = ucast v2, C')" "core_inv c C'"
      "length (core_bars C') = length (core_bars ?C)" using bar_wait_inv [OF I(1) k, of "wt_wid tr" "ucast v2"] w f 5 by blast
    have "bar_phase (core_bars ?C ! bar_pos ?id) \<noteq> ucast v2 \<Longrightarrow> C' = ?C" using C(1) k by (auto simp: bar_wait_def)
    with C put [OF C(2,3)] 5 c w f show ?thesis unfolding wctl_ok_def q process_bar_def Let_def v by (simp add: ph)
  qed
qed

text \<open>The warp that an instruction is executed for, the barrier that it names, and the phase that passes between arrival and wait.\<close>

definition trace_warp :: "proc_t \<Rightarrow> nat \<Rightarrow> wctl_trace \<Rightarrow> warp_t" where
  "trace_warp P cid tr = warps (core_sched (proc_cores P ! cid)) ! wt_wid tr"

definition trace_bar :: "vx_cfg \<Rightarrow> proc_t \<Rightarrow> nat \<Rightarrow> wctl_trace \<Rightarrow> u32 option" where
  "trace_bar c P cid tr = do {
     v \<leftarrow> last_arg (unat (num_threads c)) (tmask (trace_warp P cid tr)) (wt_rs1 tr);
     Some (bar_decode_id (ucast v) (num_barriers c)) }"

lemma wctl_bar_unfold:
  assumes p: "proc_inv c P" and a: "wctl_allowed c P cid tr" and t: "wctl_type tr = BAR" and b: "trace_bar c P cid tr = Some bar_id"
  shows "wctl_process c P cid tr = process_bar c P cid (proc_cores P ! cid) (trace_warp P cid tr) tr"
    "bar_pos bar_id < length (core_bars (proc_cores P ! cid))" "\<exists>t. thread_last (unat (num_threads c)) (tmask (trace_warp P cid tr)) = Some t"
    "\<exists>v. last_arg (unat (num_threads c)) (tmask (trace_warp P cid tr)) (wt_rs1 tr) = Some v \<and> bar_decode_id (ucast v) (num_barriers c) = bar_id"
    "\<exists>v. last_arg (unat (num_threads c)) (tmask (trace_warp P cid tr)) (wt_rs2 tr) = Some v"
proof -
  from a t have c: "cid < length (proc_cores P)" and x: "wt_wid tr < unat (num_warps c)" "active_warps (core_sched (proc_cores P ! cid)) ! wt_wid tr"
    and rs: "length (wt_rs2 tr) = unat (num_threads c)" and o: "bar_operands_ok c (trace_warp P cid tr) tr"
    by (auto simp: wctl_allowed_def Let_def trace_warp_def)
  note I = proc_invD(3,4) [OF p c]
  note e = executing [OF I(1) x, folded trace_warp_def]
  show "wctl_process c P cid tr = process_bar c P cid (proc_cores P ! cid) (trace_warp P cid tr) tr"
    using c e(1) t by (simp add: wctl_process_def Let_def trace_warp_def)
  show v: "\<exists>v. last_arg (unat (num_threads c)) (tmask (trace_warp P cid tr)) (wt_rs1 tr) = Some v \<and> bar_decode_id (ucast v) (num_barriers c) = bar_id"
    using b by (auto simp: trace_bar_def bind_eq_Some_conv)
  show u: "\<exists>v. last_arg (unat (num_threads c)) (tmask (trace_warp P cid tr)) (wt_rs2 tr) = Some v"
    using last_arg_Some [OF e(2,3)] rs by blast
  show "bar_pos bar_id < length (core_bars (proc_cores P ! cid))" using u v o I(2) by (auto simp: bar_operands_ok_def)
  show "\<exists>t. thread_last (unat (num_threads c)) (tmask (trace_warp P cid tr)) = Some t" using u by (auto simp: last_arg_def bind_eq_Some_conv)
qed

lemma bar_arrive_dst:
  assumes p: "proc_inv c P" "wctl_allowed c P cid tr" "wctl_type tr = BAR" "is_bar_arrive (wctl_args tr)" "trace_bar c P cid tr = Some bar_id"
    and r: "wctl_process c P cid tr = Some (r, dst, P')"
  shows "dst = map (\<lambda>t. if t < unat (num_threads c) \<and> tmask (trace_warp P cid tr) ! t
    then ucast (bar_phase (core_bars (proc_cores P ! cid) ! bar_pos bar_id) AND 1) else wt_dst tr ! t) [0 ..< length (wt_dst tr)]"
proof -
  note u = wctl_bar_unfold [OF p(1,2,3,5)]
  have ph: "get_phase (proc_cores P ! cid) bar_id = Some (bar_phase (core_bars (proc_cores P ! cid) ! bar_pos bar_id))"
    using u(2) by (simp add: get_phase_def)
  obtain v1 v2 where v: "last_arg (unat (num_threads c)) (tmask (trace_warp P cid tr)) (wt_rs1 tr) = Some v1"
    "last_arg (unat (num_threads c)) (tmask (trace_warp P cid tr)) (wt_rs2 tr) = Some v2" "bar_decode_id (ucast v1) (num_barriers c) = bar_id"
    using u(4,5) by blast
  show ?thesis using r p(4) unfolding u(1) process_bar_def Let_def v
    by (auto simp: v ph bind_eq_Some_conv split: if_splits)
qed

lemma bar_wait_value:
  fixes x :: u64
  assumes p: "proc_inv c P" "wctl_allowed c P cid tr" "wctl_type tr = BAR" "wt_eop tr"
      "\<not> is_bar_arrive (wctl_args tr)" "\<not> is_sync_bar (wctl_args tr)" "\<not> wt_wb tr" "trace_bar c P cid tr = Some bar_id"
    and x: "\<forall>t < unat (num_threads c). tmask (trace_warp P cid tr) ! t \<longrightarrow> wt_rs2 tr ! t = x"
  shows "\<exists>r P'. wctl_process c P cid tr = Some (r, wt_dst tr, P') \<and>
    (r \<longleftrightarrow> bar_phase (core_bars (proc_cores P ! cid) ! bar_pos bar_id) \<noteq> ucast x) \<and>
    (\<not> r \<longrightarrow> wt_wid tr \<in> waiters (proc_cores P' ! cid) (bar_pos bar_id))"
proof -
  note u = wctl_bar_unfold [OF p(1-3,8)]
  from p have c: "cid < length (proc_cores P)" and w: "may_wait c (proc_cores P ! cid) (wt_wid tr)" by (auto simp: wctl_allowed_def)
  obtain t where t: "thread_last (unat (num_threads c)) (tmask (trace_warp P cid tr)) = Some t" using u(3) by blast
  then have "t < unat (num_threads c)" "tmask (trace_warp P cid tr) ! t" by (auto simp: thread_last_def find_Some_iff rev_nth)
  moreover have "length (wt_rs2 tr) = unat (num_threads c)" using p(2) by (simp add: wctl_allowed_def)
  ultimately have v: "last_arg (unat (num_threads c)) (tmask (trace_warp P cid tr)) (wt_rs2 tr) = Some x" using x t by (simp add: last_arg_def)
  obtain v1 where v1: "last_arg (unat (num_threads c)) (tmask (trace_warp P cid tr)) (wt_rs1 tr) = Some v1"
    "bar_decode_id (ucast v1) (num_barriers c) = bar_id" using u(4) by blast
  show ?thesis using bar_wait_inv [OF proc_invD(3) [OF p(1) c] u(2) w, of "ucast x"] p(4-7) c
    unfolding u(1) process_bar_def Let_def v v1 by (auto simp: v1 put_core_def)
qed

lemma ucast_ucast_u32: "(ucast (ucast (x :: u32) :: u64) :: u32) = x"
  by (rule bit_word_eqI) (simp add: bit_simps)

lemma even_phase: "ph = ph AND 1 \<longleftrightarrow> \<not> 2 \<le> (ph :: u32)"
proof -
  have "unat (ph AND 1) = unat ph mod 2" using unat_take_bit [of 1 ph] by (simp add: take_bit_eq_mask mask_eq_exp_minus_1)
  then show ?thesis unfolding word_unat_eq_iff word_le_nat_alt by simp arith
qed

lemma wctl_split_warp:
  assumes p: "proc_inv c P" and a: "wctl_allowed c P cid tr" and t: "wctl_type tr = SPLIT" "wt_eop tr"
  defines "C \<equiv> proc_cores P ! cid"
  defines "w \<equiv> warps (core_sched C) ! wt_wid tr"
  shows "\<exists>w'. exec_split c (is_cond_neg (wctl_args tr)) (wt_rs1 tr) (wt_PC tr + 4) w = Some w' \<and>
    wctl_process c P cid tr = Some (True,
      fill_from (wctl_thread_start (unat (num_threads c)) (tmask w)) (unat (num_threads c)) (wt_dst tr) (of_nat (length (ipdom_stack w))),
      P\<lparr>proc_cores := (proc_cores P)[cid := with_warp C (wt_wid tr) w']\<rparr>) \<and>
    proc_inv c (P\<lparr>proc_cores := (proc_cores P)[cid := with_warp C (wt_wid tr) w']\<rparr>) \<and> may_wait c (with_warp C (wt_wid tr) w') (wt_wid tr)"
proof -
  let ?nt = "unat (num_threads c)" and ?neg = "is_cond_neg (wctl_args tr)"
  from a t have c: "cid < length (proc_cores P)" and m: "may_wait c C (wt_wid tr)" and rs: "length (wt_rs1 tr) = ?nt" and d: "div_ok ?nt w"
    and x: "wt_wid tr < unat (num_warps c)" "active_warps (core_sched C) ! wt_wid tr"
    by (simp_all add: wctl_allowed_def Let_def C_def w_def)
  note e = executing [OF proc_invD(3) [OF p c, folded C_def] x]
  have "exec_split c ?neg (wt_rs1 tr) (wt_PC tr + 4) w \<noteq> None"
    using exec_split_diverges(1) [OF d, of ?neg "wt_rs1 tr" "wt_PC tr + 4"] exec_split_uniform [of c ?neg "wt_rs1 tr" w "wt_PC tr + 4"]
    by (cases "diverges c ?neg (wt_rs1 tr) w") simp_all
  then obtain tm y where s: "split_warp (ipdom_size c) ?nt ?neg (wt_rs1 tr) (wt_PC tr + 4) w = Some (tm, y)"
    by (auto simp: exec_split_def bind_eq_Some_conv)
  note q = exec_split_pushed [OF d s]
  note h = change_warp [OF p c m [unfolded C_def] q(2) [unfolded w_def C_def] q(3) [unfolded w_def C_def] q(4), folded C_def]
  have "wctl_process c P cid tr = do {
      (r, P) \<leftarrow> do { C \<leftarrow> wctl_put_warp C (wt_wid tr) y; core_setTmask c P cid C (wt_wid tr) tm };
      Some (r, fill_from (wctl_thread_start ?nt (tmask w)) ?nt (wt_dst tr) (of_nat (length (ipdom_stack w))), P) }"
    using c e(1) t rs s by (simp add: wctl_process_def Let_def C_def w_def)
  then show ?thesis using q(1) h m by (intro exI [of _ "y\<lparr>tmask := tm\<rparr>"]) simp
qed

lemma wctl_join_warp:
  assumes p: "proc_inv c P" and a: "wctl_allowed c P cid tr" and t: "wctl_type tr = JOIN" "wt_eop tr"
  defines "C \<equiv> proc_cores P ! cid"
  defines "w \<equiv> warps (core_sched C) ! wt_wid tr"
  shows "\<exists>sp w'. last_arg (unat (num_threads c)) (tmask w) (wt_rs1 tr) = Some sp \<and> exec_join sp w = Some w' \<and>
    wctl_process c P cid tr = Some (True, wt_dst tr, P\<lparr>proc_cores := (proc_cores P)[cid := with_warp C (wt_wid tr) w']\<rparr>) \<and>
    proc_inv c (P\<lparr>proc_cores := (proc_cores P)[cid := with_warp C (wt_wid tr) w']\<rparr>) \<and> may_wait c (with_warp C (wt_wid tr) w') (wt_wid tr)"
proof -
  let ?nt = "unat (num_threads c)"
  from a t have c: "cid < length (proc_cores P)" and m: "may_wait c C (wt_wid tr)" and rs: "length (wt_rs1 tr) = ?nt" and d: "div_ok ?nt w"
    and z: "ipdom_stack w = [] \<longrightarrow> last_arg ?nt (tmask w) (wt_rs1 tr) = Some 0"
    and x: "wt_wid tr < unat (num_warps c)" "active_warps (core_sched C) ! wt_wid tr"
    by (simp_all add: wctl_allowed_def Let_def C_def w_def)
  note e = executing [OF proc_invD(3) [OF p c, folded C_def] x]
  obtain sp where sp: "last_arg ?nt (tmask w) (wt_rs1 tr) = Some sp" using last_arg_Some [OF e(2,3) rs] by (auto simp: w_def)
  have "join_warp sp w \<noteq> None" using z sp by (cases "ipdom_stack w") (auto simp: join_warp_def)
  then obtain tm y where s: "join_warp sp w = Some (tm, y)" by auto
  note q = exec_join_popped [OF d s]
  note h = change_warp [OF p c m [unfolded C_def] q(2) [unfolded w_def C_def] q(3) [unfolded w_def C_def] q(4), folded C_def]
  have "wctl_process c P cid tr = do {
      (r, P) \<leftarrow> do { C \<leftarrow> wctl_put_warp C (wt_wid tr) y; core_setTmask c P cid C (wt_wid tr) tm };
      Some (r, wt_dst tr, P) }"
    using c e(1) t sp s by (simp add: wctl_process_def Let_def C_def w_def)
  then show ?thesis using q(1) h m sp by (intro exI [of _ sp] exI [of _ "y\<lparr>tmask := tm\<rparr>"]) simp
qed

lemma wctl_mask_ok:
  assumes p: "proc_inv c P" and a: "wctl_allowed c P cid tr" and t: "wctl_type tr = TMC \<or> wctl_type tr = PRED"
  shows "wctl_ok c P cid tr"
proof -
  let ?C = "proc_cores P ! cid"
  let ?w = "warps (core_sched ?C) ! wt_wid tr"
  let ?nt = "unat (num_threads c)"
  from a t have c: "cid < length (proc_cores P)" and m: "may_wait c ?C (wt_wid tr)" and rs: "length (wt_rs1 tr) = ?nt" "length (wt_rs2 tr) = ?nt"
    and x: "wt_wid tr < unat (num_warps c)" "active_warps (core_sched ?C) ! wt_wid tr"
    by (auto simp: wctl_allowed_def)
  note I = proc_invD(3) [OF p c]
  note e = executing [OF I x]
  obtain v1 v2 where v: "last_arg ?nt (tmask ?w) (wt_rs1 tr) = Some v1" "last_arg ?nt (tmask ?w) (wt_rs2 tr) = Some v2"
    using last_arg_Some [OF e(2,3)] rs by blast
  have "\<exists>tm. length tm = ?nt \<and> wctl_process c P cid tr = (if \<not> wt_eop tr then Some (wt_fetch_stall tr, wt_dst tr, P)
      else do { (r, P) \<leftarrow> core_setTmask c P cid ?C (wt_wid tr) tm; Some (r, wt_dst tr, P) })"
    using t
  proof
    assume T: "wctl_type tr = TMC"
    with a have "?nt \<le> 32" by (simp add: wctl_allowed_def Let_def)
    then have "\<forall>t \<in> set [0 ..< ?nt]. t \<le> 31" by auto
    then obtain tm where "tmc_bits v1 [0 ..< ?nt] = Some tm" "length tm = ?nt" using tmc_bits_Some [of "[0 ..< ?nt]" v1] by auto
    then show ?thesis using T c e(1) v by (intro exI [of _ tm]) (simp add: wctl_process_def Let_def)
  next
    assume T: "wctl_type tr = PRED"
    let ?p = "cond_mask ?nt (is_cond_neg (wctl_args tr)) (tmask ?w) (wt_rs1 tr)"
    show ?thesis using T c e(1,3) v rs
      by (intro exI [of _ "if many ?p then mand (tmask ?w) ?p else mask_of ?nt v2"]) (simp add: wctl_process_def Let_def)
  qed
  then obtain tm where tm: "length tm = ?nt" "wctl_process c P cid tr = (if \<not> wt_eop tr then Some (wt_fetch_stall tr, wt_dst tr, P)
      else do { (r, P) \<leftarrow> core_setTmask c P cid ?C (wt_wid tr) tm; Some (r, wt_dst tr, P) })" by blast
  obtain r P' where "core_setTmask c P cid ?C (wt_wid tr) tm = Some (r, P')" "proc_inv c P'" "r \<longrightarrow> may_wait c (proc_cores P' ! cid) (wt_wid tr)"
    using core_setTmask_spec(2) [OF p c I refl m tm(1)] by blast
  with tm(2) p m show ?thesis by (simp add: wctl_ok_def)
qed

lemma wctl_wspawn_ok:
  assumes p: "proc_inv c P" and a: "wctl_allowed c P cid tr" and t: "wctl_type tr = WSPAWN"
  shows "wctl_ok c P cid tr"
proof -
  let ?C = "proc_cores P ! cid"
  let ?w = "warps (core_sched ?C) ! wt_wid tr"
  let ?nt = "unat (num_threads c)"
  from a t have c: "cid < length (proc_cores P)" and m: "may_wait c ?C 0" and rs: "length (wt_rs1 tr) = ?nt" "length (wt_rs2 tr) = ?nt"
    and z: "wt_wid tr = 0" by (auto simp: wctl_allowed_def)
  note I = proc_invD(3) [OF p c] and x = may_wait_executes [OF m, THEN conjunct1] may_wait_executes [OF m, THEN conjunct2]
  note e = executing [OF I x]
  obtain v1 v2 where v: "last_arg ?nt (tmask ?w) (wt_rs1 tr) = Some v1" "last_arg ?nt (tmask ?w) (wt_rs2 tr) = Some v2"
    using last_arg_Some [OF e(2,3)] rs z by fastforce
  obtain r S where s: "wspawn c (core_sched ?C) (ucast v1) v2 = (r, S)" by fastforce
  have q: "wctl_process c P cid tr = (if \<not> wt_eop tr then Some (wt_fetch_stall tr, wt_dst tr, P)
      else do { P \<leftarrow> put_core P cid (?C\<lparr>core_sched := S\<rparr>); Some (r, wt_dst tr, P) })"
    using t c e(1) v z s by (simp add: wctl_process_def Let_def)
  have k: "kmu_ok c kmu_new" by (simp add: kmu_ok_def kmu_new_def)
  have al: "sched_allowed c (core_sched ?C) (Wspawn (ucast v1) v2)" using m by (simp add: may_wait_def parked_def)
  have l: "\<forall>i < length (core_bars ?C). \<forall>v. waits_at ?C i v \<longrightarrow> leaves_asleep v (Wspawn (ucast v1) v2)"
    using m by (metis leaves_asleep.simps(3) may_wait_def)
  have "core_inv c (?C\<lparr>core_sched := S\<rparr>)" using sched_op_inv [OF I k al l] s by simp
  note u = proc_inv_put [OF p c this]
  have "r \<Longrightarrow> S = core_sched ?C" using s by (auto simp: wspawn_def Let_def split: if_splits)
  then show ?thesis using u p m z c unfolding wctl_ok_def q by auto
qed

lemma wctl_process_ok:
  assumes p: "proc_inv c P" and a: "wctl_allowed c P cid tr"
  shows "wctl_ok c P cid tr"
proof (cases "wctl_type tr")
  case SPLIT
  show ?thesis
  proof (cases "wt_eop tr")
    case True
    have "cid < length (proc_cores P)" using a by (simp add: wctl_allowed_def)
    with wctl_split_warp [OF p a SPLIT True] show ?thesis by (auto simp: wctl_ok_def)
  next
    case False
    then show ?thesis using p a SPLIT executing(1) [OF proc_invD(3) [OF p]]
      by (auto simp: wctl_ok_def wctl_process_def wctl_allowed_def Let_def)
  qed
next
  case JOIN
  show ?thesis
  proof (cases "wt_eop tr")
    case True
    have "cid < length (proc_cores P)" using a by (simp add: wctl_allowed_def)
    with wctl_join_warp [OF p a JOIN True] show ?thesis by (auto simp: wctl_ok_def)
  next
    case False
    have c: "cid < length (proc_cores P)" "may_wait c (proc_cores P ! cid) (wt_wid tr)" "length (wt_rs1 tr) = unat (num_threads c)"
      and x: "wt_wid tr < unat (num_warps c)" "active_warps (core_sched (proc_cores P ! cid)) ! wt_wid tr"
      using a JOIN by (simp_all add: wctl_allowed_def)
    note e = executing [OF proc_invD(3) [OF p c(1)] x]
    obtain sp where "last_arg (unat (num_threads c)) (tmask (warps (core_sched (proc_cores P ! cid)) ! wt_wid tr)) (wt_rs1 tr) = Some sp"
      using last_arg_Some [OF e(2,3) c(3)] by blast
    then show ?thesis using False p c e(1) JOIN by (simp add: wctl_ok_def wctl_process_def Let_def)
  qed
next
  case WSYNC
  then show ?thesis using p a executing(1) [OF proc_invD(3) [OF p]]
    by (auto simp: wctl_ok_def wctl_process_def wctl_allowed_def Let_def)
qed (use wctl_mask_ok [OF p a] wctl_wspawn_ok [OF p a] wctl_bar_ok [OF p a] in simp_all)

subsection \<open>Concrete instructions\<close>

definition warp_all :: warp_t where
  "warp_all = warp4\<lparr>tmask := [True, True, True, True]\<rparr>"

definition trace42 :: "WctlType \<Rightarrow> wctl_trace" where
  "trace42 ty = \<lparr>wctl_type = ty, wctl_args = \<lparr>is_cond_neg = False, is_sync_bar = False, is_bar_arrive = False\<rparr>, wt_wid = 0,
     wt_PC = 0x80000000, wt_eop = True, wt_wb = False, wt_fetch_stall = True, wt_rs1 = [1, 0, 0, 0], wt_rs2 = [0, 0, 0, 0],
     wt_dst = [0, 0, 0, 0]\<rparr>"

lemma warp_all_ok: "div_ok (unat (num_threads cfg42)) warp_all" "diverges cfg42 False [1, 0, 0, 0] warp_all"
  by (simp_all add: div_ok_def warp_all_def warp4_def warp_new_def cfg42_def cfg4_def many_def diverges_def cond_mask_def lane_cond_def
      upt_rec)

lemma core42_warp0: "div_ok 4 (warps (core_sched core42) ! 0)"
proof -
  have "tmask (warps (core_sched core42) ! 0) = [True, True, True, True] \<and> ipdom_stack (warps (core_sched core42) ! 0) = []"
    by code_simp
  then show ?thesis by (simp add: div_ok_def many_def)
qed

lemma trace42_allowed: "ty = TMC \<or> ty = SPLIT \<Longrightarrow> wctl_allowed cfg42 proc42 0 (trace42 ty)"
  using core42_may_wait core42_warp0 may_wait_executes [OF core42_may_wait(1)] by (auto simp: wctl_allowed_def proc42_def trace42_def cfg42_def cfg4_def)

text \<open>Warp 0 arrives at barrier 0 in its third phase, and then waits there; \<open>k\<close> counts the arrivals.\<close>

definition core42p :: "u32 \<Rightarrow> core_t" where
  "core42p k = set_bar core42 0 ((core_bars core42 ! 0)\<lparr>bar_phase := 2, bar_count := k\<rparr>)"

definition proc42p :: "u32 \<Rightarrow> proc_t" where
  "proc42p k = proc42\<lparr>proc_cores := (proc_cores proc42)[0 := core42p k]\<rparr>"

definition wait42 :: wctl_trace where
  "wait42 = (trace42 BAR)\<lparr>wt_rs1 := [0, 0, 0, 0]\<rparr>"

definition arrive42 :: wctl_trace where
  "arrive42 = wait42\<lparr>wctl_args := \<lparr>is_cond_neg = False, is_sync_bar = False, is_bar_arrive = True\<rparr>, wt_wb := True, wt_rs2 := [2, 2, 2, 2]\<rparr>"

lemma core42_tmask0: "tmask (warps (core_sched core42) ! 0) = [True, True, True, True]"
  by code_simp

lemma core42p:
  "core_inv cfg42 (core42p k)" "may_wait cfg42 (core42p k) 0" "core_sched (core42p k) = core_sched core42"
  "length (core_bars (core42p k)) = 32" "core_bars (core42p k) ! 0 = (core_bars core42 ! 0)\<lparr>bar_phase := 2, bar_count := k\<rparr>"
proof -
  have l: "length (core_bars core42) = 32" by (simp add: core42_def barriers_new_def cfg42_def cfg4_def)
  then have l0: "0 < length (core_bars core42)" by simp
  show "core_inv cfg42 (core42p k)" unfolding core42p_def using core_inv_shape [OF core42_inv l0]
    by (intro same_waiters_inv [OF core42_inv l0]) simp_all
  show "may_wait cfg42 (core42p k) 0" unfolding core42p_def by (intro may_wait_set_bar [OF core42_may_wait(1) l0]) simp
  show "core_sched (core42p k) = core_sched core42" "length (core_bars (core42p k)) = 32"
    "core_bars (core42p k) ! 0 = (core_bars core42 ! 0)\<lparr>bar_phase := 2, bar_count := k\<rparr>" using l by (simp_all add: core42p_def)
qed

lemma proc42p:
  "proc_inv cfg42 (proc42p k)" "0 < length (proc_cores (proc42p k))" "proc_cores (proc42p k) ! 0 = core42p k"
  "tmask (warps (core_sched (core42p k)) ! 0) = [True, True, True, True]" "active_warps (core_sched (core42p k)) ! 0"
proof -
  have l: "0 < length (proc_cores proc42)" "length (core_bars core42) = 32" by (simp_all add: proc42_def core42_def barriers_new_def cfg42_def cfg4_def)
  then show "proc_inv cfg42 (proc42p k)" "0 < length (proc_cores (proc42p k))" "proc_cores (proc42p k) ! 0 = core42p k"
    using proc_inv_put [OF proc42_inv l(1) core42p(1) [of k]] core42p(4) [of k] by (simp_all add: proc42p_def proc42_def)
  show "tmask (warps (core_sched (core42p k)) ! 0) = [True, True, True, True]" "active_warps (core_sched (core42p k)) ! 0"
    using core42p core42_tmask0 may_wait_executes [OF core42_may_wait(1)] by simp_all
qed

lemma bar42: "last_arg 4 [True, True, True, True] [x, x, x, x] = Some x" "bar_decode_id 0 (num_barriers cfg42) = 0" "bar_index 0 = 0"
  "unat (num_threads cfg42) = 4" "0 < unat (num_warps cfg42)" "0 < unat (num_warps cfg42 * num_barriers cfg42)"
  by (simp_all add: last_arg_def thread_last_def upt_rec bar_decode_id_def bar_index_def cfg42_def cfg4_def)

lemma proc42p_exec:
  "wctl_allowed cfg42 (proc42p 0) 0 arrive42" "trace_bar cfg42 (proc42p k) 0 (wait42\<lparr>wt_rs2 := d\<rparr>) = Some 0"
  "wctl_allowed cfg42 (proc42p 1) 0 (wait42\<lparr>wt_rs2 := [0, 0, 0, 0]\<rparr>)" "trace_bar cfg42 (proc42p 0) 0 arrive42 = Some 0"
  using proc42p [of 0] proc42p [of 1] proc42p [of k] core42p(2) bar42
  by (simp_all add: wctl_allowed_def bar_operands_ok_def arrive42_def wait42_def trace42_def trace_bar_def trace_warp_def)

lemma proc42p_arrive: "wctl_process cfg42 (proc42p 0) 0 arrive42 = Some (True, [0, 0, 0, 0], proc42p 1)"
proof -
  have b: "core_bars core42 ! 0 = warp_barrier_new" by (simp add: core42_def barriers_new_def cfg42_def cfg4_def)
  have l: "wt_wid arrive42 < MAX_NUM_WARPS" by (simp add: arrive42_def wait42_def trace42_def MAX_NUM_WARPS_def)
  have x: "unat 0 < length (core_bars (core42p 0))" by (simp add: core42p)
  have "arrive_local cfg42 (core42p 0) 0 2 0 False = Some (core42p 1)"
    using arrive_local_waits [OF core42p(1) x, of False 0 2] x b core42p(5) [of 0]
    by (simp add: warp_barrier_new_def core42p_def set_bar_def add_waiter_def MAX_NUM_WARPS_def)
  then have "arrive cfg42 (proc42p 0) 0 0 2 0 False = Some (proc42p 1)"
    using proc42p(2,3) [of 0] bar42(3) by (simp add: arrive_def is_global_def put_core_def proc42p_def)
  then show ?thesis
    using wctl_bar_unfold [OF proc42p(1) proc42p_exec(1) _ proc42p_exec(4)] bar42 proc42p(3,4) [of 0] core42p(4,5) [of 0]
    by (simp add: process_bar_def Let_def trace_warp_def arrive42_def wait42_def trace42_def get_phase_def upt_rec)
qed

definition joined_all :: "warp_t \<Rightarrow> warp_t" where
  "joined_all w = the (exec_join 0 w)"

lemma warp_all_runs:
  "runs cfg42 warp_all (joined_all (joined_all (the (exec_split cfg42 False [1, 0, 0, 0] 0x80000004 warp_all))))"
proof (rule runs.divergent [OF warp_all_ok(2)])
  note s = exec_split_diverges(1) [OF warp_all_ok, where pc = "0x80000004"]
  let ?w1 = "warp_all\<lparr>ipdom_stack := ipdom_entry_new (tmask warp_all) 0x80000004 # ipdom_stack warp_all,
    tmask := first_half cfg42 False [1, 0, 0, 0] (tmask warp_all)\<rparr>"
  have z: "of_nat (length (ipdom_stack warp_all)) = (0 :: u64)" by (simp add: warp_all_def warp4_def warp_new_def)
  show "exec_split cfg42 False [1, 0, 0, 0] 0x80000004 warp_all = Some (the (exec_split cfg42 False [1, 0, 0, 0] 0x80000004 warp_all))"
    by (simp add: s)
  show "runs cfg42 (the (exec_split cfg42 False [1, 0, 0, 0] 0x80000004 warp_all)) ?w1" by (rule runs.other) (simp_all add: s)
  note j = first_join [OF warp_all_ok, where pc = "0x80000004" and ?w2.0 = ?w1, unfolded z]
  show "exec_join (of_nat (length (ipdom_stack warp_all))) ?w1 = Some (joined_all ?w1)" using j by (simp add: z joined_all_def)
  show "runs cfg42 (joined_all ?w1) (joined_all ?w1)" by (rule runs.other) simp_all
  have d: "div_ok (unat (num_threads cfg42)) (joined_all ?w1)" using j by (simp add: joined_all_def)
  have "ipdom_stack (joined_all ?w1) = (ipdom_entry_new (tmask warp_all) 0x80000004)\<lparr>fallthrough := True\<rparr> # ipdom_stack warp_all"
    using j by (simp add: joined_all_def)
  from second_join(1) [OF d this] show "exec_join (of_nat (length (ipdom_stack warp_all))) (joined_all ?w1) =
      Some (joined_all (joined_all (the (exec_split cfg42 False [1, 0, 0, 0] 0x80000004 warp_all))))"
    by (simp add: z s joined_all_def)
qed

subsection \<open>Properties\<close>

text \<open>
  C8. The warp-control instructions keep the device consistent. An instruction that a warp executes
  as the programming model allows returns, without an abort and without reading outside a table; the
  schedulers and the barriers of all cores keep their invariants; and if the instruction reports that
  its warp may continue, the warp is active, stalled and waits nowhere, so that resuming it succeeds.
\<close>

theorem wctl_safe:
  assumes "proc_inv c P" "wctl_allowed c P cid tr"
  shows "\<exists>r dst P'. wctl_process c P cid tr = Some (r, dst, P') \<and> proc_inv c P' \<and>
    (r \<longrightarrow> active_warps (core_sched (proc_cores P' ! cid)) ! wt_wid tr \<and>
       stalled_warps_next (core_sched (proc_cores P' ! cid)) ! wt_wid tr \<and>
       (\<forall>i < length (core_bars (proc_cores P' ! cid)). \<not> waits_at (proc_cores P' ! cid) i (wt_wid tr)))"
  using wctl_process_ok [OF assms] by (fastforce simp: wctl_ok_def may_wait_def parked_def)

theorem wctl_safe_witness: "wctl_process cfg42 proc42 0 (trace42 TMC) \<noteq> None"
  using wctl_safe [OF proc42_inv trace42_allowed [of TMC]] by auto

text \<open>
  C14. Divergent control flow reconverges. A warp that executes a region of structured control flow,
  with \<open>if\<close> statements nested to any depth, of which each may diverge or not, leaves it with the
  threads and with the reconvergence stack it entered with.
\<close>

theorem divergence_reconverges:
  assumes "runs c w w'" "div_ok (unat (num_threads c)) w"
  shows "tmask w' = tmask w \<and> ipdom_stack w' = ipdom_stack w"
  using assms by (rule runs_reconverge)

theorem divergence_reconverges_witness:
  "tmask (joined_all (joined_all (the (exec_split cfg42 False [1, 0, 0, 0] 0x80000004 warp_all)))) = [True, True, True, True]"
  using divergence_reconverges [OF warp_all_runs warp_all_ok(1)] by (simp add: warp_all_def)

text \<open>
  C21. The two halves of a divergent \<open>if\<close> partition the threads. \<open>SPLIT\<close> continues with the smaller
  half. When that half reaches \<open>JOIN\<close>, the warp continues with the other half at the instruction after
  the \<open>SPLIT\<close>: every thread that was active is in exactly one of the two, and neither is empty. When
  the second half reaches \<open>JOIN\<close> all of them are active again.
\<close>

theorem split_partitions:
  assumes w: "div_ok (unat (num_threads c)) w" and d: "diverges c neg rs w" and s: "exec_split c neg rs pc w = Some w1"
    and w2: "tmask w2 = tmask w1" "ipdom_stack w2 = ipdom_stack w1" and j: "exec_join (of_nat (length (ipdom_stack w))) w2 = Some w3"
    and w4: "tmask w4 = tmask w3" "ipdom_stack w4 = ipdom_stack w3"
  shows "2 * mcount (tmask w1) \<le> mcount (tmask w) \<and> many (tmask w1) \<and> many (tmask w3) \<and> wPC w3 = pc \<and>
    (\<forall>t < unat (num_threads c). tmask w ! t \<longleftrightarrow> (tmask w1 ! t \<noteq> tmask w3 ! t)) \<and>
    (\<forall>t < unat (num_threads c). \<not> (tmask w1 ! t \<and> tmask w3 ! t)) \<and>
    (\<exists>w5. exec_join (of_nat (length (ipdom_stack w))) w4 = Some w5 \<and> tmask w5 = tmask w \<and> ipdom_stack w5 = ipdom_stack w)"
proof -
  let ?nt = "unat (num_threads c)" and ?h = "first_half c neg rs (tmask w)"
  note x = exec_split_diverges(1,4) [OF w d, of pc] and h = exec_split_diverges(2,3) [OF w d]
  have w1: "w1 = w\<lparr>ipdom_stack := ipdom_entry_new (tmask w) pc # ipdom_stack w, tmask := ?h\<rparr>" using x(1) s by simp
  have t2: "tmask w2 = ?h" "ipdom_stack w2 = ipdom_entry_new (tmask w) pc # ipdom_stack w" using w2 by (simp_all add: w1)
  note y = first_join [OF w d t2]
  have w3: "tmask w3 = mand (mnot ?h) (tmask w)" "wPC w3 = pc" "div_ok ?nt w3"
    "ipdom_stack w3 = (ipdom_entry_new (tmask w) pc)\<lparr>fallthrough := True\<rparr> # ipdom_stack w" using y j t2 by auto
  have l: "length (tmask w) = ?nt" "length ?h = ?nt" using w h by (simp_all add: div_ok_def strict_submask_def submask_def)
  have "div_ok ?nt w4" using w3(3) w4 by (simp add: div_ok_def)
  note z = second_join(1) [OF this, of "tmask w" pc "ipdom_stack w"]
  have "mcount (cond_mask ?nt neg (tmask w) rs) + mcount (cond_mask ?nt (\<not> neg) (tmask w) rs) = mcount (tmask w)"
    unfolding mcount_card using l
    by (subst card_Un_disjoint [symmetric]) (auto intro!: arg_cong [where f = card] simp: set_eq_iff)
  then have "2 * mcount ?h \<le> mcount (tmask w)" by (simp add: first_half_def Let_def)
  moreover have "many (tmask w3)" using w3(3) by (simp add: div_ok_def)
  moreover have "\<forall>t < ?nt. tmask w ! t \<longleftrightarrow> (?h ! t \<noteq> tmask w3 ! t)" "\<forall>t < ?nt. \<not> (?h ! t \<and> tmask w3 ! t)"
    using h(1) l by (auto simp: w3(1) nth_mand strict_submask_def submask_def)
  ultimately show ?thesis using h(2) w3(2,4) w4 z by (simp add: w1)
qed

theorem split_partitions_witness:
  "tmask (the (exec_split cfg42 False [1, 0, 0, 0] 0x80000004 warp_all)) ! 0 \<noteq>
   tmask (joined_all (the (exec_split cfg42 False [1, 0, 0, 0] 0x80000004 warp_all))) ! 0"
proof -
  let ?w1 = "the (exec_split cfg42 False [1, 0, 0, 0] 0x80000004 warp_all)"
  have s: "exec_split cfg42 False [1, 0, 0, 0] 0x80000004 warp_all = Some ?w1"
    using exec_split_diverges(1) [OF warp_all_ok, where pc = "0x80000004"] by simp
  have z: "of_nat (length (ipdom_stack warp_all)) = (0 :: u64)" by (simp add: warp_all_def warp4_def warp_new_def)
  have j: "exec_join (of_nat (length (ipdom_stack warp_all))) ?w1 = Some (joined_all ?w1)"
    using first_join(1) [OF warp_all_ok, where pc = "0x80000004" and ?w2.0 = ?w1] exec_split_diverges(1) [OF warp_all_ok, where pc = "0x80000004"]
    by (simp add: joined_all_def z)
  have "(0::nat) < unat (num_threads cfg42)" "tmask warp_all ! 0" by (simp_all add: cfg42_def cfg4_def warp_all_def)
  with split_partitions [OF warp_all_ok s refl refl j refl refl] show ?thesis by blast
qed

text \<open>
  C22. The reconvergence stack never overflows. A warp that diverges and reconverges, and that masks
  threads within the branch it executes, never holds more entries than the stack has, one less than
  the number of threads: the abort of \<open>SPLIT\<close> for a full stack is not reached.
\<close>

theorem ipdom_never_full:
  assumes "div_reach c w"
  shows "length (ipdom_stack w) \<le> unat (ipdom_size c) \<and> (\<forall>neg rs pc. exec_split c neg rs pc w \<noteq> None)"
proof -
  have d: "div_ok (unat (num_threads c)) w" by (rule div_reach_ok [OF assms])
  have "mcount (tmask w) + length (ipdom_stack w) \<le> unat (num_threads c)" "mcount (tmask w) \<noteq> 0"
    using d nested_depth [of "tmask w" "ipdom_stack w"] by (simp_all add: div_ok_def mcount_0_iff)
  then have "length (ipdom_stack w) \<le> unat (ipdom_size c)" using ipdom_size_pos [of c] by linarith
  moreover have "exec_split c neg rs pc w \<noteq> None" for neg rs pc
    using exec_split_diverges(1) [OF d, of neg rs pc] exec_split_uniform [of c neg rs w pc] by (cases "diverges c neg rs w") simp_all
  ultimately show ?thesis by blast
qed

theorem ipdom_never_full_witness:
  "exec_split cfg42 True [0, 1, 1, 0] 0x80000010 (the (exec_split cfg42 False [1, 0, 0, 0] 0x80000004 warp_all)) \<noteq> None"
proof -
  have "div_reach cfg42 warp_all"
    by (rule div_reach.start) (simp_all add: warp_all_def warp4_def warp_new_def cfg42_def cfg4_def many_def)
  then have "div_reach cfg42 (the (exec_split cfg42 False [1, 0, 0, 0] 0x80000004 warp_all))"
    by (rule div_reach.split [where neg = False and rs = "[1, 0, 0, 0]" and pc = "0x80000004"])
       (simp add: exec_split_diverges(1) [OF warp_all_ok])
  from ipdom_never_full [OF this] show ?thesis by blast
qed

text \<open>
  C20. The instructions \<open>SPLIT\<close> and \<open>JOIN\<close> implement these steps. Executed by a warp of a core, each
  changes that warp as its step on a single warp says and nothing else on the device, and lets the
  warp continue. \<open>SPLIT\<close> writes the depth of the stack before it to every thread from the first active
  one on, the operand its \<open>JOIN\<close> needs.
\<close>

theorem split_join_refine:
  assumes "proc_inv c P" "wctl_allowed c P cid tr" "wt_eop tr"
  defines "w \<equiv> warps (core_sched (proc_cores P ! cid)) ! wt_wid tr"
  shows "(wctl_type tr = SPLIT \<longrightarrow> (\<exists>w'. exec_split c (is_cond_neg (wctl_args tr)) (wt_rs1 tr) (wt_PC tr + 4) w = Some w' \<and>
      wctl_process c P cid tr = Some (True,
        fill_from (wctl_thread_start (unat (num_threads c)) (tmask w)) (unat (num_threads c)) (wt_dst tr) (of_nat (length (ipdom_stack w))),
        P\<lparr>proc_cores := (proc_cores P)[cid := with_warp (proc_cores P ! cid) (wt_wid tr) w']\<rparr>))) \<and>
    (wctl_type tr = JOIN \<longrightarrow> (\<exists>sp w'. last_arg (unat (num_threads c)) (tmask w) (wt_rs1 tr) = Some sp \<and> exec_join sp w = Some w' \<and>
      wctl_process c P cid tr = Some (True, wt_dst tr,
        P\<lparr>proc_cores := (proc_cores P)[cid := with_warp (proc_cores P ! cid) (wt_wid tr) w']\<rparr>)))"
  using wctl_split_warp [OF assms(1,2) _ assms(3)] wctl_join_warp [OF assms(1,2) _ assms(3)] unfolding w_def by blast

theorem split_join_refine_witness:
  "\<exists>w'. exec_split cfg42 False [1, 0, 0, 0] 0x80000004 (warps (core_sched core42) ! 0) = Some w' \<and>
     wctl_process cfg42 proc42 0 (trace42 SPLIT) \<noteq> None"
proof -
  have "wt_eop (trace42 SPLIT)" "wctl_type (trace42 SPLIT) = SPLIT" by (simp_all add: trace42_def)
  from split_join_refine [OF proc42_inv trace42_allowed this(1)] this(2) show ?thesis by (auto simp: trace42_def proc42_def)
qed

text \<open>
  C34. A warp that waits with the value that an arrival wrote to its destination register is suspended,
  while the phase of the arrival lasts, only in the first two phases of the barrier. The arrival writes
  the parity of the phase to the lanes of the active threads, and the wait, which reads it as its second
  operand, compares it with the whole phase counter: from the third phase on the wait lets the warp
  pass although the barrier has not completed. The arrival and the wait are executed by the warp
  control unit, in two states of the device between which anything may happen.
\<close>

theorem barrier_wait_parity:
  assumes P: "proc_inv c P" "wctl_allowed c P cid tr" "wctl_type tr = BAR" "is_bar_arrive (wctl_args tr)" "length (wt_dst tr) = unat (num_threads c)"
    and Q: "proc_inv c Q" "wctl_allowed c Q cid tr'" "wctl_type tr' = BAR" "wt_eop tr'"
      "\<not> is_bar_arrive (wctl_args tr')" "\<not> is_sync_bar (wctl_args tr')" "\<not> wt_wb tr'"
    and id: "trace_bar c P cid tr = Some bar_id" "trace_bar c Q cid tr' = Some bar_id"
    and tm: "tmask (trace_warp Q cid tr') = tmask (trace_warp P cid tr)"
  defines "ph \<equiv> bar_phase (core_bars (proc_cores P ! cid) ! bar_pos bar_id)"
  shows "\<exists>r dst P'. wctl_process c P cid tr = Some (r, dst, P') \<and>
    (\<forall>t < unat (num_threads c). tmask (trace_warp P cid tr) ! t \<longrightarrow> dst ! t = ucast (ph AND 1)) \<and>
    (wt_rs2 tr' = dst \<longrightarrow> (\<exists>r' Q'. wctl_process c Q cid tr' = Some (r', wt_dst tr', Q') \<and>
       (r' \<longleftrightarrow> bar_phase (core_bars (proc_cores Q ! cid) ! bar_pos bar_id) \<noteq> ph AND 1) \<and>
       (bar_phase (core_bars (proc_cores Q ! cid) ! bar_pos bar_id) = ph \<longrightarrow> (r' \<longleftrightarrow> 2 \<le> ph)) \<and>
       (\<not> r' \<longrightarrow> wt_wid tr' \<in> waiters (proc_cores Q' ! cid) (bar_pos bar_id))))"
proof -
  obtain r dst P' where a: "wctl_process c P cid tr = Some (r, dst, P')" using wctl_bar_ok [OF P(1-3)] by (auto simp: wctl_ok_def)
  have "dst = map (\<lambda>t. if t < unat (num_threads c) \<and> tmask (trace_warp P cid tr) ! t then ucast (ph AND 1) else wt_dst tr ! t) [0 ..< length (wt_dst tr)]"
    unfolding ph_def by (rule bar_arrive_dst [OF P(1-4) id(1) a])
  then have d: "\<forall>t < unat (num_threads c). tmask (trace_warp P cid tr) ! t \<longrightarrow> dst ! t = ucast (ph AND 1)" using P(5) by simp
  have "\<exists>r' Q'. wctl_process c Q cid tr' = Some (r', wt_dst tr', Q') \<and>
      (r' \<longleftrightarrow> bar_phase (core_bars (proc_cores Q ! cid) ! bar_pos bar_id) \<noteq> ph AND 1) \<and>
      (bar_phase (core_bars (proc_cores Q ! cid) ! bar_pos bar_id) = ph \<longrightarrow> (r' \<longleftrightarrow> 2 \<le> ph)) \<and>
      (\<not> r' \<longrightarrow> wt_wid tr' \<in> waiters (proc_cores Q' ! cid) (bar_pos bar_id))" if e: "wt_rs2 tr' = dst"
  proof -
    have "\<forall>t < unat (num_threads c). tmask (trace_warp Q cid tr') ! t \<longrightarrow> wt_rs2 tr' ! t = ucast (ph AND 1)" using d e tm by simp
    from bar_wait_value [OF Q id(2) this] show ?thesis using even_phase [of ph] by (auto simp: ucast_ucast_u32)
  qed
  with a d show ?thesis by blast
qed

theorem barrier_wait_parity_witness:
  "wctl_process cfg42 (proc42p 0) 0 arrive42 = Some (True, [0, 0, 0, 0], proc42p 1) \<and>
   (\<exists>Q'. wctl_process cfg42 (proc42p 1) 0 (wait42\<lparr>wt_rs2 := [0, 0, 0, 0]\<rparr>) = Some (True, [0, 0, 0, 0], Q'))"
proof -
  let ?t = "wait42\<lparr>wt_rs2 := [0, 0, 0, 0]\<rparr>"
  have t: "wctl_type arrive42 = BAR" "is_bar_arrive (wctl_args arrive42)" "length (wt_dst arrive42) = unat (num_threads cfg42)"
    "wctl_type ?t = BAR" "wt_eop ?t" "\<not> is_bar_arrive (wctl_args ?t)" "\<not> is_sync_bar (wctl_args ?t)" "\<not> wt_wb ?t"
    "tmask (trace_warp (proc42p 1) 0 ?t) = tmask (trace_warp (proc42p 0) 0 arrive42)" "wt_dst ?t = [0, 0, 0, 0]" "wt_rs2 ?t = [0, 0, 0, 0]"
    using proc42p(3,4) bar42(4) by (simp_all add: arrive42_def wait42_def trace42_def trace_warp_def)
  have "bar_phase (core_bars (proc_cores (proc42p k) ! 0) ! bar_pos 0) = 2" for k using proc42p(3) core42p(5) bar42(3) by simp
  with barrier_wait_parity [OF proc42p(1) proc42p_exec(1) t(1-3) proc42p(1) proc42p_exec(3) t(4-8) proc42p_exec(4,2) t(9)] proc42p_arrive t(10,11)
  show ?thesis by auto
qed

text \<open>
  C35. With 32 threads, \<open>TMC\<close> enables the last thread from more than its own bit of the operand: the
  shifted one of type \<open>int\<close> is negative, so that any bit from 31 to 63 enables it. The other threads
  follow their bits.
\<close>

theorem tmc_last_thread:
  "\<exists>tm. tmc_bits v [0 ..< 32] = Some tm \<and> (\<forall>t < 31. tm ! t \<longleftrightarrow> bit v t) \<and> (tm ! 31 \<longleftrightarrow> (\<exists>t. 31 \<le> t \<and> bit v t))"
proof -
  have b: "tmc_bits v ts = Some (map (\<lambda>t. the (tmc_bit v t)) ts)" if "\<forall>t \<in> set ts. t \<le> 31" for ts
    using that by (induction ts) (auto simp: tmc_bit_def)
  have k: "bit (scast (push_bit t (1 :: u32)) :: u64) n \<longleftrightarrow> n < 64 \<and> (if t = 31 then 31 \<le> n else n = t)" if "t < 32" for t n
  proof -
    have p: "bit (push_bit t (1 :: u32)) m \<longleftrightarrow> m = t" for m
      unfolding bit_push_bit_iff bit_1_iff possible_bit_word using that by auto
    show ?thesis unfolding bit_word_scast_iff p using that by auto
  qed
  have i: "v AND x \<noteq> 0 \<longleftrightarrow> (\<exists>n. bit v n \<and> bit x n)" for x using bit_imp_le_length [of v] by (auto simp: bit_eq_iff bit_and_iff)
  have "v AND scast (push_bit t (1 :: u32)) \<noteq> 0 \<longleftrightarrow> (\<exists>n. bit v n \<and> (if t = 31 then 31 \<le> n else n = t))" if "t < 32" for t
    unfolding i k [OF that] using bit_imp_le_length [of v] by auto
  then show ?thesis using b [of "[0 ..< 32]"] by (auto simp: tmc_bit_def simp del: push_bit_of_1)
qed

theorem tmc_last_thread_witness: "\<exists>tm. tmc_bits 0x100000000 [0 ..< 32] = Some tm \<and> tm ! 31"
proof -
  have "bit (0x100000000 :: u64) 32" by (simp add: bit_iff_odd)
  then have "\<exists>t. 31 \<le> t \<and> bit (0x100000000 :: u64) t" by (intro exI [of _ 32]) simp
  with tmc_last_thread [of "0x100000000"] show ?thesis by blast
qed

end
