(* ===== verification/Instr.thy ===== *)
theory Instr
  imports Wctl Csr
begin

text \<open>
  Decoded instructions, \<open>sim/simx/instr.h\<close> and \<open>types.h\<close>: the operation types of the functional units,
  their arguments, and the setters of \<open>Instr\<close> that the decoder uses. A field that the source declares
  with a width is cut to that width where it is stored. The thread mask that a micro-op sequencer may attach
  is left out: the decoder never sets it, and \<open>has_tmask\<close> stays false.
\<close>

datatype RegType = RegNone | RegInteger | RegFloat

record RegOpd =
  reg_type :: RegType
  reg_idx :: u32

definition reg_none :: RegOpd where
  "reg_none = \<lparr>reg_type = RegNone, reg_idx = 0\<rparr>"

definition LOG_NUM_REGS :: nat where "LOG_NUM_REGS = 5"

definition reg_id :: "RegOpd \<Rightarrow> u32" where
  "reg_id r = (case reg_type r of RegNone \<Rightarrow> 0
     | RegInteger \<Rightarrow> push_bit LOG_NUM_REGS 0 OR reg_idx r
     | RegFloat \<Rightarrow> push_bit LOG_NUM_REGS 1 OR reg_idx r)"

datatype FUType = FU_ALU | FU_LSU | FU_FPU | FU_SFU

datatype AluType = ALU_LUI | ALU_AUIPC | ALU_ADD | ALU_SUB | ALU_SLL | ALU_SRL | ALU_SRA | ALU_SLT | ALU_SLTU
  | ALU_AND | ALU_OR | ALU_XOR | ALU_CZERO

datatype BrType = BR_BR | BR_JAL | BR_JALR | BR_SYS

datatype VoteType = VOTE_ALL | VOTE_ANY | VOTE_UNI | VOTE_BAL

datatype ShflType = SHFL_UP | SHFL_DOWN | SHFL_BFLY | SHFL_IDX

datatype MdvType = MDV_MUL | MDV_MULHU | MDV_MULH | MDV_MULHSU | MDV_DIV | MDV_DIVU | MDV_REM | MDV_REMU

datatype LsuType = LSU_LOAD | LSU_STORE | LSU_FENCE

datatype AmoType = AMO_LR | AMO_SC | AMO_AMOADD | AMO_AMOSWAP | AMO_AMOAND | AMO_AMOOR | AMO_AMOXOR | AMO_AMOMIN
  | AMO_AMOMAX | AMO_AMOMINU | AMO_AMOMAXU

datatype FpuType = FPU_FADD | FPU_FSUB | FPU_FMUL | FPU_FDIV | FPU_FSQRT | FPU_FMADD | FPU_FMSUB | FPU_FNMADD | FPU_FNMSUB
  | FPU_F2I | FPU_I2F | FPU_F2F | FPU_FCMP | FPU_FSGNJ | FPU_FCLASS | FPU_FMVXW | FPU_FMVWX | FPU_FMINMAX

datatype DsmemType = DSMEM_MAILBOX_READ | DSMEM_READ

datatype OmType = OM_WRITE | OM_EXPORT

datatype RtuType = RT_SETW | RT_CB_RET | RT_TRACE2 | RT_WAIT2 | RT_GETWF | RT_GETW | RT_GETWS

datatype OpType = OpAlu AluType | OpBr BrType | OpMdv MdvType | OpLsu LsuType | OpAmo AmoType | OpFpu FpuType | OpCsr csr_type
  | OpVote VoteType | OpShfl ShflType | OpWgather | OpWctl WctlType | OpDxa | OpDsmem DsmemType | OpTex | OpOm OmType | OpRtu RtuType

record IntrAluArgs =
  alu_is_imm :: bool
  alu_is_w :: bool
  alu_imm :: u32

record IntrBrArgs =
  br_cmp :: u32
  br_is_rvc :: bool
  br_offset :: u32

record IntrLsuArgs =
  lsu_width :: u32
  lsu_stride :: u32
  lsu_offset :: u32

record IntrAmoArgs =
  amo_width :: u32
  amo_aq :: u32
  amo_rl :: u32

record IntrFpuArgs =
  fpu_frm :: u32
  fpu_cvt :: u32
  fpu_is_f64 :: bool

record IntrCsrArgs =
  csr_is_imm :: bool
  csr_imm :: u32
  csr_addr :: u32

record IntrTexArgs =
  tex_stage :: u32
  tex_is_tex4 :: bool
  tex_mode :: u32
  tex_out_slot :: u32

record IntrRtuArgs =
  rtu_slot :: u32
  rtu_uop :: u32
  rtu_count :: u32

datatype IntrArgs = ArgsAlu IntrAluArgs | ArgsBr IntrBrArgs | ArgsMdv bool | ArgsLsu IntrLsuArgs | ArgsAmo IntrAmoArgs
  | ArgsFpu IntrFpuArgs | ArgsCsr IntrCsrArgs | ArgsWgather u32 | ArgsWctl IntrWctlArgs | ArgsDxa | ArgsDsmem u32 u32
  | ArgsTex IntrTexArgs | ArgsOm u32 | ArgsRtu IntrRtuArgs

text \<open>Aggregate initialisation of the arguments, with the widths of their bit fields.\<close>

definition alu_args :: "bool \<Rightarrow> bool \<Rightarrow> u32 \<Rightarrow> IntrArgs" where
  "alu_args i w m = ArgsAlu \<lparr>alu_is_imm = i, alu_is_w = w, alu_imm = m\<rparr>"

definition br_args :: "u32 \<Rightarrow> bool \<Rightarrow> u32 \<Rightarrow> IntrArgs" where
  "br_args c r off = ArgsBr \<lparr>br_cmp = take_bit 3 c, br_is_rvc = r, br_offset = off\<rparr>"

definition lsu_args :: "u32 \<Rightarrow> u32 \<Rightarrow> u32 \<Rightarrow> IntrArgs" where
  "lsu_args w s off = ArgsLsu \<lparr>lsu_width = take_bit 3 w, lsu_stride = take_bit 4 s, lsu_offset = off\<rparr>"

definition amo_args :: "u32 \<Rightarrow> u32 \<Rightarrow> u32 \<Rightarrow> IntrArgs" where
  "amo_args w aq rl = ArgsAmo \<lparr>amo_width = take_bit 3 w, amo_aq = take_bit 1 aq, amo_rl = take_bit 1 rl\<rparr>"

definition fpu_args :: "u32 \<Rightarrow> u32 \<Rightarrow> u32 \<Rightarrow> IntrArgs" where
  "fpu_args frm cvt f64 = ArgsFpu \<lparr>fpu_frm = take_bit 3 frm, fpu_cvt = take_bit 2 cvt, fpu_is_f64 = (take_bit 1 f64 \<noteq> 0)\<rparr>"

definition csr_args :: "bool \<Rightarrow> u32 \<Rightarrow> u32 \<Rightarrow> IntrArgs" where
  "csr_args i m a = ArgsCsr \<lparr>csr_is_imm = i, csr_imm = take_bit 5 m, csr_addr = take_bit 12 a\<rparr>"

definition wctl_args0 :: IntrWctlArgs where
  "wctl_args0 = \<lparr>is_cond_neg = False, is_sync_bar = False, is_bar_arrive = False\<rparr>"

definition rtu_args :: "u32 \<Rightarrow> u32 \<Rightarrow> IntrArgs" where
  "rtu_args s n = ArgsRtu \<lparr>rtu_slot = take_bit 6 s, rtu_uop = 0, rtu_count = take_bit 4 n\<rparr>"

record Instr =
  in_uuid :: u64
  parent_uuid :: u64
  fu_type :: FUType
  op_type :: OpType
  in_args :: IntrArgs
  rsrc :: "RegOpd list"
  rdest :: RegOpd
  dst_bytesel :: u8
  is_uop :: bool
  is_macro_op :: bool
  is_wstall :: bool
  has_tmask :: bool
  fu_lock :: bool
  fu_unlock :: bool

definition MAX_REG_SOURCES :: nat where "MAX_REG_SOURCES = 3"

definition instr_new :: "u64 \<Rightarrow> FUType \<Rightarrow> Instr" where
  "instr_new uid fu = \<lparr>in_uuid = uid, parent_uuid = uid, fu_type = fu, op_type = OpAlu ALU_LUI, in_args = alu_args False False 0,
     rsrc = replicate MAX_REG_SOURCES reg_none, rdest = reg_none, dst_bytesel = 0xFF, is_uop = False, is_macro_op = False,
     is_wstall = False, has_tmask = False, fu_lock = True, fu_unlock = True\<rparr>"

definition set_fu_type :: "FUType \<Rightarrow> Instr \<Rightarrow> Instr" where
  "set_fu_type f i = i\<lparr>fu_type := f\<rparr>"

definition set_op_type :: "OpType \<Rightarrow> Instr \<Rightarrow> Instr" where
  "set_op_type t i = i\<lparr>op_type := t\<rparr>"

definition set_args :: "IntrArgs \<Rightarrow> Instr \<Rightarrow> Instr" where
  "set_args a i = i\<lparr>in_args := a\<rparr>"

definition set_dest_reg :: "u32 \<Rightarrow> RegType \<Rightarrow> Instr \<Rightarrow> Instr" where
  "set_dest_reg r t i = i\<lparr>rdest := \<lparr>reg_type = t, reg_idx = r\<rparr>\<rparr>"

definition set_src_reg :: "nat \<Rightarrow> u32 \<Rightarrow> RegType \<Rightarrow> Instr \<Rightarrow> Instr" where
  "set_src_reg n r t i = i\<lparr>rsrc := (rsrc i)[n := \<lparr>reg_type = t, reg_idx = r\<rparr>]\<rparr>"

definition set_macro_op :: "Instr \<Rightarrow> Instr" where
  "set_macro_op i = i\<lparr>is_macro_op := True\<rparr>"

definition set_wstall :: "bool \<Rightarrow> Instr \<Rightarrow> Instr" where
  "set_wstall b i = i\<lparr>is_wstall := b\<rparr>"

lemmas instr_setters = set_fu_type_def set_op_type_def set_args_def set_dest_reg_def set_src_reg_def set_macro_op_def set_wstall_def

end
