(* ===== verification/Decompressor.thy ===== *)
theory Decompressor
  imports Prelude
begin

text \<open>
  Compressed instructions, \<open>sim/simx/decompressor.{h,cpp}\<close>: the expansion of a 16-bit instruction to
  the 32-bit one it stands for, in the 64-bit build, and the state machine of a core that assembles
  the instruction at a program counter from the words the instruction cache returns.
\<close>

definition rvc_bit :: "u32 \<Rightarrow> nat \<Rightarrow> u32" where
  "rvc_bit x b = drop_bit b x AND 1"

definition rvc_bits :: "u32 \<Rightarrow> nat \<Rightarrow> nat \<Rightarrow> u32" where
  "rvc_bits x hi lo = drop_bit lo x AND (push_bit (hi - lo + 1) 1 - 1)"

definition sext_imm :: "u32 \<Rightarrow> nat \<Rightarrow> u32" where
  "sext_imm v width = (let m = push_bit (width - 1) 1 in (v XOR m) - m)"

definition rcp :: "u32 \<Rightarrow> u32" where
  "rcp r3 = 8 + r3"

definition ENCI :: "u32 \<Rightarrow> u32 \<Rightarrow> u32 \<Rightarrow> u32 \<Rightarrow> u32 \<Rightarrow> u32" where
  "ENCI imm12 rs1 funct3 rd opcode =
     push_bit 20 (imm12 AND 0xFFF) OR push_bit 15 (rs1 AND 31) OR push_bit 12 (funct3 AND 7) OR push_bit 7 (rd AND 31) OR
     (opcode AND 0x7F)"

definition ENCR :: "u32 \<Rightarrow> u32 \<Rightarrow> u32 \<Rightarrow> u32 \<Rightarrow> u32 \<Rightarrow> u32 \<Rightarrow> u32" where
  "ENCR funct7 rs2 rs1 funct3 rd opcode =
     push_bit 25 (funct7 AND 0x7F) OR push_bit 20 (rs2 AND 31) OR push_bit 15 (rs1 AND 31) OR push_bit 12 (funct3 AND 7) OR
     push_bit 7 (rd AND 31) OR (opcode AND 0x7F)"

definition ENCS :: "u32 \<Rightarrow> u32 \<Rightarrow> u32 \<Rightarrow> u32 \<Rightarrow> u32 \<Rightarrow> u32" where
  "ENCS imm12 rs2 rs1 funct3 opcode =
     (let imm11_5 = drop_bit 5 imm12 AND 0x7F; imm4_0 = imm12 AND 0x1F
      in push_bit 25 imm11_5 OR push_bit 20 (rs2 AND 31) OR push_bit 15 (rs1 AND 31) OR push_bit 12 (funct3 AND 7) OR
         push_bit 7 imm4_0 OR (opcode AND 0x7F))"

definition ENCU :: "u32 \<Rightarrow> u32 \<Rightarrow> u32 \<Rightarrow> u32" where
  "ENCU imm20 rd opcode = push_bit 12 (imm20 AND 0xFFFFF) OR push_bit 7 (rd AND 31) OR (opcode AND 0x7F)"

definition ENCUJ :: "u32 \<Rightarrow> u32 \<Rightarrow> u32 \<Rightarrow> u32" where
  "ENCUJ imm21 rd opcode =
     (let i = imm21 AND 0x001FFFFF;
          enc = push_bit 11 (i AND push_bit 20 1) OR push_bit 20 (i AND 0x000007FE) OR push_bit 9 (i AND push_bit 11 1) OR
            (i AND 0x000FF000)
      in enc OR push_bit 7 (rd AND 31) OR (opcode AND 0x7F))"

definition ENCB :: "u32 \<Rightarrow> u32 \<Rightarrow> u32 \<Rightarrow> u32 \<Rightarrow> u32 \<Rightarrow> u32" where
  "ENCB imm13 rs2 rs1 funct3 opcode =
     (let i = imm13 AND 0x1FFF;
          imm12 = drop_bit 12 i AND 1;
          imm10_5 = drop_bit 5 i AND 0x3F;
          imm4_1 = drop_bit 1 i AND 0xF;
          imm11 = drop_bit 11 i AND 1
      in push_bit 31 imm12 OR push_bit 25 imm10_5 OR push_bit 20 (rs2 AND 31) OR push_bit 15 (rs1 AND 31) OR
         push_bit 12 (funct3 AND 7) OR push_bit 8 imm4_1 OR push_bit 7 imm11 OR (opcode AND 0x7F))"

record DecompResult =
  instr32 :: u32
  dsize :: u8
  illegal :: bool

text \<open>The immediates that several instructions share.\<close>

definition imm_ci :: "u32 \<Rightarrow> u32" where
  "imm_ci h = sext_imm (push_bit 5 (rvc_bit h 12) OR rvc_bits h 6 2) 6"

definition shamt_ci :: "u32 \<Rightarrow> u32" where
  "shamt_ci h = push_bit 5 (rvc_bit h 12) OR rvc_bits h 6 2"

definition uimm_cl_w :: "u32 \<Rightarrow> u32" where
  "uimm_cl_w h = push_bit 6 (rvc_bit h 5) OR push_bit 3 (rvc_bits h 12 10) OR push_bit 2 (rvc_bit h 6)"

definition uimm_cl_d :: "u32 \<Rightarrow> u32" where
  "uimm_cl_d h = push_bit 3 (rvc_bits h 12 10) OR push_bit 6 (rvc_bits h 6 5)"

definition uimm_ldsp :: "u32 \<Rightarrow> u32" where
  "uimm_ldsp h = push_bit 5 (rvc_bit h 12) OR push_bit 3 (rvc_bits h 6 5) OR push_bit 6 (rvc_bits h 4 2)"

definition uimm_sdsp :: "u32 \<Rightarrow> u32" where
  "uimm_sdsp h = push_bit 3 (rvc_bits h 12 10) OR push_bit 6 (rvc_bits h 9 7)"

definition imm_cj :: "u32 \<Rightarrow> u32" where
  "imm_cj h = sext_imm (push_bit 11 (rvc_bit h 12) OR push_bit 10 (rvc_bit h 8) OR push_bit 8 (rvc_bits h 10 9) OR
     push_bit 7 (rvc_bit h 6) OR push_bit 6 (rvc_bit h 7) OR push_bit 5 (rvc_bit h 2) OR push_bit 4 (rvc_bit h 11) OR
     push_bit 1 (rvc_bits h 5 3)) 12 AND 0x001FFFFF"

definition imm_cb :: "u32 \<Rightarrow> u32" where
  "imm_cb h = sext_imm (push_bit 8 (rvc_bit h 12) OR push_bit 7 (rvc_bit h 6) OR push_bit 6 (rvc_bit h 5) OR
     push_bit 5 (rvc_bit h 2) OR push_bit 3 (rvc_bits h 11 10) OR push_bit 1 (rvc_bits h 4 3)) 9 AND 0x1FFF"

text \<open>The three quadrants; \<open>None\<close> is a reserved or unsupported pattern.\<close>

definition rvc_q0 :: "u32 \<Rightarrow> u32 option" where
  "rvc_q0 h =
     (let funct3 = drop_bit 13 h AND 7; rd' = rcp (rvc_bits h 4 2); rs1' = rcp (rvc_bits h 9 7)
      in if funct3 = 0 then
           (let nzuimm = push_bit 4 (rvc_bits h 12 11) OR push_bit 6 (rvc_bits h 10 7) OR push_bit 3 (rvc_bit h 5) OR
              push_bit 2 (rvc_bit h 6)
            in if nzuimm = 0 then None else Some (ENCI nzuimm 2 0 rd' 0b0010011))
         else if funct3 = 1 then Some (ENCI (uimm_cl_d h) rs1' 3 rd' 0b0000111)
         else if funct3 = 2 then Some (ENCI (uimm_cl_w h) rs1' 2 rd' 0b0000011)
         else if funct3 = 3 then Some (ENCI (uimm_cl_d h) rs1' 3 rd' 0b0000011)
         else if funct3 = 5 then Some (ENCS (uimm_cl_d h) rd' rs1' 3 0b0100111)
         else if funct3 = 6 then Some (ENCS (uimm_cl_w h) rd' rs1' 2 0b0100011)
         else if funct3 = 7 then Some (ENCS (uimm_cl_d h) rd' rs1' 3 0b0100011)
         else None)"

definition rvc_q1_alu :: "u32 \<Rightarrow> u32 option" where
  "rvc_q1_alu h =
     (let subfunct = rvc_bits h 11 10; rd' = rcp (rvc_bits h 9 7)
      in if subfunct = 0 then Some (ENCI (shamt_ci h) rd' 5 rd' 0b0010011)
         else if subfunct = 1 then Some (ENCI (shamt_ci h) rd' 5 rd' 0b0010011 OR 0x40000000)
         else if subfunct = 2 then Some (ENCI (imm_ci h AND 0xFFF) rd' 7 rd' 0b0010011)
         else
           (let rs2' = rcp (rvc_bits h 4 2); op2 = rvc_bits h 6 5
            in if rvc_bit h 12 = 0 then
                 (if op2 = 0 then Some (ENCR 0b0100000 rs2' rd' 0 rd' 0b0110011)
                  else if op2 = 1 then Some (ENCR 0 rs2' rd' 4 rd' 0b0110011)
                  else if op2 = 2 then Some (ENCR 0 rs2' rd' 6 rd' 0b0110011)
                  else Some (ENCR 0 rs2' rd' 7 rd' 0b0110011))
               else
                 (if op2 = 0 then Some (ENCR 0b0100000 rs2' rd' 0 rd' 0b0111011)
                  else if op2 = 1 then Some (ENCR 0 rs2' rd' 0 rd' 0b0111011)
                  else None)))"

definition rvc_q1 :: "u32 \<Rightarrow> u32 option" where
  "rvc_q1 h =
     (let funct3 = drop_bit 13 h AND 7; rd = rvc_bits h 11 7
      in if funct3 = 0 then
           (if rd = 0 \<and> imm_ci h = 0 then Some (ENCI 0 0 0 0 0b0010011) else Some (ENCI (imm_ci h AND 0xFFF) rd 0 rd 0b0010011))
         else if funct3 = 1 then (if rd = 0 then None else Some (ENCI (imm_ci h AND 0xFFF) rd 0 rd 0b0011011))
         else if funct3 = 2 then Some (ENCI (imm_ci h AND 0xFFF) 0 0 rd 0b0010011)
         else if funct3 = 3 then
           (if rd = 2 then
              (let imm = sext_imm (push_bit 9 (rvc_bit h 12) OR push_bit 4 (rvc_bit h 6) OR push_bit 6 (rvc_bit h 5) OR
                 push_bit 7 (rvc_bits h 4 3) OR push_bit 5 (rvc_bit h 2)) 10
               in if imm = 0 then None else Some (ENCI (imm AND 0xFFF) 2 0 2 0b0010011))
            else
              (let imm = sext_imm (push_bit 17 (rvc_bit h 12) OR push_bit 12 (rvc_bits h 6 2)) 18
               in if rd = 0 \<or> rd = 2 \<or> imm = 0 then None else Some (ENCU (signed_drop_bit 12 imm) rd 0b0110111)))
         else if funct3 = 4 then rvc_q1_alu h
         else if funct3 = 5 then Some (ENCUJ (imm_cj h) 0 0b1101111)
         else if funct3 = 6 then Some (ENCB (imm_cb h) 0 (rcp (rvc_bits h 9 7)) 0 0b1100011)
         else Some (ENCB (imm_cb h) 0 (rcp (rvc_bits h 9 7)) 1 0b1100011))"

definition rvc_q2_cr :: "u32 \<Rightarrow> u32 option" where
  "rvc_q2_cr h =
     (let rd = rvc_bits h 11 7; rs2 = rvc_bits h 6 2; s12 = rvc_bit h 12
      in if rs2 = 0 then
           (if s12 = 0 then (if rd = 0 then None else Some (ENCI 0 rd 0 0 0b1100111))
            else if rd = 0 then Some 0x00100073 else Some (ENCI 0 rd 0 1 0b1100111))
         else if rd = 0 then None
         else if s12 = 0 then Some (ENCR 0 rs2 0 0 rd 0b0110011)
         else Some (ENCR 0 rs2 rd 0 rd 0b0110011))"

definition rvc_q2 :: "u32 \<Rightarrow> u32 option" where
  "rvc_q2 h =
     (let funct3 = drop_bit 13 h AND 7; rd = rvc_bits h 11 7; rs2 = rvc_bits h 6 2
      in if funct3 = 0 then (if rd = 0 then None else Some (ENCI (shamt_ci h) rd 1 rd 0b0010011))
         else if funct3 = 1 then Some (ENCI (uimm_ldsp h) 2 3 rd 0b0000111)
         else if funct3 = 2 then
           (if rd = 0 then None
            else Some (ENCI (push_bit 5 (rvc_bit h 12) OR push_bit 2 (rvc_bits h 6 4) OR push_bit 6 (rvc_bits h 3 2)) 2 2 rd 0b0000011))
         else if funct3 = 3 then (if rd = 0 then None else Some (ENCI (uimm_ldsp h) 2 3 rd 0b0000011))
         else if funct3 = 4 then rvc_q2_cr h
         else if funct3 = 5 then Some (ENCS (uimm_sdsp h) rs2 2 3 0b0100111)
         else if funct3 = 6 then Some (ENCS (push_bit 2 (rvc_bits h 12 9) OR push_bit 6 (rvc_bits h 8 7)) rs2 2 2 0b0100011)
         else Some (ENCS (uimm_sdsp h) rs2 2 3 0b0100011))"

definition rvc_decompress :: "u32 \<Rightarrow> DecompResult" where
  "rvc_decompress word =
     (if word AND 3 = 3 then \<lparr>instr32 = word, dsize = 4, illegal = False\<rparr>
      else
        (let h = word AND 0xFFFF; quadrant = h AND 3;
             r = (if quadrant = 0 then rvc_q0 h else if quadrant = 1 then rvc_q1 h else rvc_q2 h)
         in case r of None \<Rightarrow> \<lparr>instr32 = 0, dsize = 2, illegal = True\<rparr>
            | Some i \<Rightarrow> \<lparr>instr32 = i, dsize = 2, illegal = False\<rparr>))"

text \<open>The fetch state machine. A trace is the warp it belongs to and its program counter.\<close>

record RvcSlot =
  needs_second :: bool
  low_half :: u16
  inst_pc :: u64

definition rvc_slot0 :: RvcSlot where
  "rvc_slot0 = \<lparr>needs_second = False, low_half = 0, inst_pc = 0\<rparr>"

record fetch_trace =
  ft_wid :: nat
  ft_PC :: u64

record decompressor =
  rvc_state :: "RvcSlot list"
  refetch_queue :: "fetch_trace list"

definition decompressor_new :: "nat \<Rightarrow> decompressor" where
  "decompressor_new num_warps = \<lparr>rvc_state = replicate num_warps rvc_slot0, refetch_queue = []\<rparr>"

definition decompressor_on_reset :: "decompressor \<Rightarrow> decompressor" where
  "decompressor_on_reset D = \<lparr>rvc_state = map (\<lambda>_. rvc_slot0) (rvc_state D), refetch_queue = []\<rparr>"

record Pick =
  pick_trace :: fetch_trace
  pick_addr :: u64
  from_refetch :: bool

text \<open>No trace, inside the option, is the null pointer of a pick that found nothing to send.\<close>

definition pick_request :: "decompressor \<Rightarrow> fetch_trace option \<Rightarrow> Pick option option" where
  "pick_request D head =
     (case refetch_queue D of
        t # _ \<Rightarrow> do {
          s \<leftarrow> lat (rvc_state D) (ft_wid t);
          Some (Some \<lparr>pick_trace = t, pick_addr = (inst_pc s AND NOT 3) + 4, from_refetch = True\<rparr>) }
      | [] \<Rightarrow>
          Some (case head of None \<Rightarrow> None
            | Some t \<Rightarrow> Some \<lparr>pick_trace = t, pick_addr = ft_PC t AND NOT 3, from_refetch = False\<rparr>))"

definition commit_request :: "decompressor \<Rightarrow> bool \<Rightarrow> decompressor" where
  "commit_request D re = (if re \<and> refetch_queue D \<noteq> [] then D\<lparr>refetch_queue := tl (refetch_queue D)\<rparr> else D)"

definition fetch_addr :: "decompressor \<Rightarrow> fetch_trace \<Rightarrow> u64 option" where
  "fetch_addr D t = do {
     s \<leftarrow> lat (rvc_state D) (ft_wid t);
     Some (if needs_second s then (inst_pc s AND NOT 3) + 4 else ft_PC t AND NOT 3) }"

text \<open>The word at an offset of a line, in the byte order of the host.\<close>

definition line_word :: "u8 list \<Rightarrow> nat \<Rightarrow> u32 option" where
  "line_word line i = do {
     a \<leftarrow> lat line i; b \<leftarrow> lat line (i + 1); c \<leftarrow> lat line (i + 2); d \<leftarrow> lat line (i + 3);
     Some (ucast a OR push_bit 8 (ucast b) OR push_bit 16 (ucast c) OR push_bit 24 (ucast d)) }"

text \<open>The code of the instruction when it is complete, and \<open>None\<close> inside the option when the second half is to be fetched.\<close>

definition on_icache_rsp :: "u64 \<Rightarrow> decompressor \<Rightarrow> fetch_trace \<Rightarrow> u8 list \<Rightarrow> (u32 option \<times> decompressor) option" where
  "on_icache_rsp block_size D t line = do {
     a \<leftarrow> fetch_addr D t;
     word \<leftarrow> line_word line (unat (ucast (a AND (block_size - 1)) :: u32));
     s \<leftarrow> lat (rvc_state D) (ft_wid t);
     if needs_second s then do {
       st \<leftarrow> lset (rvc_state D) (ft_wid t) rvc_slot0;
       Some (Some (push_bit 16 (word AND 0xFFFF) OR ucast (low_half s)), D\<lparr>rvc_state := st\<rparr>) }
     else do {
       let hword = (if ft_PC t AND 2 \<noteq> 0 then drop_bit 16 word else word AND 0xFFFF);
       if hword AND 3 \<noteq> 3 then Some (Some hword, D)
       else if ft_PC t AND 2 = 0 then Some (Some word, D)
       else do {
         st \<leftarrow> lset (rvc_state D) (ft_wid t) \<lparr>needs_second = True, low_half = ucast (drop_bit 16 word), inst_pc = ft_PC t\<rparr>;
         Some (None, D\<lparr>rvc_state := st, refetch_queue := refetch_queue D @ [t]\<rparr>) } } }"

end
