(* ===== verification/Decode.thy ===== *)
theory Decode
  imports Instr Decompressor
begin

text \<open>
  The instruction decoder, \<open>sim/simx/decode.cpp\<close>, in the 64-bit build without the tensor unit. The other
  extensions of the build are flags of \<open>dec_cfg\<close>, and so is the environment variable that makes the
  doctrine check of the graphics instructions strict. A result \<open>None\<close> is an abort or a failed assertion.
\<close>

record dec_cfg =
  ext_dxa :: bool
  ext_dsmem :: bool
  ext_tex :: bool
  ext_om :: bool
  ext_rtu :: bool
  ext_raster :: bool
  strict_doctrine :: bool

text \<open>The graphics window is built whenever one of the blocks that share it is.\<close>

definition gfx_window :: "dec_cfg \<Rightarrow> bool" where
  "gfx_window d \<longleftrightarrow> ext_om d \<or> ext_tex d \<or> ext_rtu d \<or> ext_raster d"

definition sext :: "u32 \<Rightarrow> nat \<Rightarrow> u32" where
  "sext word width =
     (if width = 32 then word
      else let mask = push_bit width 1 - 1
        in if drop_bit (width - 1) word AND 1 \<noteq> 0 then word OR NOT mask else word AND mask)"

definition Opcode_R :: u32 where "Opcode_R = 0b0110011"
definition Opcode_L :: u32 where "Opcode_L = 0b0000011"
definition Opcode_I :: u32 where "Opcode_I = 0b0010011"
definition Opcode_S :: u32 where "Opcode_S = 0b0100011"
definition Opcode_B :: u32 where "Opcode_B = 0b1100011"
definition Opcode_LUI :: u32 where "Opcode_LUI = 0b0110111"
definition Opcode_AUIPC :: u32 where "Opcode_AUIPC = 0b0010111"
definition Opcode_JAL :: u32 where "Opcode_JAL = 0b1101111"
definition Opcode_JALR :: u32 where "Opcode_JALR = 0b1100111"
definition Opcode_SYS :: u32 where "Opcode_SYS = 0b1110011"
definition Opcode_FENCE :: u32 where "Opcode_FENCE = 0b0001111"
definition Opcode_AMO :: u32 where "Opcode_AMO = 0b0101111"
definition Opcode_FL :: u32 where "Opcode_FL = 0b0000111"
definition Opcode_FS :: u32 where "Opcode_FS = 0b0100111"
definition Opcode_FCI :: u32 where "Opcode_FCI = 0b1010011"
definition Opcode_FMADD :: u32 where "Opcode_FMADD = 0b1000011"
definition Opcode_FMSUB :: u32 where "Opcode_FMSUB = 0b1000111"
definition Opcode_FNMSUB :: u32 where "Opcode_FNMSUB = 0b1001011"
definition Opcode_FNMADD :: u32 where "Opcode_FNMADD = 0b1001111"
definition Opcode_R_W :: u32 where "Opcode_R_W = 0b0111011"
definition Opcode_I_W :: u32 where "Opcode_I_W = 0b0011011"
definition Opcode_EXT1 :: u32 where "Opcode_EXT1 = 0b0001011"
definition Opcode_EXT2 :: u32 where "Opcode_EXT2 = 0b0101011"

lemmas opcode_defs = Opcode_R_def Opcode_L_def Opcode_I_def Opcode_S_def Opcode_B_def Opcode_LUI_def Opcode_AUIPC_def
  Opcode_JAL_def Opcode_JALR_def Opcode_SYS_def Opcode_FENCE_def Opcode_AMO_def Opcode_FL_def Opcode_FS_def Opcode_FCI_def
  Opcode_FMADD_def Opcode_FMSUB_def Opcode_FNMSUB_def Opcode_FNMADD_def Opcode_R_W_def Opcode_I_W_def Opcode_EXT1_def Opcode_EXT2_def

text \<open>The fields of an instruction word.\<close>

definition f_opcode :: "u32 \<Rightarrow> u32" where "f_opcode code = code AND 0x7F"
definition f_funct2 :: "u32 \<Rightarrow> u32" where "f_funct2 code = drop_bit 25 code AND 3"
definition f_funct3 :: "u32 \<Rightarrow> u32" where "f_funct3 code = drop_bit 12 code AND 7"
definition f_funct5 :: "u32 \<Rightarrow> u32" where "f_funct5 code = drop_bit 27 code AND 31"
definition f_funct7 :: "u32 \<Rightarrow> u32" where "f_funct7 code = drop_bit 25 code AND 0x7F"
definition f_rd :: "u32 \<Rightarrow> u32" where "f_rd code = drop_bit 7 code AND 31"
definition f_rs1 :: "u32 \<Rightarrow> u32" where "f_rs1 code = drop_bit 15 code AND 31"
definition f_rs2 :: "u32 \<Rightarrow> u32" where "f_rs2 code = drop_bit 20 code AND 31"
definition f_rs3 :: "u32 \<Rightarrow> u32" where "f_rs3 code = drop_bit 27 code AND 31"

definition decode_upper :: "u32 \<Rightarrow> Instr \<Rightarrow> Instr" where
  "decode_upper code i =
     (let imm20 = push_bit 12 (drop_bit 12 code)
      in set_dest_reg (f_rd code) RegInteger (set_args (alu_args True False imm20)
         (set_op_type (OpAlu (if f_opcode code = Opcode_LUI then ALU_LUI else ALU_AUIPC)) i)))"

definition decode_mdv :: "u32 \<Rightarrow> MdvType" where
  "decode_mdv funct3 =
     (if funct3 = 0 then MDV_MUL else if funct3 = 1 then MDV_MULH else if funct3 = 2 then MDV_MULHSU else if funct3 = 3 then MDV_MULHU
      else if funct3 = 4 then MDV_DIV else if funct3 = 5 then MDV_DIVU else if funct3 = 6 then MDV_REM else MDV_REMU)"

definition decode_alu_op :: "bool \<Rightarrow> u32 \<Rightarrow> u32 \<Rightarrow> AluType" where
  "decode_alu_op is_imm funct3 funct7 =
     (if funct3 = 0 then (if \<not> is_imm \<and> funct7 = 0x20 then ALU_SUB else ALU_ADD)
      else if funct3 = 1 then ALU_SLL else if funct3 = 2 then ALU_SLT else if funct3 = 3 then ALU_SLTU else if funct3 = 4 then ALU_XOR
      else if funct3 = 5 then (if drop_bit 1 funct7 = 0x10 then ALU_SRA else ALU_SRL)
      else if funct3 = 6 then ALU_OR else ALU_AND)"

definition decode_alu :: "u32 \<Rightarrow> Instr \<Rightarrow> Instr option" where
  "decode_alu code i =
     (let opc = f_opcode code; funct3 = f_funct3 code; funct7 = f_funct7 code;
          is_w = (opc = Opcode_R_W \<or> opc = Opcode_I_W); is_imm = (opc = Opcode_I \<or> opc = Opcode_I_W)
      in do {
        i \<leftarrow> (if opc = Opcode_R \<and> funct7 = 7 then
            (if funct3 = 5 then Some (set_args (alu_args False False 0) (set_op_type (OpAlu ALU_CZERO) i))
             else if funct3 = 7 then Some (set_args (alu_args False False 1) (set_op_type (OpAlu ALU_CZERO) i))
             else None)
          else if (opc = Opcode_R \<or> opc = Opcode_R_W) \<and> funct7 AND 1 \<noteq> 0 then
            Some (set_args (ArgsMdv is_w) (set_op_type (OpMdv (decode_mdv funct3)) i))
          else
            (let imm = (if funct3 = 1 \<or> funct3 = 5 then f_rs2 code OR push_bit 5 (funct7 AND 1) else sext (drop_bit 20 code) 12)
             in Some (set_args (alu_args is_imm is_w imm) (set_op_type (OpAlu (decode_alu_op is_imm funct3 funct7)) i))));
        let i = set_src_reg 0 (f_rs1 code) RegInteger (set_dest_reg (f_rd code) RegInteger i);
        Some (if is_imm then i else set_src_reg 1 (f_rs2 code) RegInteger i) })"

definition decode_branch :: "u32 \<Rightarrow> bool \<Rightarrow> Instr \<Rightarrow> Instr" where
  "decode_branch code is_rvc i =
     (let rd = f_rd code; funct7 = f_funct7 code;
          imm12 = push_bit 1 (drop_bit 1 rd) OR push_bit 5 (funct7 AND 0x3F) OR push_bit 11 (rd AND 1) OR push_bit 12 (drop_bit 6 funct7)
      in set_wstall True (set_src_reg 1 (f_rs2 code) RegInteger (set_src_reg 0 (f_rs1 code) RegInteger
         (set_args (br_args (f_funct3 code) is_rvc (sext imm12 13)) (set_op_type (OpBr BR_BR) i)))))"

definition decode_jal :: "u32 \<Rightarrow> bool \<Rightarrow> Instr \<Rightarrow> Instr" where
  "decode_jal code is_rvc i =
     (let unordered = drop_bit 12 code;
          bits_19_12 = unordered AND 0xFF;
          bit_11 = drop_bit 8 unordered AND 1;
          bits_10_1 = drop_bit 9 unordered AND 0x3FF;
          bit_20 = drop_bit 19 unordered AND 1;
          imm20 = push_bit 1 bits_10_1 OR push_bit 11 bit_11 OR push_bit 12 bits_19_12 OR push_bit 20 bit_20
      in set_wstall True (set_dest_reg (f_rd code) RegInteger
         (set_args (br_args 0 is_rvc (sext imm20 21)) (set_op_type (OpBr BR_JAL) i))))"

definition decode_jalr :: "u32 \<Rightarrow> bool \<Rightarrow> Instr \<Rightarrow> Instr" where
  "decode_jalr code is_rvc i =
     set_wstall True (set_src_reg 0 (f_rs1 code) RegInteger (set_dest_reg (f_rd code) RegInteger
       (set_args (br_args 0 is_rvc (sext (drop_bit 20 code) 12)) (set_op_type (OpBr BR_JALR) i))))"

definition decode_mem :: "u32 \<Rightarrow> Instr \<Rightarrow> Instr" where
  "decode_mem code i =
     (let opc = f_opcode code; is_float = (opc = Opcode_FL \<or> opc = Opcode_FS); is_load = (opc = Opcode_L \<or> opc = Opcode_FL);
          ty = (if is_float then RegFloat else RegInteger);
          i = set_src_reg 0 (f_rs1 code) RegInteger (set_fu_type FU_LSU i);
          imm12 = (if is_load then drop_bit 20 code else push_bit 5 (f_funct7 code) OR f_rd code);
          i = (if is_load then set_dest_reg (f_rd code) ty i else set_src_reg 1 (f_rs2 code) ty i)
      in set_args (lsu_args (f_funct3 code) 0 (sext imm12 12)) (set_op_type (OpLsu (if is_load then LSU_LOAD else LSU_STORE)) i))"

definition decode_amo_op :: "u32 \<Rightarrow> AmoType option" where
  "decode_amo_op funct5 =
     (if funct5 = 0x00 then Some AMO_AMOADD else if funct5 = 0x01 then Some AMO_AMOSWAP else if funct5 = 0x02 then Some AMO_LR
      else if funct5 = 0x03 then Some AMO_SC else if funct5 = 0x04 then Some AMO_AMOXOR else if funct5 = 0x08 then Some AMO_AMOOR
      else if funct5 = 0x0C then Some AMO_AMOAND else if funct5 = 0x10 then Some AMO_AMOMIN else if funct5 = 0x14 then Some AMO_AMOMAX
      else if funct5 = 0x18 then Some AMO_AMOMINU else if funct5 = 0x1C then Some AMO_AMOMAXU else None)"

definition decode_amo :: "u32 \<Rightarrow> Instr \<Rightarrow> Instr option" where
  "decode_amo code i = do {
     let aq = drop_bit 26 code AND 1;
     let rl = drop_bit 25 code AND 1;
     t \<leftarrow> decode_amo_op (f_funct5 code);
     Some (set_src_reg 1 (f_rs2 code) RegInteger (set_src_reg 0 (f_rs1 code) RegInteger (set_dest_reg (f_rd code) RegInteger
       (set_args (amo_args (f_funct3 code) aq rl) (set_op_type (OpAmo t) (set_fu_type FU_LSU i)))))) }"

definition decode_sys :: "u32 \<Rightarrow> Instr \<Rightarrow> Instr option" where
  "decode_sys code i =
     (let funct3 = f_funct3 code; imm12 = drop_bit 20 code
      in if funct3 \<noteq> 0 then do {
           let i = set_dest_reg (f_rd code) RegInteger (set_fu_type FU_SFU i);
           t \<leftarrow> (if funct3 = 1 \<or> funct3 = 5 then Some CSRRW else if funct3 = 2 \<or> funct3 = 6 then Some CSRRS
             else if funct3 = 3 \<or> funct3 = 7 then Some CSRRC else None);
           let i = set_op_type (OpCsr t) i;
           Some (if funct3 < 5 then set_args (csr_args False 0 imm12) (set_src_reg 0 (f_rs1 code) RegInteger i)
             else set_args (csr_args True (f_rs1 code) imm12) i) }
         else Some (set_wstall True (set_args (br_args 0 False imm12) (set_op_type (OpBr BR_SYS) i))))"

text \<open>Floating-point operations: the operation and the types of destination and sources.\<close>

definition decode_fci :: "u32 \<Rightarrow> Instr \<Rightarrow> Instr option" where
  "decode_fci code i =
     (let funct7 = f_funct7 code; rd = f_rd code; rs1 = f_rs1 code; rs2 = f_rs2 code;
          i = set_args (fpu_args (f_funct3 code) rs2 (funct7 AND 1)) (set_fu_type FU_FPU i);
          fff = (\<lambda>t. Some (set_src_reg 1 rs2 RegFloat (set_src_reg 0 rs1 RegFloat (set_dest_reg rd RegFloat (set_op_type (OpFpu t) i)))));
          ff = (\<lambda>t. Some (set_src_reg 0 rs1 RegFloat (set_dest_reg rd RegFloat (set_op_type (OpFpu t) i))))
      in if funct7 = 0x00 \<or> funct7 = 0x01 then fff FPU_FADD
         else if funct7 = 0x04 \<or> funct7 = 0x05 then fff FPU_FSUB
         else if funct7 = 0x08 \<or> funct7 = 0x09 then fff FPU_FMUL
         else if funct7 = 0x10 \<or> funct7 = 0x11 then fff FPU_FSGNJ
         else if funct7 = 0x14 \<or> funct7 = 0x15 then fff FPU_FMINMAX
         else if funct7 = 0x0C \<or> funct7 = 0x0D then fff FPU_FDIV
         else if funct7 = 0x20 \<or> funct7 = 0x21 then ff FPU_F2F
         else if funct7 = 0x2C \<or> funct7 = 0x2D then ff FPU_FSQRT
         else if funct7 = 0x50 \<or> funct7 = 0x51 then
           Some (set_src_reg 1 rs2 RegFloat (set_src_reg 0 rs1 RegFloat (set_dest_reg rd RegInteger (set_op_type (OpFpu FPU_FCMP) i))))
         else if funct7 = 0x60 \<or> funct7 = 0x61 then
           Some (set_src_reg 1 rs2 RegNone (set_src_reg 0 rs1 RegFloat (set_dest_reg rd RegInteger (set_op_type (OpFpu FPU_F2I) i))))
         else if funct7 = 0x68 \<or> funct7 = 0x69 then
           Some (set_src_reg 1 rs2 RegNone (set_src_reg 0 rs1 RegInteger (set_dest_reg rd RegFloat (set_op_type (OpFpu FPU_I2F) i))))
         else if funct7 = 0x70 \<or> funct7 = 0x71 then
           Some (set_src_reg 0 rs1 RegFloat (set_dest_reg rd RegInteger
             (set_op_type (OpFpu (if f_funct3 code \<noteq> 0 then FPU_FCLASS else FPU_FMVXW)) i)))
         else if funct7 = 0x78 \<or> funct7 = 0x79 then
           Some (set_src_reg 0 rs1 RegInteger (set_dest_reg rd RegFloat (set_op_type (OpFpu FPU_FMVWX) i)))
         else None)"

definition decode_fma :: "u32 \<Rightarrow> Instr \<Rightarrow> Instr" where
  "decode_fma code i =
     (let opc = f_opcode code;
          t = (if opc = Opcode_FMADD then FPU_FMADD else if opc = Opcode_FMSUB then FPU_FMSUB
            else if opc = Opcode_FNMADD then FPU_FNMADD else FPU_FNMSUB)
      in set_src_reg 2 (f_rs3 code) RegFloat (set_src_reg 1 (f_rs2 code) RegFloat (set_src_reg 0 (f_rs1 code) RegFloat
         (set_dest_reg (f_rd code) RegFloat (set_args (fpu_args (f_funct3 code) (f_funct2 code) (f_funct7 code AND 1))
           (set_op_type (OpFpu t) (set_fu_type FU_FPU i)))))))"

definition decode_wctl :: "u32 \<Rightarrow> Instr \<Rightarrow> Instr" where
  "decode_wctl code i =
     (let funct3 = f_funct3 code; rd = f_rd code; rs1 = f_rs1 code; rs2 = f_rs2 code;
          i = set_fu_type FU_SFU i;
          s1 = set_src_reg 0 rs1 RegInteger; s2 = set_src_reg 1 rs2 RegInteger; a = wctl_args0
      in if funct3 = 0 then set_args (ArgsWctl a) (set_wstall True (s1 (set_op_type (OpWctl TMC) i)))
         else if funct3 = 1 then set_args (ArgsWctl a) (set_wstall True (s2 (s1 (set_op_type (OpWctl WSPAWN) i))))
         else if funct3 = 2 then
           set_args (ArgsWctl (a\<lparr>is_cond_neg := rs2 \<noteq> 0\<rparr>)) (set_wstall True (s1 (set_dest_reg rd RegInteger (set_op_type (OpWctl SPLIT) i))))
         else if funct3 = 3 then set_args (ArgsWctl a) (set_wstall True (s1 (set_op_type (OpWctl JOIN) i)))
         else if funct3 = 4 then
           set_args (ArgsWctl (a\<lparr>is_sync_bar := True, is_bar_arrive := False\<rparr>)) (set_wstall True (s2 (s1 (set_op_type (OpWctl BAR) i))))
         else if funct3 = 5 then
           set_args (ArgsWctl (a\<lparr>is_cond_neg := rd \<noteq> 0\<rparr>)) (set_wstall True (s2 (s1 (set_op_type (OpWctl PRED) i))))
         else if funct3 = 6 then
           set_args (ArgsWctl (a\<lparr>is_sync_bar := False, is_bar_arrive := rd \<noteq> 0\<rparr>))
             (set_wstall (rd = 0) (s2 (s1 (set_dest_reg rd RegInteger (set_op_type (OpWctl BAR) i)))))
         else set_args (ArgsWctl a) (set_wstall True (set_op_type (OpWctl WSYNC) i)))"

definition decode_vote :: "u32 \<Rightarrow> Instr \<Rightarrow> Instr" where
  "decode_vote code i =
     (let funct3 = f_funct3 code; i = set_src_reg 0 (f_rs1 code) RegInteger (set_dest_reg (f_rd code) RegInteger i);
          s2 = set_src_reg 1 (f_rs2 code) RegInteger
      in if funct3 = 0 then set_op_type (OpVote VOTE_ALL) i else if funct3 = 1 then set_op_type (OpVote VOTE_ANY) i
         else if funct3 = 2 then set_op_type (OpVote VOTE_UNI) i else if funct3 = 3 then set_op_type (OpVote VOTE_BAL) i
         else if funct3 = 4 then s2 (set_op_type (OpShfl SHFL_UP) i) else if funct3 = 5 then s2 (set_op_type (OpShfl SHFL_DOWN) i)
         else if funct3 = 6 then s2 (set_op_type (OpShfl SHFL_BFLY) i) else s2 (set_op_type (OpShfl SHFL_IDX) i))"

definition decode_pack :: "u32 \<Rightarrow> Instr \<Rightarrow> Instr option" where
  "decode_pack code i =
     (let funct3 = f_funct3 code;
          i = set_src_reg 1 (f_rs2 code) RegInteger (set_src_reg 0 (f_rs1 code) RegInteger (set_dest_reg (f_rd code) RegFloat
            (set_op_type (OpLsu LSU_LOAD) (set_fu_type FU_LSU i))))
      in if funct3 = 1 then Some (set_wstall True (set_macro_op (set_args (lsu_args 0 0 0) i)))
         else if funct3 = 2 then Some (set_wstall True (set_macro_op (set_args (lsu_args 1 0 0) i)))
         else None)"

definition decode_dxa :: "u32 \<Rightarrow> Instr \<Rightarrow> Instr" where
  "decode_dxa code i = set_src_reg 1 (f_rs2 code) RegInteger (set_src_reg 0 (f_rs1 code) RegInteger
     (set_op_type OpDxa (set_args ArgsDxa (set_fu_type FU_SFU i))))"

definition decode_dsmem :: "u32 \<Rightarrow> Instr \<Rightarrow> Instr" where
  "decode_dsmem code i =
     (let i = set_fu_type FU_SFU i; s1 = set_src_reg 0 (f_rs1 code) RegInteger; s2 = set_src_reg 1 (f_rs2 code) RegInteger
      in if f_funct7 code = 6 then
           set_wstall True (set_args (ArgsDsmem 0 0) (s1 (set_dest_reg (f_rd code) RegInteger (set_op_type (OpDsmem DSMEM_MAILBOX_READ) i))))
         else
           set_wstall True (set_args (ArgsDsmem 0 0) (s2 (s1 (set_dest_reg (f_rd code) RegInteger (set_op_type (OpDsmem DSMEM_READ) i))))))"

definition decode_ext1 :: "dec_cfg \<Rightarrow> u32 \<Rightarrow> Instr \<Rightarrow> Instr option" where
  "decode_ext1 d code i =
     (let funct7 = f_funct7 code
      in if funct7 = 0 then Some (decode_wctl code i)
         else if funct7 = 1 then Some (decode_vote code i)
         else if funct7 = 3 \<and> ext_dxa d then Some (decode_dxa code i)
         else if funct7 = 4 then decode_pack code i
         else if (funct7 = 5 \<or> funct7 = 6) \<and> ext_dsmem d then Some (decode_dsmem code i)
         else None)"

text \<open>The graphics instructions: which ones retire under a destination register.\<close>

datatype Handoff = Scoreboarded | SideEffectFree | KnownViolation | Unclassified

definition classify :: "OpType \<Rightarrow> Handoff" where
  "classify t = (case t of
     OpTex \<Rightarrow> Scoreboarded
   | OpOm _ \<Rightarrow> KnownViolation
   | OpRtu r \<Rightarrow> (case r of RT_CB_RET \<Rightarrow> SideEffectFree | RT_SETW \<Rightarrow> KnownViolation | _ \<Rightarrow> Scoreboarded)
   | _ \<Rightarrow> Unclassified)"

definition doctrine_check :: "dec_cfg \<Rightarrow> Instr \<Rightarrow> bool" where
  "doctrine_check d i \<longleftrightarrow> fu_type i \<noteq> FU_SFU \<or>
     (case classify (op_type i) of
        Scoreboarded \<Rightarrow> reg_type (rdest i) \<noteq> RegNone
      | SideEffectFree \<Rightarrow> True
      | KnownViolation \<Rightarrow> \<not> strict_doctrine d
      | Unclassified \<Rightarrow> False)"

definition windowed :: "u32 \<Rightarrow> Instr \<Rightarrow> Instr" where
  "windowed n i = (if n > 1 then set_wstall True (set_macro_op i) else i)"

definition decode_window :: "dec_cfg \<Rightarrow> u32 \<Rightarrow> Instr \<Rightarrow> Instr option" where
  "decode_window d code i =
     (let sub_op = f_funct2 code; i = set_fu_type FU_SFU i; s1 = set_src_reg 0 (f_rs1 code) RegInteger;
          slot = drop_bit 2 (f_funct7 code) AND 0x1F; count = f_rs2 code AND 0xF
      in if sub_op = 0 \<and> ext_rtu d then Some (set_args (rtu_args 0 0) (s1 (set_op_type (OpRtu RT_CB_RET) i)))
         else if sub_op = 1 then Some (set_args (rtu_args slot 0) (s1 (set_op_type (OpRtu RT_SETW) i)))
         else if sub_op = 2 then
           Some (windowed count (set_args (rtu_args slot count) (s1 (set_dest_reg (f_rd code) RegFloat (set_op_type (OpRtu RT_GETWF) i)))))
         else if sub_op = 3 then
           Some (windowed count (set_args (rtu_args slot count) (s1 (set_dest_reg (f_rd code) RegInteger (set_op_type (OpRtu RT_GETW) i)))))
         else None)"

definition decode_rtu :: "u32 \<Rightarrow> Instr \<Rightarrow> Instr option" where
  "decode_rtu code i =
     (let sub_op = f_funct2 code; i = set_fu_type FU_SFU i; s1 = set_src_reg 0 (f_rs1 code) RegInteger;
          mk = (\<lambda>t. set_args (rtu_args 0 0) (s1 (set_dest_reg (f_rd code) RegInteger (set_op_type (OpRtu t) i))))
      in if sub_op = 0 then Some (set_wstall True (set_macro_op (mk RT_TRACE2)))
         else if sub_op = 1 then Some (mk RT_WAIT2)
         else None)"

definition decode_wgather :: "u32 \<Rightarrow> Instr \<Rightarrow> Instr" where
  "decode_wgather code i =
     set_args (ArgsWgather (take_bit 2 (f_funct2 code))) (set_src_reg 2 (f_rs3 code) RegInteger (set_src_reg 1 (f_rs2 code) RegInteger
       (set_src_reg 0 (f_rs1 code) RegInteger (set_dest_reg (f_rd code) RegInteger (set_op_type OpWgather i)))))"

definition decode_tex :: "u32 \<Rightarrow> Instr \<Rightarrow> Instr" where
  "decode_tex code i =
     (let funct7 = f_funct7 code
      in set_args (ArgsTex \<lparr>tex_stage = drop_bit 1 funct7 AND 1, tex_is_tex4 = True, tex_mode = funct7 AND 1,
             tex_out_slot = drop_bit 2 funct7 AND 0x1F\<rparr>)
           (set_src_reg 1 (f_rs2 code) RegInteger (set_src_reg 0 (f_rs1 code) RegInteger (set_dest_reg (f_rd code) RegInteger
             (set_op_type OpTex (set_fu_type FU_SFU i))))))"

definition decode_om_write :: "u32 \<Rightarrow> Instr \<Rightarrow> Instr" where
  "decode_om_write code i = set_args (ArgsOm 0) (set_src_reg 1 (f_rs2 code) RegInteger (set_src_reg 0 (f_rs1 code) RegInteger
     (set_op_type (OpOm OM_WRITE) (set_fu_type FU_SFU i))))"

definition decode_om_export :: "u32 \<Rightarrow> Instr \<Rightarrow> Instr" where
  "decode_om_export code i =
     (let mask = f_funct7 code AND 3;
          i = set_args (ArgsOm mask) (set_src_reg 2 (f_rs3 code) RegInteger (set_src_reg 1 (f_rs2 code) RegInteger
            (set_src_reg 0 (f_rs1 code) RegInteger (set_op_type (OpOm OM_EXPORT) (set_fu_type FU_SFU i)))))
      in if mask = 3 then set_wstall True (set_macro_op i) else i)"

definition decode_getws :: "u32 \<Rightarrow> Instr \<Rightarrow> Instr" where
  "decode_getws code i =
     (let slot = drop_bit 2 (f_funct7 code) AND 0x1F; count = f_rs2 code AND 0xF
      in windowed count (set_args (rtu_args slot count) (set_src_reg 0 (f_rs1 code) RegInteger (set_dest_reg (f_rd code) RegInteger
           (set_op_type (OpRtu RT_GETWS) (set_fu_type FU_SFU i))))))"

definition decode_ext2 :: "dec_cfg \<Rightarrow> u32 \<Rightarrow> Instr \<Rightarrow> Instr option" where
  "decode_ext2 d code i =
     (let funct3 = f_funct3 code
      in do {
        i \<leftarrow> (if funct3 = 0 then Some (decode_wgather code i)
          else if funct3 = 5 \<and> ext_tex d then Some (decode_tex code i)
          else if funct3 = 2 \<and> ext_om d then Some (decode_om_write code i)
          else if funct3 = 3 \<and> ext_om d then Some (decode_om_export code i)
          else if funct3 = 4 \<and> gfx_window d then Some (decode_getws code i)
          else if funct3 = 6 \<and> gfx_window d then decode_window d code i
          else if funct3 = 7 \<and> ext_rtu d then decode_rtu code i
          else None);
        check (doctrine_check d i);
        Some i })"

lemmas decode_ext2_defs = decode_ext2_def decode_wgather_def decode_tex_def decode_om_write_def decode_om_export_def decode_getws_def
  decode_window_def decode_rtu_def windowed_def

definition decode_fence :: "Instr \<Rightarrow> Instr" where
  "decode_fence i = set_args (lsu_args 0 0 0) (set_op_type (OpLsu LSU_FENCE) (set_fu_type FU_LSU i))"

definition decode32 :: "dec_cfg \<Rightarrow> u32 \<Rightarrow> bool \<Rightarrow> Instr \<Rightarrow> Instr option" where
  "decode32 d code is_rvc i =
     (let opc = f_opcode code
      in if opc = Opcode_LUI \<or> opc = Opcode_AUIPC then Some (decode_upper code i)
         else if opc = Opcode_R_W \<or> opc = Opcode_I_W \<or> opc = Opcode_R \<or> opc = Opcode_I then decode_alu code i
         else if opc = Opcode_B then Some (decode_branch code is_rvc i)
         else if opc = Opcode_JAL then Some (decode_jal code is_rvc i)
         else if opc = Opcode_JALR then Some (decode_jalr code is_rvc i)
         else if opc = Opcode_L \<or> opc = Opcode_FL \<or> opc = Opcode_S \<or> opc = Opcode_FS then Some (decode_mem code i)
         else if opc = Opcode_FENCE then Some (decode_fence i)
         else if opc = Opcode_AMO then decode_amo code i
         else if opc = Opcode_SYS then decode_sys code i
         else if opc = Opcode_FCI then decode_fci code i
         else if opc = Opcode_FMADD \<or> opc = Opcode_FMSUB \<or> opc = Opcode_FNMADD \<or> opc = Opcode_FNMSUB then Some (decode_fma code i)
         else if opc = Opcode_EXT1 then decode_ext1 d code i
         else if opc = Opcode_EXT2 then decode_ext2 d code i
         else None)"

definition decode :: "dec_cfg \<Rightarrow> u32 \<Rightarrow> u64 \<Rightarrow> Instr option" where
  "decode d code uid = do {
     let is_rvc = (code AND 3 \<noteq> 3);
     code \<leftarrow> (if is_rvc then
         (let r = rvc_decompress (code AND 0xFFFF) in do { check (\<not> illegal r); Some (instr32 r) })
       else Some code);
     decode32 d code is_rvc (instr_new uid FU_ALU) }"

text \<open>The text of an instruction, as the trace prints it.\<close>

fun hex_digits :: "nat \<Rightarrow> string" where
  "hex_digits n = (let c = ''0123456789abcdef'' ! (n mod 16) in if n < 16 then [c] else hex_digits (n div 16) @ [c])"

fun dec_digits :: "nat \<Rightarrow> string" where
  "dec_digits n = (let c = ''0123456789'' ! (n mod 10) in if n < 10 then [c] else dec_digits (n div 10) @ [c])"

declare hex_digits.simps [simp del] dec_digits.simps [simp del]

definition to_hex_str :: "u32 \<Rightarrow> string" where
  "to_hex_str v = ''0x'' @ hex_digits (unat v)"

type_synonym op_string_t = "string \<times> string"

definition alu_string :: "AluType \<Rightarrow> IntrAluArgs \<Rightarrow> op_string_t" where
  "alu_string t a =
     (let h = to_hex_str (alu_imm a); w = (\<lambda>x y. if alu_is_w a then x else y);
          pick = (\<lambda>x y. if alu_is_imm a then (x, h) else (y, ''''))
      in case t of
        ALU_LUI \<Rightarrow> (''LUI'', h)
      | ALU_AUIPC \<Rightarrow> (''AUIPC'', h)
      | ALU_ADD \<Rightarrow> pick (w ''ADDIW'' ''ADDI'') (w ''ADDW'' ''ADD'')
      | ALU_SUB \<Rightarrow> pick (w ''SUBW'' ''SUB'') (w ''SUBW'' ''SUB'')
      | ALU_SLL \<Rightarrow> pick (w ''SLLIW'' ''SLLI'') (w ''SLLW'' ''SLL'')
      | ALU_SRL \<Rightarrow> pick (w ''SRLIW'' ''SRLI'') (w ''SRLW'' ''SRL'')
      | ALU_SRA \<Rightarrow> pick (w ''SRAIW'' ''SRAI'') (w ''SRAW'' ''SRA'')
      | ALU_SLT \<Rightarrow> pick ''SLTI'' ''SLT''
      | ALU_SLTU \<Rightarrow> pick ''SLTIU'' ''SLTU''
      | ALU_AND \<Rightarrow> pick ''ANDI'' ''AND''
      | ALU_OR \<Rightarrow> pick ''ORI'' ''OR''
      | ALU_XOR \<Rightarrow> pick ''XORI'' ''XOR''
      | ALU_CZERO \<Rightarrow> (if alu_imm a \<noteq> 0 then ''CZERO.NEZ'' else ''CZERO.EQZ'', ''''))"

definition br_string :: "BrType \<Rightarrow> IntrBrArgs \<Rightarrow> op_string_t option" where
  "br_string t a =
     (let h = to_hex_str (br_offset a); c = br_cmp a; off = br_offset a
      in case t of
        BR_BR \<Rightarrow> (if c = 0 then Some (''BEQ'', h) else if c = 1 then Some (''BNE'', h) else if c = 4 then Some (''BLT'', h)
          else if c = 5 then Some (''BGE'', h) else if c = 6 then Some (''BLTU'', h) else if c = 7 then Some (''BGEU'', h) else None)
      | BR_JAL \<Rightarrow> Some (''JAL'', h)
      | BR_JALR \<Rightarrow> Some (''JALR'', h)
      | BR_SYS \<Rightarrow> (if off = 0x000 then Some (''ECALL'', '''') else if off = 0x001 then Some (''EBREAK'', '''')
          else if off = 0x002 then Some (''URET'', '''') else if off = 0x102 then Some (''SRET'', '''')
          else if off = 0x302 then Some (''MRET'', '''') else None))"

definition mdv_string :: "MdvType \<Rightarrow> bool \<Rightarrow> op_string_t" where
  "mdv_string t w = (case t of
     MDV_MUL \<Rightarrow> (if w then ''MULW'' else ''MUL'', '''')
   | MDV_MULHU \<Rightarrow> (''MULHU'', '''')
   | MDV_MULH \<Rightarrow> (''MULH'', '''')
   | MDV_MULHSU \<Rightarrow> (''MULHSU'', '''')
   | MDV_DIV \<Rightarrow> (if w then ''DIVW'' else ''DIV'', '''')
   | MDV_DIVU \<Rightarrow> (if w then ''DIVUW'' else ''DIVU'', '''')
   | MDV_REM \<Rightarrow> (if w then ''REMW'' else ''REM'', '''')
   | MDV_REMU \<Rightarrow> (if w then ''REMUW'' else ''REMU'', ''''))"

definition fpu_string :: "FpuType \<Rightarrow> IntrFpuArgs \<Rightarrow> op_string_t option" where
  "fpu_string t a =
     (let d = (\<lambda>x y. Some (if fpu_is_f64 a then x else y, '''')); cvt = fpu_cvt a; frm = fpu_frm a
      in case t of
        FPU_FADD \<Rightarrow> d ''FADD.D'' ''FADD.S''
      | FPU_FSUB \<Rightarrow> d ''FSUB.D'' ''FSUB.S''
      | FPU_FMUL \<Rightarrow> d ''FMUL.D'' ''FMUL.S''
      | FPU_FDIV \<Rightarrow> d ''FDIV.D'' ''FDIV.S''
      | FPU_FSQRT \<Rightarrow> d ''FSQRT.D'' ''FSQRT.S''
      | FPU_FMADD \<Rightarrow> d ''FMADD.D'' ''FMADD.S''
      | FPU_FMSUB \<Rightarrow> d ''FMSUB.D'' ''FMSUB.S''
      | FPU_FNMADD \<Rightarrow> d ''FNMADD.D'' ''FNMADD.S''
      | FPU_FNMSUB \<Rightarrow> d ''FNMSUB.D'' ''FNMSUB.S''
      | FPU_F2I \<Rightarrow> (if cvt = 0 then d ''FCVT.W.D'' ''FCVT.W.S'' else if cvt = 1 then d ''FCVT.WU.D'' ''FCVT.WU.S''
          else if cvt = 2 then d ''FCVT.L.D'' ''FCVT.L.S'' else if cvt = 3 then d ''FCVT.LU.D'' ''FCVT.LU.S'' else None)
      | FPU_I2F \<Rightarrow> (if cvt = 0 then d ''FCVT.D.W'' ''FCVT.S.W'' else if cvt = 1 then d ''FCVT.D.WU'' ''FCVT.S.WU''
          else if cvt = 2 then d ''FCVT.D.L'' ''FCVT.S.L'' else if cvt = 3 then d ''FCVT.D.LU'' ''FCVT.S.LU'' else None)
      | FPU_F2F \<Rightarrow> d ''FCVT.D.S'' ''FCVT.S.D''
      | FPU_FCMP \<Rightarrow> (if frm = 0 then d ''FLE.D'' ''FLE.S'' else if frm = 1 then d ''FLT.D'' ''FLT.S''
          else if frm = 2 then d ''FEQ.D'' ''FEQ.S'' else None)
      | FPU_FSGNJ \<Rightarrow> (if frm = 0 then d ''FSGNJ.D'' ''FSGNJ.S'' else if frm = 1 then d ''FSGNJN.D'' ''FSGNJN.S''
          else if frm = 2 then d ''FSGNJX.D'' ''FSGNJX.S'' else None)
      | FPU_FCLASS \<Rightarrow> d ''FCLASS.D'' ''FCLASS.S''
      | FPU_FMVXW \<Rightarrow> d ''FMV.X.D'' ''FMV.X.S''
      | FPU_FMVWX \<Rightarrow> d ''FMV.D.X'' ''FMV.S.X''
      | FPU_FMINMAX \<Rightarrow> (if frm = 0 then d ''FMIN.D'' ''FMIN.S'' else if frm = 1 then d ''FMAX.D'' ''FMAX.S'' else None))"

definition load_string :: "bool \<Rightarrow> IntrLsuArgs \<Rightarrow> op_string_t option" where
  "load_string dst_float a =
     (let w = lsu_width a; h = to_hex_str (lsu_offset a)
      in if dst_float \<and> w = 0 then Some (''PACKLB.F'', '''')
         else if dst_float \<and> w = 1 then Some (''PACKLH.F'', '''')
         else if dst_float then (if w = 2 then Some (''FLW'', h) else if w = 3 then Some (''FLD'', h) else None)
         else if w = 0 then Some (''LB'', h) else if w = 1 then Some (''LH'', h) else if w = 2 then Some (''LW'', h)
         else if w = 3 then Some (''LD'', h) else if w = 4 then Some (''LBU'', h) else if w = 5 then Some (''LHU'', h)
         else if w = 6 then Some (''LWU'', h) else None)"

definition store_string :: "bool \<Rightarrow> IntrLsuArgs \<Rightarrow> op_string_t option" where
  "store_string src_float a =
     (let w = lsu_width a; h = to_hex_str (lsu_offset a)
      in if src_float then (if w = 2 then Some (''FSW'', h) else if w = 3 then Some (''FSD'', h) else None)
         else if w = 0 then Some (''SB'', h) else if w = 1 then Some (''SH'', h) else if w = 2 then Some (''SW'', h)
         else if w = 3 then Some (''SD'', h) else None)"

definition amo_name :: "AmoType \<Rightarrow> string" where
  "amo_name t = (case t of AMO_LR \<Rightarrow> ''LR'' | AMO_SC \<Rightarrow> ''SC'' | AMO_AMOADD \<Rightarrow> ''AMOADD'' | AMO_AMOSWAP \<Rightarrow> ''AMOSWAP''
     | AMO_AMOAND \<Rightarrow> ''AMOAND'' | AMO_AMOOR \<Rightarrow> ''AMOOR'' | AMO_AMOXOR \<Rightarrow> ''AMOXOR'' | AMO_AMOMIN \<Rightarrow> ''AMOMIN''
     | AMO_AMOMAX \<Rightarrow> ''AMOMAX'' | AMO_AMOMINU \<Rightarrow> ''AMOMINU'' | AMO_AMOMAXU \<Rightarrow> ''AMOMAXU'')"

definition amo_string :: "AmoType \<Rightarrow> IntrAmoArgs \<Rightarrow> op_string_t option" where
  "amo_string t a =
     (if amo_width a = 2 then Some (amo_name t @ ''.W'', '''')
      else if amo_width a = 3 then Some (amo_name t @ ''.D'', '''')
      else None)"

definition csr_string :: "csr_type \<Rightarrow> IntrCsrArgs \<Rightarrow> op_string_t" where
  "csr_string t a =
     (if csr_is_imm a then
        (case t of CSRRW \<Rightarrow> ''CSRRWI'' | CSRRS \<Rightarrow> ''CSRRSI'' | CSRRC \<Rightarrow> ''CSRRCI'',
         to_hex_str (csr_imm a) @ '', '' @ to_hex_str (csr_addr a))
      else (case t of CSRRW \<Rightarrow> ''CSRRW'' | CSRRS \<Rightarrow> ''CSRRS'' | CSRRC \<Rightarrow> ''CSRRC'', to_hex_str (csr_addr a)))"

definition wctl_string :: "WctlType \<Rightarrow> IntrWctlArgs \<Rightarrow> op_string_t" where
  "wctl_string t a = (case t of
     TMC \<Rightarrow> (''TMC'', '''')
   | WSPAWN \<Rightarrow> (''WSPAWN'', '''')
   | SPLIT \<Rightarrow> (if is_cond_neg a then ''SPLIT.N'' else ''SPLIT'', '''')
   | JOIN \<Rightarrow> (''JOIN'', '''')
   | BAR \<Rightarrow> (if is_sync_bar a then ''BAR'' else if is_bar_arrive a then ''BAR.ARRIVE'' else ''BAR.WAIT'', '''')
   | PRED \<Rightarrow> (if is_cond_neg a then ''PRED.N'' else ''PRED'', '''')
   | WSYNC \<Rightarrow> (''WSYNC'', ''''))"

definition op_string :: "Instr \<Rightarrow> op_string_t option" where
  "op_string i =
     (let args = in_args i
      in case op_type i of
        OpAlu t \<Rightarrow> (case args of ArgsAlu a \<Rightarrow> Some (alu_string t a) | _ \<Rightarrow> None)
      | OpVote t \<Rightarrow> Some (case t of VOTE_ALL \<Rightarrow> ''VOTE.ALL'' | VOTE_ANY \<Rightarrow> ''VOTE.ANY'' | VOTE_UNI \<Rightarrow> ''VOTE.UNI'' | VOTE_BAL \<Rightarrow> ''VOTE.BAL'', '''')
      | OpShfl t \<Rightarrow> Some (case t of SHFL_UP \<Rightarrow> ''SHFL.UP'' | SHFL_DOWN \<Rightarrow> ''SHFL.DOWN'' | SHFL_BFLY \<Rightarrow> ''SHFL.BFLY'' | SHFL_IDX \<Rightarrow> ''SHFL.IDX'', '''')
      | OpWgather \<Rightarrow> Some (''WGATHER'', '''')
      | OpBr t \<Rightarrow> (case args of ArgsBr a \<Rightarrow> br_string t a | _ \<Rightarrow> None)
      | OpMdv t \<Rightarrow> (case args of ArgsMdv w \<Rightarrow> Some (mdv_string t w) | _ \<Rightarrow> None)
      | OpFpu t \<Rightarrow> (case args of ArgsFpu a \<Rightarrow> fpu_string t a | _ \<Rightarrow> None)
      | OpLsu t \<Rightarrow> (case t of
          LSU_LOAD \<Rightarrow> (case args of ArgsLsu a \<Rightarrow> load_string (reg_type (rdest i) = RegFloat) a | _ \<Rightarrow> None)
        | LSU_STORE \<Rightarrow> (case args of ArgsLsu a \<Rightarrow> store_string (reg_type (rsrc i ! 1) = RegFloat) a | _ \<Rightarrow> None)
        | LSU_FENCE \<Rightarrow> Some (''FENCE'', ''''))
      | OpAmo t \<Rightarrow> (case args of ArgsAmo a \<Rightarrow> amo_string t a | _ \<Rightarrow> None)
      | OpCsr t \<Rightarrow> (case args of ArgsCsr a \<Rightarrow> Some (csr_string t a) | _ \<Rightarrow> None)
      | OpWctl t \<Rightarrow> (case args of ArgsWctl a \<Rightarrow> Some (wctl_string t a) | _ \<Rightarrow> None)
      | OpDxa \<Rightarrow> Some (''DXA.ISSUE'', '''')
      | OpDsmem _ \<Rightarrow> Some (''DSMEM.READ'', '''')
      | OpTex \<Rightarrow> Some (''TEX'', '''')
      | OpOm _ \<Rightarrow> Some (''OM'', '''')
      | OpRtu t \<Rightarrow> Some (case t of RT_SETW \<Rightarrow> ''RT.SETW'' | RT_CB_RET \<Rightarrow> ''RT.CB_RET'' | RT_TRACE2 \<Rightarrow> ''RT.TRACE2''
          | RT_WAIT2 \<Rightarrow> ''RT.WAIT2'' | RT_GETWF \<Rightarrow> ''RT.GETWF'' | RT_GETW \<Rightarrow> ''RT.GETW'' | RT_GETWS \<Rightarrow> ''RT.GETWS'', ''''))"

definition reg_string :: "RegOpd \<Rightarrow> string" where
  "reg_string r = (case reg_type r of RegNone \<Rightarrow> '''' | RegInteger \<Rightarrow> ''x'' | RegFloat \<Rightarrow> ''f'') @ dec_digits (unat (reg_idx r))"

text \<open>The operands that are present, a space before the first and a comma between them.\<close>

fun print_items :: "nat \<Rightarrow> string list \<Rightarrow> string" where
  "print_items sep [] = ''''"
| "print_items sep (x # xs) = (if sep \<noteq> 0 then '', '' else '' '') @ x @ print_items (sep + 1) xs"

definition instr_string :: "Instr \<Rightarrow> string option" where
  "instr_string i = do {
     (op, arg) \<leftarrow> op_string i;
     let regs = filter (\<lambda>r. reg_type r \<noteq> RegNone) (rdest i # rsrc i);
     Some (op @ print_items 0 (map reg_string regs @ (if arg \<noteq> '''' then [arg] else [])) @
       (if fu_lock i then '' [fu_lock'' @ (if fu_unlock i then '',fu_unlock'' else '''') @ '']'' else '''')) }"

text \<open>
  The decode stage of a core, \<open>Core::decode\<close>: the fields of the trace that the issue stage and the units read, and the
  number of bytes the program counter of the warp moves by.
\<close>

definition trace_wb :: "Instr \<Rightarrow> bool" where
  "trace_wb i \<longleftrightarrow> reg_type (rdest i) \<noteq> RegNone \<and> \<not> (reg_type (rdest i) = RegInteger \<and> reg_idx (rdest i) = 0)"

record dec_trace =
  dt_instr :: Instr
  dt_fu_type :: FUType
  dt_op_type :: OpType
  dt_dst_reg :: RegOpd
  dt_dst_bytesel :: u8
  dt_src_regs :: "RegOpd list"
  dt_wb :: bool
  dt_fetch_stall :: bool
  dt_resume_warp :: bool
  dt_advance :: u64

definition core_decode :: "dec_cfg \<Rightarrow> u32 \<Rightarrow> u64 \<Rightarrow> dec_trace option" where
  "core_decode d code uid = do {
     i \<leftarrow> decode d code uid;
     let is_rvc = (code AND 3 \<noteq> 3);
     Some \<lparr>dt_instr = i, dt_fu_type = fu_type i, dt_op_type = op_type i, dt_dst_reg = rdest i, dt_dst_bytesel = dst_bytesel i,
       dt_src_regs = rsrc i, dt_wb = trace_wb i, dt_fetch_stall = is_wstall i, dt_resume_warp = is_wstall i,
       dt_advance = (if is_rvc then 2 else 4)\<rparr> }"

end
