(* ===== verification/Rvc_Spec.thy ===== *)
theory Rvc_Spec
  imports Decode
begin

text \<open>
  The compressed instruction set as the manual tabulates it: an immediate is given by the positions its bits come from, lowest
  first, above a number of zero bits.
\<close>

definition uimm :: "nat \<Rightarrow> nat list \<Rightarrow> u32 \<Rightarrow> u32" where
  "uimm z ps h = push_bit z (horner_sum of_bool 2 (map (bit h) ps))"

definition simm :: "nat \<Rightarrow> nat list \<Rightarrow> u32 \<Rightarrow> u32" where
  "simm z ps h = signed_take_bit (z + length ps - 1) (uimm z ps h)"

definition xr :: "u32 \<Rightarrow> nat \<Rightarrow> u32" where
  "xr h lo = take_bit 5 (drop_bit lo h)"

definition xr' :: "u32 \<Rightarrow> nat \<Rightarrow> u32" where
  "xr' h lo = 8 + take_bit 3 (drop_bit lo h)"

definition ireg :: "u32 \<Rightarrow> RegOpd" where "ireg r = \<lparr>reg_type = RegInteger, reg_idx = r\<rparr>"
definition freg :: "u32 \<Rightarrow> RegOpd" where "freg r = \<lparr>reg_type = RegFloat, reg_idx = r\<rparr>"

definition asm :: "u64 \<Rightarrow> FUType \<Rightarrow> OpType \<Rightarrow> IntrArgs \<Rightarrow> RegOpd \<Rightarrow> RegOpd \<Rightarrow> RegOpd \<Rightarrow> bool \<Rightarrow> Instr" where
  "asm uid fu t a rd rs1 rs2 stall =
     (instr_new uid fu)\<lparr>op_type := t, in_args := a, rsrc := [rs1, rs2, reg_none], rdest := rd, is_wstall := stall\<rparr>"

definition asm_i :: "u64 \<Rightarrow> bool \<Rightarrow> AluType \<Rightarrow> u32 \<Rightarrow> u32 \<Rightarrow> u32 \<Rightarrow> Instr" where
  "asm_i uid w t rd rs1 imm = asm uid FU_ALU (OpAlu t) (alu_args True w imm) (ireg rd) (ireg rs1) reg_none False"

text \<open>The immediate argument of a register-register operation is whatever its second source field reads as; no operation uses it.\<close>

definition asm_r :: "u64 \<Rightarrow> bool \<Rightarrow> AluType \<Rightarrow> u32 \<Rightarrow> u32 \<Rightarrow> u32 \<Rightarrow> u32 \<Rightarrow> Instr" where
  "asm_r uid w t rd rs1 rs2 imm = asm uid FU_ALU (OpAlu t) (alu_args False w imm) (ireg rd) (ireg rs1) (ireg rs2) False"

definition asm_load :: "u64 \<Rightarrow> u32 \<Rightarrow> RegOpd \<Rightarrow> u32 \<Rightarrow> u32 \<Rightarrow> Instr" where
  "asm_load uid w rd rs1 off = asm uid FU_LSU (OpLsu LSU_LOAD) (lsu_args w 0 off) rd (ireg rs1) reg_none False"

definition asm_store :: "u64 \<Rightarrow> u32 \<Rightarrow> RegOpd \<Rightarrow> u32 \<Rightarrow> u32 \<Rightarrow> Instr" where
  "asm_store uid w rs2 rs1 off = asm uid FU_LSU (OpLsu LSU_STORE) (lsu_args w 0 off) reg_none (ireg rs1) rs2 False"

definition asm_branch :: "u64 \<Rightarrow> u32 \<Rightarrow> u32 \<Rightarrow> u32 \<Rightarrow> u32 \<Rightarrow> bool \<Rightarrow> Instr" where
  "asm_branch uid c rs1 rs2 off rvc = asm uid FU_ALU (OpBr BR_BR) (br_args c rvc off) reg_none (ireg rs1) (ireg rs2) True"

definition asm_jal :: "u64 \<Rightarrow> u32 \<Rightarrow> u32 \<Rightarrow> bool \<Rightarrow> Instr" where
  "asm_jal uid rd off rvc = asm uid FU_ALU (OpBr BR_JAL) (br_args 0 rvc off) (ireg rd) reg_none reg_none True"

definition asm_jalr :: "u64 \<Rightarrow> u32 \<Rightarrow> u32 \<Rightarrow> u32 \<Rightarrow> bool \<Rightarrow> Instr" where
  "asm_jalr uid rd rs1 off rvc = asm uid FU_ALU (OpBr BR_JALR) (br_args 0 rvc off) (ireg rd) (ireg rs1) reg_none True"

definition asm_lui :: "u64 \<Rightarrow> u32 \<Rightarrow> u32 \<Rightarrow> Instr" where
  "asm_lui uid rd imm = asm uid FU_ALU (OpAlu ALU_LUI) (alu_args True False imm) (ireg rd) reg_none reg_none False"

lemmas asm_defs = asm_i_def asm_r_def asm_load_def asm_store_def asm_branch_def asm_jal_def asm_jalr_def asm_lui_def asm_def
  ireg_def freg_def

definition cx_q0 :: "u64 \<Rightarrow> u32 \<Rightarrow> Instr option" where
  "cx_q0 uid h =
     (let f = take_bit 3 (drop_bit 13 h); d = uimm 3 [10, 11, 12, 5, 6] h; w = uimm 2 [6, 10, 11, 12, 5] h
      in if f = 0 then (let n = uimm 2 [6, 5, 11, 12, 7, 8, 9, 10] h in if n = 0 then None else Some (asm_i uid False ALU_ADD (xr' h 2) 2 n))
         else if f = 1 then Some (asm_load uid 3 (freg (xr' h 2)) (xr' h 7) d)
         else if f = 2 then Some (asm_load uid 2 (ireg (xr' h 2)) (xr' h 7) w)
         else if f = 3 then Some (asm_load uid 3 (ireg (xr' h 2)) (xr' h 7) d)
         else if f = 5 then Some (asm_store uid 3 (freg (xr' h 2)) (xr' h 7) d)
         else if f = 6 then Some (asm_store uid 2 (ireg (xr' h 2)) (xr' h 7) w)
         else if f = 7 then Some (asm_store uid 3 (ireg (xr' h 2)) (xr' h 7) d)
         else None)"

definition cx_alu :: "u64 \<Rightarrow> u32 \<Rightarrow> Instr option" where
  "cx_alu uid h =
     (let s = take_bit 2 (drop_bit 10 h); t = take_bit 2 (drop_bit 5 h); rd = xr' h 7; rs2 = xr' h 2
      in if s = 0 then Some (asm_i uid False ALU_SRL rd rd (uimm 0 [2, 3, 4, 5, 6, 12] h))
         else if s = 1 then Some (asm_i uid False ALU_SRA rd rd (uimm 0 [2, 3, 4, 5, 6, 12] h))
         else if s = 2 then Some (asm_i uid False ALU_AND rd rd (simm 0 [2, 3, 4, 5, 6, 12] h))
         else if \<not> bit h 12 then
           (if t = 0 then Some (asm_r uid False ALU_SUB rd rd rs2 (0x400 + rs2))
            else Some (asm_r uid False (if t = 1 then ALU_XOR else if t = 2 then ALU_OR else ALU_AND) rd rd rs2 rs2))
         else if t = 0 then Some (asm_r uid True ALU_SUB rd rd rs2 (0x400 + rs2))
         else if t = 1 then Some (asm_r uid True ALU_ADD rd rd rs2 rs2)
         else None)"

definition cx_q1 :: "u64 \<Rightarrow> u32 \<Rightarrow> Instr option" where
  "cx_q1 uid h =
     (let f = take_bit 3 (drop_bit 13 h); rd = xr h 7; n = simm 0 [2, 3, 4, 5, 6, 12] h
      in if f = 0 then Some (asm_i uid False ALU_ADD rd rd n)
         else if f = 1 then (if rd = 0 then None else Some (asm_i uid True ALU_ADD rd rd n))
         else if f = 2 then Some (asm_i uid False ALU_ADD rd 0 n)
         else if f = 3 \<and> rd = 2 then
           (let m = simm 4 [6, 2, 5, 3, 4, 12] h in if m = 0 then None else Some (asm_i uid False ALU_ADD 2 2 m))
         else if f = 3 then
           (let m = simm 12 [2, 3, 4, 5, 6, 12] h in if rd = 0 \<or> m = 0 then None else Some (asm_lui uid rd m))
         else if f = 4 then cx_alu uid h
         else if f = 5 then Some (asm_jal uid 0 (simm 1 [3, 4, 5, 11, 2, 7, 6, 9, 10, 8, 12] h) True)
         else Some (asm_branch uid (if f = 6 then 0 else 1) (xr' h 7) 0 (simm 1 [3, 4, 10, 11, 2, 5, 6, 12] h) True))"

definition cx_q2 :: "u64 \<Rightarrow> u32 \<Rightarrow> Instr option" where
  "cx_q2 uid h =
     (let f = take_bit 3 (drop_bit 13 h); rd = xr h 7; rs2 = xr h 2;
          ld = uimm 3 [5, 6, 12, 2, 3, 4] h; sd = uimm 3 [10, 11, 12, 7, 8, 9] h
      in if f = 0 then (if rd = 0 then None else Some (asm_i uid False ALU_SLL rd rd (uimm 0 [2, 3, 4, 5, 6, 12] h)))
         else if f = 1 then Some (asm_load uid 3 (freg rd) 2 ld)
         else if f = 2 then (if rd = 0 then None else Some (asm_load uid 2 (ireg rd) 2 (uimm 2 [4, 5, 6, 12, 2, 3] h)))
         else if f = 3 then (if rd = 0 then None else Some (asm_load uid 3 (ireg rd) 2 ld))
         else if f = 4 then
           (if rd = 0 then
              (if bit h 12 \<and> rs2 = 0 then Some (asm uid FU_ALU (OpBr BR_SYS) (br_args 0 False 1) reg_none reg_none reg_none True) else None)
            else if rs2 = 0 then Some (asm_jalr uid (if bit h 12 then 1 else 0) rd 0 True)
            else Some (asm_r uid False ALU_ADD rd (if bit h 12 then rd else 0) rs2 rs2))
         else if f = 5 then Some (asm_store uid 3 (freg rs2) 2 sd)
         else if f = 6 then Some (asm_store uid 2 (ireg rs2) 2 (uimm 2 [9, 10, 11, 12, 7, 8] h))
         else Some (asm_store uid 3 (ireg rs2) 2 sd))"

definition cx :: "u64 \<Rightarrow> u32 \<Rightarrow> Instr option" where
  "cx uid h = (if take_bit 2 h = 0 then cx_q0 uid h else if take_bit 2 h = 1 then cx_q1 uid h else cx_q2 uid h)"

end
