(* ===== verification/Decode_Enc.thy ===== *)
theory Decode_Enc
  imports Rvc_Spec
begin

text \<open>
  The decoder on the encodings that the expansion of compressed instructions builds: the fields it reads back, the two sign
  extensions of the sources, and the instruction it makes of each format.
\<close>

text \<open>Masks as truncations, so that one set of facts reads the bits of every field.\<close>

lemma and_masks:
  "(x::u32) AND 1 = take_bit 1 x" "x AND 3 = take_bit 2 x" "x AND 7 = take_bit 3 x" "x AND 0xF = take_bit 4 x"
  "x AND 31 = take_bit 5 x" "x AND 0x3F = take_bit 6 x" "x AND 0x7F = take_bit 7 x" "x AND 0xFF = take_bit 8 x"
  "x AND 0x3FF = take_bit 10 x" "x AND 0xFFF = take_bit 12 x" "x AND 0x1FFF = take_bit 13 x" "x AND 0xFFFF = take_bit 16 x"
  "x AND 0xFFFFF = take_bit 20 x" "x AND 0x1FFFFF = take_bit 21 x"
  by (simp_all add: take_bit_eq_mask mask_eq_exp_minus_1)

lemmas word_bits = bit_take_bit_iff bit_or_iff bit_and_iff bit_push_bit_iff bit_drop_bit_eq bit_not_iff

lemmas field_defs = f_opcode_def f_funct2_def f_funct3_def f_funct5_def f_funct7_def f_rd_def f_rs1_def f_rs2_def f_rs3_def

text \<open>Equality of words bit by bit, each bit at a position that computation can decide.\<close>

lemma word32_eqI:
  fixes x y :: u32
  shows "\<lbrakk>bit x 0 = bit y 0; bit x 1 = bit y 1; bit x 2 = bit y 2; bit x 3 = bit y 3; bit x 4 = bit y 4; bit x 5 = bit y
     5; bit x 6 = bit y 6; bit x 7 = bit y 7; bit x 8 = bit y 8; bit x 9 = bit y 9; bit x 10 = bit y 10; bit x 11 =
     bit y 11; bit x 12 = bit y 12; bit x 13 = bit y 13; bit x 14 = bit y 14; bit x 15 = bit y 15; bit x 16 = bit y
     16; bit x 17 = bit y 17; bit x 18 = bit y 18; bit x 19 = bit y 19; bit x 20 = bit y 20; bit x 21 = bit y 21;
     bit x 22 = bit y 22; bit x 23 = bit y 23; bit x 24 = bit y 24; bit x 25 = bit y 25; bit x 26 = bit y 26; bit x
     27 = bit y 27; bit x 28 = bit y 28; bit x 29 = bit y 29; bit x 30 = bit y 30; bit x 31 = bit y 31\<rbrakk> \<Longrightarrow> x = y"
  by (rule bit_word_eqI) (auto simp: less_Suc_eq numeral_eq_Suc)

text \<open>Both sign extensions of the sources are the sign extension of the library.\<close>

lemma sext_signed:
  assumes "Suc k < 32"
  shows "sext v (Suc k) = signed_take_bit k v"
proof (rule bit_word_eqI)
  fix n assume n: "n < LENGTH(32)"
  have m: "push_bit (Suc k) 1 - 1 = (mask (Suc k) :: u32)" by (simp add: mask_eq_exp_minus_1 push_bit_eq_mult)
  have b: "drop_bit k v AND 1 \<noteq> 0 \<longleftrightarrow> bit v k" by (simp add: bit_iff_odd_drop_bit and_one_eq odd_iff_mod_2_eq_one)
  have "sext v (Suc k) = (if bit v k then v OR NOT (mask (Suc k)) else v AND mask (Suc k))"
    unfolding sext_def Let_def m diff_Suc_1 b using assms by simp
  then show "bit (sext v (Suc k)) n = bit (signed_take_bit k v) n"
    using n by (cases "n = k") (auto simp: bit_signed_take_bit_iff bit_or_iff bit_and_iff bit_not_iff bit_mask_iff min_def)
qed

lemma sext_imm_signed:
  assumes "Suc n < 32" and "v = take_bit (Suc n) v"
  shows "sext_imm v (Suc n) = signed_take_bit n v"
proof -
  define m :: u32 where "m = push_bit n 1"
  have bm: "bit m k \<longleftrightarrow> k = n" for k using assms(1) by (auto simp: m_def push_bit_eq_mult bit_exp_iff)
  have out: "\<not> bit v k" if "n < k" for k using that assms(2) by (metis bit_take_bit_iff less_Suc_eq_le not_le)
  have t: "take_bit n v = (if bit v n then v XOR m else v)"
  proof (rule bit_word_eqI)
    fix k
    consider "k < n" | "k = n" | "n < k" by linarith
    then show "bit (take_bit n v) k = bit (if bit v n then v XOR m else v) k"
      using out [of k] by cases (auto simp: bit_take_bit_iff bit_xor_iff bm)
  qed
  show ?thesis
  proof (cases "bit v n")
    case True
    have "take_bit n v OR NOT (mask n) = take_bit n v + NOT (mask n)"
      by (rule disjunctive_add [symmetric]) (auto simp: bit_take_bit_iff bit_not_iff bit_mask_iff)
    moreover have "NOT (mask n) = - m" by (simp add: m_def push_bit_eq_mult minus_exp_eq_not_mask)
    ultimately show ?thesis using True t by (simp add: sext_imm_def m_def signed_take_bit_def Let_def)
  next
    case False
    have "v XOR m = v + m"
      by (rule bit_word_eqI) (use False in \<open>subst disjunctive_add, auto simp: bm bit_or_iff bit_xor_iff\<close>)
    then show ?thesis using False t by (simp add: sext_imm_def m_def signed_take_bit_def Let_def)
  qed
qed

text \<open>What the decoder reads back from the encodings that the expansion builds.\<close>

lemma ENCI_fields [simp]:
  "f_opcode (ENCI imm rs1 f3 rd op) = take_bit 7 op"
  "f_rd (ENCI imm rs1 f3 rd op) = take_bit 5 rd"
  "f_funct3 (ENCI imm rs1 f3 rd op) = take_bit 3 f3"
  "f_rs1 (ENCI imm rs1 f3 rd op) = take_bit 5 rs1"
  "f_rs2 (ENCI imm rs1 f3 rd op) = take_bit 5 imm"
  "f_funct7 (ENCI imm rs1 f3 rd op) = take_bit 7 (drop_bit 5 imm)"
  "drop_bit 20 (ENCI imm rs1 f3 rd op) = take_bit 12 imm"
  unfolding ENCI_def field_defs and_masks by (rule bit_word_eqI; auto simp: word_bits)+

lemma ENCR_fields [simp]:
  "f_opcode (ENCR f7 rs2 rs1 f3 rd op) = take_bit 7 op"
  "f_rd (ENCR f7 rs2 rs1 f3 rd op) = take_bit 5 rd"
  "f_funct3 (ENCR f7 rs2 rs1 f3 rd op) = take_bit 3 f3"
  "f_rs1 (ENCR f7 rs2 rs1 f3 rd op) = take_bit 5 rs1"
  "f_rs2 (ENCR f7 rs2 rs1 f3 rd op) = take_bit 5 rs2"
  "f_funct7 (ENCR f7 rs2 rs1 f3 rd op) = take_bit 7 f7"
  unfolding ENCR_def field_defs and_masks by (rule bit_word_eqI; auto simp: word_bits)+

lemma ENCS_fields [simp]:
  "f_opcode (ENCS imm rs2 rs1 f3 op) = take_bit 7 op"
  "f_funct3 (ENCS imm rs2 rs1 f3 op) = take_bit 3 f3"
  "f_rs1 (ENCS imm rs2 rs1 f3 op) = take_bit 5 rs1"
  "f_rs2 (ENCS imm rs2 rs1 f3 op) = take_bit 5 rs2"
  "f_rd (ENCS imm rs2 rs1 f3 op) = take_bit 5 imm"
  "f_funct7 (ENCS imm rs2 rs1 f3 op) = take_bit 7 (drop_bit 5 imm)"
  unfolding ENCS_def field_defs and_masks Let_def by (rule bit_word_eqI; auto simp: word_bits)+

lemma ENCU_fields [simp]:
  "f_opcode (ENCU imm rd op) = take_bit 7 op"
  "f_rd (ENCU imm rd op) = take_bit 5 rd"
  "push_bit 12 (drop_bit 12 (ENCU imm rd op)) = push_bit 12 (take_bit 20 imm)"
  unfolding ENCU_def field_defs and_masks by (rule bit_word_eqI; auto simp: word_bits)+

text \<open>The decoder on the encodings.\<close>

lemma decode32_dispatch:
  "f_opcode c = 0b0110111 \<Longrightarrow> decode32 d c r i = Some (decode_upper c i)"
  "f_opcode c \<in> {0b0110011, 0b0010011, 0b0111011, 0b0011011} \<Longrightarrow> decode32 d c r i = decode_alu c i"
  "f_opcode c = 0b1100011 \<Longrightarrow> decode32 d c r i = Some (decode_branch c r i)"
  "f_opcode c = 0b1101111 \<Longrightarrow> decode32 d c r i = Some (decode_jal c r i)"
  "f_opcode c = 0b1100111 \<Longrightarrow> decode32 d c r i = Some (decode_jalr c r i)"
  "f_opcode c \<in> {0b0000011, 0b0000111, 0b0100011, 0b0100111} \<Longrightarrow> decode32 d c r i = Some (decode_mem c i)"
  "f_opcode c = 0b1110011 \<Longrightarrow> decode32 d c r i = decode_sys c i"
  by (auto simp: decode32_def opcode_defs Let_def)

lemmas asm_simps = instr_setters asm_defs instr_new_def MAX_REG_SOURCES_def numeral_3_eq_3

lemma decode_OPI:
  assumes "opc = 0b0010011 \<or> opc = 0b0011011"
  shows "decode32 d (ENCI imm rs1 f3 rd opc) r (instr_new uid FU_ALU) =
    Some (asm_i uid (opc = 0b0011011) (decode_alu_op True (take_bit 3 f3) (take_bit 7 (drop_bit 5 imm))) (take_bit 5 rd) (take_bit 5 rs1)
      (if take_bit 3 f3 = 1 \<or> take_bit 3 f3 = 5 then take_bit 5 imm OR push_bit 5 (take_bit 7 (drop_bit 5 imm) AND 1)
       else sext (take_bit 12 imm) 12))"
proof -
  have o: "f_opcode (ENCI imm rs1 f3 rd opc) = opc" using assms by auto
  show ?thesis
    using assms o by (subst decode32_dispatch(2)) (auto simp: decode_alu_def Let_def opcode_defs asm_simps)
qed

lemma ENCR_imm: "drop_bit 20 (ENCR f7 rs2 rs1 f3 rd op) = push_bit 5 (take_bit 7 f7) OR take_bit 5 rs2"
  unfolding ENCR_def and_masks by (rule bit_word_eqI) (auto simp: word_bits)

lemma decode_OPR:
  assumes "opc = 0b0110011 \<or> opc = 0b0111011" and "f7 = 0 \<or> f7 = 0b0100000" and "take_bit 3 f3 \<noteq> 1" and "take_bit 3 f3 \<noteq> 5"
  shows "decode32 d (ENCR f7 rs2 rs1 f3 rd opc) r (instr_new uid FU_ALU) =
    Some (asm_r uid (opc = 0b0111011) (decode_alu_op False (take_bit 3 f3) f7) (take_bit 5 rd) (take_bit 5 rs1) (take_bit 5 rs2)
      (sext (push_bit 5 f7 OR take_bit 5 rs2) 12))"
proof -
  have o: "f_opcode (ENCR f7 rs2 rs1 f3 rd opc) = opc" and f: "take_bit 7 f7 = f7" "take_bit 7 f7 \<noteq> 7" "f7 AND 1 = 0"
    using assms(1,2) by auto
  show ?thesis
    using assms o f by (subst decode32_dispatch(2)) (auto simp: decode_alu_def Let_def opcode_defs ENCR_imm asm_simps)
qed

lemma decode_LOAD:
  assumes "opc = 0b0000011 \<or> opc = 0b0000111"
  shows "decode32 d (ENCI imm rs1 f3 rd opc) r (instr_new uid FU_ALU) =
    Some (asm_load uid (take_bit 3 f3) ((if opc = 0b0000111 then freg else ireg) (take_bit 5 rd)) (take_bit 5 rs1) (sext (take_bit 12 imm) 12))"
proof -
  have o: "f_opcode (ENCI imm rs1 f3 rd opc) = opc" using assms by auto
  show ?thesis
    using assms o by (subst decode32_dispatch(6)) (auto simp: decode_mem_def Let_def opcode_defs asm_simps)
qed

lemma decode_STORE:
  assumes "opc = 0b0100011 \<or> opc = 0b0100111"
  shows "decode32 d (ENCS imm rs2 rs1 f3 opc) r (instr_new uid FU_ALU) =
    Some (asm_store uid (take_bit 3 f3) ((if opc = 0b0100111 then freg else ireg) (take_bit 5 rs2)) (take_bit 5 rs1) (sext (take_bit 12 imm) 12))"
proof -
  have o: "f_opcode (ENCS imm rs2 rs1 f3 opc) = opc" using assms by auto
  have "push_bit 5 (take_bit 7 (drop_bit 5 imm)) OR take_bit 5 imm = take_bit 12 imm"
    by (rule bit_word_eqI) (auto simp: word_bits)
  then show ?thesis
    using assms o by (subst decode32_dispatch(6)) (auto simp: decode_mem_def Let_def opcode_defs asm_simps)
qed

lemma decode_JALR:
  "decode32 d (ENCI imm rs1 f3 rd 0b1100111) r (instr_new uid FU_ALU) =
     Some (asm_jalr uid (take_bit 5 rd) (take_bit 5 rs1) (sext (take_bit 12 imm) 12) r)"
  by (subst decode32_dispatch(5)) (auto simp: decode_jalr_def asm_simps)

lemma decode_LUI:
  "decode32 d (ENCU imm rd 0b0110111) r (instr_new uid FU_ALU) = Some (asm_lui uid (take_bit 5 rd) (push_bit 12 (take_bit 20 imm)))"
  by (subst decode32_dispatch(1)) (auto simp: decode_upper_def opcode_defs Let_def asm_simps)

lemma ENCB_fields [simp]:
  "f_opcode (ENCB imm rs2 rs1 f3 op) = take_bit 7 op"
  "f_funct3 (ENCB imm rs2 rs1 f3 op) = take_bit 3 f3"
  "f_rs1 (ENCB imm rs2 rs1 f3 op) = take_bit 5 rs1"
  "f_rs2 (ENCB imm rs2 rs1 f3 op) = take_bit 5 rs2"
  "f_rd (ENCB imm rs2 rs1 f3 op) = push_bit 1 (take_bit 4 (drop_bit 1 imm)) OR take_bit 1 (drop_bit 11 imm)"
  "f_funct7 (ENCB imm rs2 rs1 f3 op) = push_bit 6 (take_bit 1 (drop_bit 12 imm)) OR take_bit 6 (drop_bit 5 imm)"
  unfolding ENCB_def field_defs and_masks Let_def by (rule word32_eqI; simp only: word_bits o_apply; simp)+

lemma decode_BR:
  assumes "even imm"
  shows "decode32 d (ENCB imm rs2 rs1 f3 0b1100011) r (instr_new uid FU_ALU) =
    Some (asm_branch uid (take_bit 3 f3) (take_bit 5 rs1) (take_bit 5 rs2) (sext (take_bit 13 imm) 13) r)"
proof -
  define x where "x = push_bit 1 (take_bit 4 (drop_bit 1 imm)) OR take_bit 1 (drop_bit 11 imm)"
  define y where "y = push_bit 6 (take_bit 1 (drop_bit 12 imm)) OR take_bit 6 (drop_bit 5 imm)"
  have e: "push_bit 1 (drop_bit 1 x) OR push_bit 5 (y AND 0x3F) OR push_bit 11 (x AND 1) OR push_bit 12 (drop_bit 6 y) = take_bit 13 imm"
    unfolding x_def y_def and_masks by (rule word32_eqI; simp only: word_bits o_apply; use assms in \<open>simp add: bit_0 numeral_eq_Suc\<close>)
  have "decode_branch (ENCB imm rs2 rs1 f3 0b1100011) r i = set_wstall True (set_src_reg 1 (take_bit 5 rs2) RegInteger
    (set_src_reg 0 (take_bit 5 rs1) RegInteger (set_args (br_args (take_bit 3 f3) r (sext (take_bit 13 imm) 13))
      (set_op_type (OpBr BR_BR) i))))" for i
    unfolding decode_branch_def Let_def ENCB_fields x_def [symmetric] y_def [symmetric] e ..
  then show ?thesis by (subst decode32_dispatch(3)) (auto simp: asm_simps)
qed

lemma ENCUJ_fields [simp]:
  "f_opcode (ENCUJ imm rd op) = take_bit 7 op"
  "f_rd (ENCUJ imm rd op) = take_bit 5 rd"
  "drop_bit 12 (ENCUJ imm rd op) = push_bit 19 (take_bit 1 (drop_bit 20 imm)) OR push_bit 9 (take_bit 10 (drop_bit 1 imm)) OR
     push_bit 8 (take_bit 1 (drop_bit 11 imm)) OR take_bit 8 (drop_bit 12 imm)"
proof -
  have m: "push_bit 20 1 = (push_bit 20 (mask 1) :: u32)" "push_bit 11 1 = (push_bit 11 (mask 1) :: u32)"
      "(0x7FE::u32) = push_bit 1 (mask 10)" "(0xFF000::u32) = push_bit 12 (mask 8)"
    by (simp_all add: mask_eq_exp_minus_1 push_bit_eq_mult)
  note bits = word_bits o_apply bit_mask_iff
  show "f_opcode (ENCUJ imm rd op) = take_bit 7 op" "f_rd (ENCUJ imm rd op) = take_bit 5 rd"
    "drop_bit 12 (ENCUJ imm rd op) = push_bit 19 (take_bit 1 (drop_bit 20 imm)) OR push_bit 9 (take_bit 10 (drop_bit 1 imm)) OR
       push_bit 8 (take_bit 1 (drop_bit 11 imm)) OR take_bit 8 (drop_bit 12 imm)"
    unfolding ENCUJ_def Let_def field_defs m and_masks
    by (rule word32_eqI; simp only: bits; simp add: numeral_eq_Suc)+
qed

lemma decode_J:
  assumes "even imm"
  shows "decode32 d (ENCUJ imm rd 0b1101111) r (instr_new uid FU_ALU) = Some (asm_jal uid (take_bit 5 rd) (sext (take_bit 21 imm) 21) r)"
proof -
  define u where "u = push_bit 19 (take_bit 1 (drop_bit 20 imm)) OR push_bit 9 (take_bit 10 (drop_bit 1 imm)) OR
    push_bit 8 (take_bit 1 (drop_bit 11 imm)) OR take_bit 8 (drop_bit 12 imm)"
  have e: "push_bit 1 (drop_bit 9 u AND 0x3FF) OR push_bit 11 (drop_bit 8 u AND 1) OR push_bit 12 (u AND 0xFF) OR
    push_bit 20 (drop_bit 19 u AND 1) = take_bit 21 imm"
    unfolding u_def and_masks
    by (rule word32_eqI; simp only: word_bits o_apply; use assms in \<open>simp add: bit_0 numeral_eq_Suc\<close>)
  have "decode_jal (ENCUJ imm rd 0b1101111) r i = set_wstall True (set_dest_reg (take_bit 5 rd) RegInteger
    (set_args (br_args 0 r (sext (take_bit 21 imm) 21)) (set_op_type (OpBr BR_JAL) i)))" for i
    unfolding decode_jal_def Let_def ENCUJ_fields u_def [symmetric] e ..
  then show ?thesis by (subst decode32_dispatch(4)) (auto simp: asm_simps)
qed

end
