(* ===== verification/Decode_Rvc.thy ===== *)
theory Decode_Rvc
  imports Decode_Enc
begin

text \<open>
  Each quadrant of the compressed instructions, expanded and decoded, is its part of the table in \<open>Rvc_Spec\<close>.
\<close>

text \<open>The immediates of the compressed formats.\<close>

lemma bit_uimm: "bit (uimm z ps h) n \<longleftrightarrow> z \<le> n \<and> n < 32 \<and> n - z < length ps \<and> bit h (ps ! (n - z))"
  by (auto simp: uimm_def bit_push_bit_iff bit_horner_sum_bit_word_iff)

lemma take_bit_uimm: "z + length ps \<le> k \<Longrightarrow> take_bit k (uimm z ps h) = uimm z ps h"
  by (rule bit_word_eqI) (auto simp: bit_take_bit_iff bit_uimm)

lemma sext_take_signed:
  assumes "k \<le> m" and "Suc m < 32"
  shows "sext (take_bit (Suc m) (signed_take_bit k v)) (Suc m) = signed_take_bit k v"
  using assms unfolding sext_signed [OF assms(2)]
  by (intro bit_word_eqI) (auto simp: bit_signed_take_bit_iff bit_take_bit_iff min_def)

lemma sext_uimm:
  assumes "z + length ps \<le> m" and "Suc m < 32"
  shows "sext (uimm z ps h) (Suc m) = uimm z ps h"
  using assms unfolding sext_signed [OF assms(2)]
  by (intro bit_word_eqI) (auto simp: bit_signed_take_bit_iff bit_uimm min_def)

lemma sext_imm_uimm:
  assumes "z + length ps = Suc k" and "Suc k < 32"
  shows "sext_imm (uimm z ps h) (Suc k) = simm z ps h"
  using assms by (simp add: sext_imm_signed take_bit_uimm simm_def)

lemma bit_rvc_bit: "bit (rvc_bit h b) n \<longleftrightarrow> n = 0 \<and> bit h b"
  by (simp only: rvc_bit_def and_masks bit_take_bit_iff bit_drop_bit_eq o_apply) auto

lemma bit_rvc_bits: "bit (rvc_bits h hi lo) n \<longleftrightarrow> n \<le> hi - lo \<and> bit h (lo + n)"
proof -
  have "push_bit (hi - lo + 1) 1 - 1 = (mask (Suc (hi - lo)) :: u32)" by (simp add: mask_eq_exp_minus_1 push_bit_eq_mult)
  then show ?thesis
    by (simp only: rvc_bits_def) (auto simp: bit_and_iff bit_mask_iff bit_drop_bit_eq less_Suc_eq_le dest: bit_imp_le_length)
qed

lemmas rvc_bits_simps = bit_or_iff bit_push_bit_iff bit_rvc_bit bit_rvc_bits bit_uimm

lemma imm_words:
  "shamt_ci h = uimm 0 [2, 3, 4, 5, 6, 12] h"
  "uimm_cl_w h = uimm 2 [6, 10, 11, 12, 5] h"
  "uimm_cl_d h = uimm 3 [10, 11, 12, 5, 6] h"
  "uimm_ldsp h = uimm 3 [5, 6, 12, 2, 3, 4] h"
  "uimm_sdsp h = uimm 3 [10, 11, 12, 7, 8, 9] h"
  "push_bit 4 (rvc_bits h 12 11) OR push_bit 6 (rvc_bits h 10 7) OR push_bit 3 (rvc_bit h 5) OR push_bit 2 (rvc_bit h 6) =
     uimm 2 [6, 5, 11, 12, 7, 8, 9, 10] h"
  "push_bit 9 (rvc_bit h 12) OR push_bit 4 (rvc_bit h 6) OR push_bit 6 (rvc_bit h 5) OR push_bit 7 (rvc_bits h 4 3) OR
     push_bit 5 (rvc_bit h 2) = uimm 4 [6, 2, 5, 3, 4, 12] h"
  "push_bit 17 (rvc_bit h 12) OR push_bit 12 (rvc_bits h 6 2) = uimm 12 [2, 3, 4, 5, 6, 12] h"
  "push_bit 5 (rvc_bit h 12) OR push_bit 2 (rvc_bits h 6 4) OR push_bit 6 (rvc_bits h 3 2) = uimm 2 [4, 5, 6, 12, 2, 3] h"
  "push_bit 2 (rvc_bits h 12 9) OR push_bit 6 (rvc_bits h 8 7) = uimm 2 [9, 10, 11, 12, 7, 8] h"
  "push_bit 11 (rvc_bit h 12) OR push_bit 10 (rvc_bit h 8) OR push_bit 8 (rvc_bits h 10 9) OR
     push_bit 7 (rvc_bit h 6) OR push_bit 6 (rvc_bit h 7) OR push_bit 5 (rvc_bit h 2) OR push_bit 4 (rvc_bit h 11) OR
     push_bit 1 (rvc_bits h 5 3) = uimm 1 [3, 4, 5, 11, 2, 7, 6, 9, 10, 8, 12] h"
  "push_bit 8 (rvc_bit h 12) OR push_bit 7 (rvc_bit h 6) OR push_bit 6 (rvc_bit h 5) OR
     push_bit 5 (rvc_bit h 2) OR push_bit 3 (rvc_bits h 11 10) OR push_bit 1 (rvc_bits h 4 3) = uimm 1 [3, 4, 10, 11, 2, 5, 6, 12] h"
  unfolding shamt_ci_def uimm_cl_w_def uimm_cl_d_def uimm_ldsp_def uimm_sdsp_def
  by (rule word32_eqI; simp only: rvc_bits_simps; simp)+

lemma simm_ci: "imm_ci h = simm 0 [2, 3, 4, 5, 6, 12] h"
  using sext_imm_uimm [of 0 "[2, 3, 4, 5, 6, 12]" 5 h] imm_words(1) [of h] by (simp add: imm_ci_def shamt_ci_def)

lemma simm_words:
  "sext_imm (uimm 4 [6, 2, 5, 3, 4, 12] h) 10 = simm 4 [6, 2, 5, 3, 4, 12] h"
  "sext_imm (uimm 12 [2, 3, 4, 5, 6, 12] h) 18 = simm 12 [2, 3, 4, 5, 6, 12] h"
  "imm_cj h = take_bit 21 (simm 1 [3, 4, 5, 11, 2, 7, 6, 9, 10, 8, 12] h)"
  "imm_cb h = take_bit 13 (simm 1 [3, 4, 10, 11, 2, 5, 6, 12] h)"
  using sext_imm_uimm [of 4 "[6, 2, 5, 3, 4, 12]" 9 h] sext_imm_uimm [of 12 "[2, 3, 4, 5, 6, 12]" 17 h]
    sext_imm_uimm [of 1 "[3, 4, 5, 11, 2, 7, 6, 9, 10, 8, 12]" 11 h] sext_imm_uimm [of 1 "[3, 4, 10, 11, 2, 5, 6, 12]" 8 h]
  unfolding imm_cj_def imm_cb_def imm_words(11,12) and_masks by simp_all

lemma simm_cut:
  assumes "z + length ps \<le> Suc m" and "Suc m < 32"
  shows "sext (take_bit (Suc m) (simm z ps h)) (Suc m) = simm z ps h"
  using sext_take_signed [of "z + length ps - 1" m] assms by (simp add: simm_def)

lemmas simm_sext =
  simm_cut [of 0 "[2, 3, 4, 5, 6, 12]" 11, simplified] simm_cut [of 4 "[6, 2, 5, 3, 4, 12]" 11, simplified]
  simm_cut [of 1 "[3, 4, 5, 11, 2, 7, 6, 9, 10, 8, 12]" 20, simplified] simm_cut [of 1 "[3, 4, 10, 11, 2, 5, 6, 12]" 12, simplified]

lemma bit_simm:
  assumes "z + length ps \<le> 32" and "0 < length ps"
  shows "bit (simm z ps h) n \<longleftrightarrow> n < 32 \<and> z \<le> n \<and> bit h (ps ! min (n - z) (length ps - 1))"
proof -
  have e: "min (z + length ps - 1) n - z = min (n - z) (length ps - 1)" by arith
  have m: "z \<le> min (z + length ps - 1) n \<longleftrightarrow> z \<le> n" "min (z + length ps - 1) n < 32" "min (n - z) (length ps - 1) < length ps"
    using assms by arith+
  show ?thesis unfolding simm_def bit_signed_take_bit_iff bit_uimm e m(1) using m(2,3) by (auto simp: possible_bit_word)
qed

lemma simm_even: "even (simm 1 [3, 4, 5, 11, 2, 7, 6, 9, 10, 8, 12] h)" "even (simm 1 [3, 4, 10, 11, 2, 5, 6, 12] h)"
  using bit_simm [of 1 "[3, 4, 5, 11, 2, 7, 6, 9, 10, 8, 12]" h 0] bit_simm [of 1 "[3, 4, 10, 11, 2, 5, 6, 12]" h 0]
  by (simp_all add: bit_0)

lemma lui_word: "push_bit 12 (take_bit 20 (signed_drop_bit 12 (simm 12 [2, 3, 4, 5, 6, 12] h))) = simm 12 [2, 3, 4, 5, 6, 12] h"
  by (rule bit_word_eqI) (auto simp: bit_push_bit_iff bit_take_bit_iff bit_signed_drop_bit_iff bit_simm)

lemma regs:
  "rcp (rvc_bits h 4 2) = xr' h 2" "rcp (rvc_bits h 9 7) = xr' h 7" "rvc_bits h 11 7 = xr h 7" "rvc_bits h 6 2 = xr h 2"
  "rvc_bits h 11 10 = take_bit 2 (drop_bit 10 h)" "rvc_bits h 6 5 = take_bit 2 (drop_bit 5 h)"
  "rvc_bit h 12 = of_bool (bit h 12)"
proof -
  have r: "rvc_bits h hi lo = take_bit (Suc (hi - lo)) (drop_bit lo h)" for hi lo
    by (rule bit_word_eqI) (auto simp: bit_rvc_bits bit_take_bit_iff bit_drop_bit_eq)
  show "rcp (rvc_bits h 4 2) = xr' h 2" "rcp (rvc_bits h 9 7) = xr' h 7" "rvc_bits h 11 7 = xr h 7" "rvc_bits h 6 2 = xr h 2"
    "rvc_bits h 11 10 = take_bit 2 (drop_bit 10 h)" "rvc_bits h 6 5 = take_bit 2 (drop_bit 5 h)"
    by (simp_all add: r rcp_def xr_def xr'_def numeral_eq_Suc)
  show "rvc_bit h 12 = of_bool (bit h 12)" by (rule bit_word_eqI) (auto simp: bit_rvc_bit bit_of_bool_iff)
qed

lemma xr_cut [simp]: "take_bit 5 (xr h lo) = xr h lo" "take_bit 5 (xr' h lo) = xr' h lo"
proof -
  have "unat (xr' h lo) < 32"
    unfolding xr'_def by (subst unat_add_lem [THEN iffD1]) (use take_bit_nat_less_exp [of 3] in \<open>auto simp: unat_take_bit intro: le_less_trans\<close>)
  then show "take_bit 5 (xr' h lo) = xr' h lo" by (simp add: unat_take_bit take_bit_nat_eq_self word_unat_eq_iff)
qed (simp add: xr_def)

lemma shift_word:
  assumes "sh = uimm 0 [2, 3, 4, 5, 6, 12] h"
  shows "take_bit 5 sh OR push_bit 5 (take_bit 7 (drop_bit 5 sh) AND 1) = sh"
    and "take_bit 5 (sh OR 0x400) OR push_bit 5 (take_bit 7 (drop_bit 5 (sh OR 0x400)) AND 1) = sh"
    and "drop_bit 1 (take_bit 7 (drop_bit 5 sh)) = 0"
    and "drop_bit 1 (take_bit 7 (drop_bit 5 (sh OR 0x400))) = 0x10"
  unfolding assms and_masks by (rule word32_eqI; simp only: word_bits o_apply bit_uimm; simp)+

lemma srai_word: "ENCI sh rs1 f3 rd op OR 0x40000000 = ENCI (sh OR 0x400) rs1 f3 rd op"
proof -
  have "push_bit 20 (0x400 AND 0xFFF) = (0x40000000::u32)" by simp
  moreover have "push_bit 20 ((sh OR 0x400) AND 0xFFF) = push_bit 20 (sh AND 0xFFF) OR push_bit 20 (0x400 AND 0xFFF)"
    by (simp only: push_bit_or bit.conj_disj_distrib2)
  ultimately show ?thesis unfolding ENCI_def by (simp only: ac_simps)
qed

lemma alu_imm_word:
  assumes "take_bit 5 r = r"
  shows "sext r 12 = r" and "sext (0x400 OR r) 12 = 0x400 + r"
proof -
  have o: "\<not> bit r n" if "5 \<le> n" for n using that assms by (metis bit_take_bit_iff not_le)
  have b: "bit (0x400 :: u32) n \<longleftrightarrow> n = 10" for n using bit_exp_iff [of 10 n, where ?'a = "32 word"] by (auto simp: possible_bit_word)
  have s: "sext v 12 = signed_take_bit 11 v" for v using sext_signed [of 11 v] by simp
  show "sext r 12 = r" unfolding s by (rule bit_word_eqI) (use o in \<open>auto simp: bit_signed_take_bit_iff min_def\<close>)
  define k :: u32 where "k = 0x400"
  note b = b [folded k_def]
  have "sext (k OR r) 12 = k OR r"
    unfolding s by (rule bit_word_eqI) (use o in \<open>auto simp: bit_signed_take_bit_iff min_def bit_or_iff b\<close>)
  also have "\<dots> = k + r" by (rule disjunctive_add [symmetric]) (use o [of 10] in \<open>auto simp: b\<close>)
  finally show "sext (0x400 OR r) 12 = 0x400 + r" unfolding k_def .
qed

lemmas uimm_sext =
  sext_uimm [of 2 "[6, 5, 11, 12, 7, 8, 9, 10]" 11, simplified] sext_uimm [of 3 "[10, 11, 12, 5, 6]" 11, simplified]
  sext_uimm [of 2 "[6, 10, 11, 12, 5]" 11, simplified] sext_uimm [of 3 "[5, 6, 12, 2, 3, 4]" 11, simplified]
  sext_uimm [of 2 "[4, 5, 6, 12, 2, 3]" 11, simplified] sext_uimm [of 3 "[10, 11, 12, 7, 8, 9]" 11, simplified]
  sext_uimm [of 2 "[9, 10, 11, 12, 7, 8]" 11, simplified]
lemmas uimm_take =
  take_bit_uimm [of 2 "[6, 5, 11, 12, 7, 8, 9, 10]" 12, simplified] take_bit_uimm [of 3 "[10, 11, 12, 5, 6]" 12, simplified]
  take_bit_uimm [of 2 "[6, 10, 11, 12, 5]" 12, simplified] take_bit_uimm [of 3 "[5, 6, 12, 2, 3, 4]" 12, simplified]
  take_bit_uimm [of 2 "[4, 5, 6, 12, 2, 3]" 12, simplified] take_bit_uimm [of 3 "[10, 11, 12, 7, 8, 9]" 12, simplified]
  take_bit_uimm [of 2 "[9, 10, 11, 12, 7, 8]" 12, simplified]

lemma funct3_cases: "take_bit 3 (x :: u32) \<in> {0, 1, 2, 3, 4, 5, 6, 7}"
proof -
  have "unat (take_bit 3 x) < 8" using take_bit_nat_less_exp [of 3 "unat x"] by (simp add: unat_take_bit)
  then have "unat (take_bit 3 x) \<in> {0, 1, 2, 3, 4, 5, 6, 7}" by auto
  then show ?thesis by (auto simp: word_unat_eq_iff)
qed

lemma rvc_q0_decode: "Option.bind (rvc_q0 h) (\<lambda>c. decode32 d c True (instr_new uid FU_ALU)) = cx_q0 uid h"
proof -
  define f where "f = take_bit 3 (drop_bit 13 h)"
  have f: "drop_bit 13 h AND 7 = f" by (simp add: f_def and_masks)
  show ?thesis
    using funct3_cases [of "drop_bit 13 h"]
    unfolding rvc_q0_def cx_q0_def Let_def f f_def [symmetric] imm_words regs
    by (elim insertE emptyE)
      (simp_all add: decode_OPI decode_LOAD decode_STORE uimm_sext uimm_take decode_alu_op_def)
qed

lemma funct2_cases: "take_bit 2 (x :: u32) \<in> {0, 1, 2, 3}"
proof -
  have "unat (take_bit 2 x) < 4" using take_bit_nat_less_exp [of 2 "unat x"] by (simp add: unat_take_bit)
  then have "unat (take_bit 2 x) \<in> {0, 1, 2, 3}" by auto
  then show ?thesis by (auto simp: word_unat_eq_iff)
qed

lemma decode_shift:
  assumes "sh = uimm 0 [2, 3, 4, 5, 6, 12] h"
  shows "decode32 d (ENCI sh rs1 5 rd 0b0010011) r (instr_new uid FU_ALU) =
      Some (asm_i uid False ALU_SRL (take_bit 5 rd) (take_bit 5 rs1) sh)"
    and "decode32 d (ENCI (sh OR 0x400) rs1 5 rd 0b0010011) r (instr_new uid FU_ALU) =
      Some (asm_i uid False ALU_SRA (take_bit 5 rd) (take_bit 5 rs1) sh)"
    and "decode32 d (ENCI sh rs1 1 rd 0b0010011) r (instr_new uid FU_ALU) =
      Some (asm_i uid False ALU_SLL (take_bit 5 rd) (take_bit 5 rs1) sh)"
proof -
  have n: "take_bit 3 (5 :: u32) = 5" "take_bit 3 (1 :: u32) = 1" "(0b0010011 :: u32) \<noteq> 0b0011011" "(5 :: u32) \<noteq> 0" "(5 :: u32) \<noteq> 1"
      "(5 :: u32) \<noteq> 2" "(5 :: u32) \<noteq> 3" "(5 :: u32) \<noteq> 4" "(1 :: u32) \<noteq> 0" "(0 :: u32) \<noteq> 0x10"
    by simp_all
  show "decode32 d (ENCI sh rs1 5 rd 0b0010011) r (instr_new uid FU_ALU) =
      Some (asm_i uid False ALU_SRL (take_bit 5 rd) (take_bit 5 rs1) sh)"
    and "decode32 d (ENCI (sh OR 0x400) rs1 5 rd 0b0010011) r (instr_new uid FU_ALU) =
      Some (asm_i uid False ALU_SRA (take_bit 5 rd) (take_bit 5 rs1) sh)"
    and "decode32 d (ENCI sh rs1 1 rd 0b0010011) r (instr_new uid FU_ALU) =
      Some (asm_i uid False ALU_SLL (take_bit 5 rd) (take_bit 5 rs1) sh)"
    unfolding decode_OPI [of "0b0010011", OF disjI1 [OF refl]] n shift_word [OF assms] decode_alu_op_def
    by (simp_all only: n if_True if_False simp_thms)
qed

lemma decode_addi:
  assumes "sext (take_bit 12 m) 12 = m" and "opc = 0b0010011 \<or> opc = 0b0011011"
  shows "decode32 d (ENCI m rs1 0 rd opc) r (instr_new uid FU_ALU) =
      Some (asm_i uid (opc = 0b0011011) ALU_ADD (take_bit 5 rd) (take_bit 5 rs1) m)"
    and "decode32 d (ENCI (m AND 0xFFF) rs1 0 rd opc) r (instr_new uid FU_ALU) =
      Some (asm_i uid (opc = 0b0011011) ALU_ADD (take_bit 5 rd) (take_bit 5 rs1) m)"
    and "decode32 d (ENCI (m AND 0xFFF) rs1 7 rd opc) r (instr_new uid FU_ALU) =
      Some (asm_i uid (opc = 0b0011011) ALU_AND (take_bit 5 rd) (take_bit 5 rs1) m)"
  unfolding decode_OPI [OF assms(2)] by (simp_all add: assms(1) decode_alu_op_def and_masks)

lemma decode_arith:
  assumes "take_bit 5 rs2 = rs2" and "opc = 0b0110011 \<or> opc = 0b0111011"
  shows "decode32 d (ENCR 0b0100000 rs2 rs1 0 rd opc) r (instr_new uid FU_ALU) =
      Some (asm_r uid (opc = 0b0111011) ALU_SUB (take_bit 5 rd) (take_bit 5 rs1) rs2 (0x400 + rs2))"
    and "decode32 d (ENCR 0 rs2 rs1 0 rd opc) r (instr_new uid FU_ALU) =
      Some (asm_r uid (opc = 0b0111011) ALU_ADD (take_bit 5 rd) (take_bit 5 rs1) rs2 rs2)"
    and "decode32 d (ENCR 0 rs2 rs1 4 rd opc) r (instr_new uid FU_ALU) =
      Some (asm_r uid (opc = 0b0111011) ALU_XOR (take_bit 5 rd) (take_bit 5 rs1) rs2 rs2)"
    and "decode32 d (ENCR 0 rs2 rs1 6 rd opc) r (instr_new uid FU_ALU) =
      Some (asm_r uid (opc = 0b0111011) ALU_OR (take_bit 5 rd) (take_bit 5 rs1) rs2 rs2)"
    and "decode32 d (ENCR 0 rs2 rs1 7 rd opc) r (instr_new uid FU_ALU) =
      Some (asm_r uid (opc = 0b0111011) ALU_AND (take_bit 5 rd) (take_bit 5 rs1) rs2 rs2)"
  by (subst decode_OPR [OF assms(2)]; simp add: assms(1) alu_imm_word [OF assms(1)] decode_alu_op_def)+

lemma rvc_q1_alu_decode: "Option.bind (rvc_q1_alu h) (\<lambda>c. decode32 d c True (instr_new uid FU_ALU)) = cx_alu uid h"
proof -
  define s where "s = take_bit 2 (drop_bit 10 h)"
  define t where "t = take_bit 2 (drop_bit 5 h)"
  define sh where "sh = uimm 0 [2, 3, 4, 5, 6, 12] h"
  have st: "s \<in> {0, 1, 2, 3}" "t \<in> {0, 1, 2, 3}" unfolding s_def t_def by (rule funct2_cases)+
  have m: "sext (take_bit 12 (simm 0 [2, 3, 4, 5, 6, 12] h)) 12 = simm 0 [2, 3, 4, 5, 6, 12] h"
    using simm_cut [of 0 "[2, 3, 4, 5, 6, 12]" 11 h] by simp
  show ?thesis
    using st
    unfolding rvc_q1_alu_def cx_alu_def Let_def imm_words(1) simm_ci regs s_def [symmetric] t_def [symmetric] sh_def [symmetric] srai_word
    by (elim insertE emptyE; simp add: decode_shift [OF sh_def] decode_arith decode_addi [OF m])
qed

lemma rvc_q1_decode: "Option.bind (rvc_q1 h) (\<lambda>c. decode32 d c True (instr_new uid FU_ALU)) = cx_q1 uid h"
proof -
  define f where "f = take_bit 3 (drop_bit 13 h)"
  define n where "n = simm 0 [2, 3, 4, 5, 6, 12] h"
  define m where "m = simm 4 [6, 2, 5, 3, 4, 12] h"
  define u where "u = simm 12 [2, 3, 4, 5, 6, 12] h"
  define j where "j = simm 1 [3, 4, 5, 11, 2, 7, 6, 9, 10, 8, 12] h"
  define b where "b = simm 1 [3, 4, 10, 11, 2, 5, 6, 12] h"
  have f: "drop_bit 13 h AND 7 = f" and fs: "f \<in> {0, 1, 2, 3, 4, 5, 6, 7}" using funct3_cases [of "drop_bit 13 h"] by (simp_all add: f_def and_masks)
  have x: "sext (take_bit 12 n) 12 = n" "sext (take_bit 12 m) 12 = m" "sext (take_bit 21 j) 21 = j" "sext (take_bit 13 b) 13 = b"
    using simm_cut [of 0 "[2, 3, 4, 5, 6, 12]" 11 h] simm_cut [of 4 "[6, 2, 5, 3, 4, 12]" 11 h]
      simm_cut [of 1 "[3, 4, 5, 11, 2, 7, 6, 9, 10, 8, 12]" 20 h] simm_cut [of 1 "[3, 4, 10, 11, 2, 5, 6, 12]" 12 h]
    by (simp_all add: n_def m_def j_def b_def)
  have e: "even (take_bit 21 j)" "even (take_bit 13 b)" using simm_even [of h] by (simp_all add: j_def b_def even_take_bit_eq)
  have z: "take_bit 5 (0 :: u32) = 0" "take_bit 5 (2 :: u32) = 2" "take_bit 3 (0 :: u32) = 0" "take_bit 3 (1 :: u32) = 1" by simp_all
  have u: "push_bit 12 (take_bit 20 (signed_drop_bit 12 u)) = u" unfolding u_def by (rule lui_word)
  note dec = decode_addi [OF x(1)] decode_addi [OF x(2)] decode_LUI decode_J [OF e(1)] decode_BR [OF e(2)] take_bit_take_bit min.idem
    x u z rvc_q1_alu_decode
  have nop: "decode32 d (ENCI 0 0 0 0 0b0010011) True (instr_new uid FU_ALU) = Some (asm_i uid False ALU_ADD 0 0 0)"
    by (subst decode_OPI) (simp_all add: decode_alu_op_def sext_def)
  show ?thesis
    using fs
    unfolding rvc_q1_def cx_q1_def Let_def f f_def [symmetric] simm_ci imm_words(7,8) simm_words
    unfolding regs n_def [symmetric] m_def [symmetric] u_def [symmetric] j_def [symmetric] b_def [symmetric]
    by (elim insertE emptyE; simp add: dec nop)
qed

lemma rvc_q2_decode: "Option.bind (rvc_q2 h) (\<lambda>c. decode32 d c True (instr_new uid FU_ALU)) = cx_q2 uid h"
proof -
  define f where "f = take_bit 3 (drop_bit 13 h)"
  define sh where "sh = uimm 0 [2, 3, 4, 5, 6, 12] h"
  have f: "drop_bit 13 h AND 7 = f" and fs: "f \<in> {0, 1, 2, 3, 4, 5, 6, 7}" using funct3_cases [of "drop_bit 13 h"] by (simp_all add: f_def and_masks)
  have e: "decode32 d 0x00100073 True (instr_new uid FU_ALU) =
      Some (asm uid FU_ALU (OpBr BR_SYS) (br_args 0 False 1) reg_none reg_none reg_none True)"
    by (subst decode32_dispatch(7)) (simp_all add: f_opcode_def decode_sys_def f_funct3_def asm_simps)
  have s0: "sext 0 12 = 0" by (simp add: sext_def)
  show ?thesis
    using fs
    unfolding rvc_q2_def cx_q2_def rvc_q2_cr_def Let_def f f_def [symmetric] imm_words
    unfolding regs sh_def [symmetric]
    by (elim insertE emptyE; simp add: decode_shift [OF sh_def] decode_arith decode_LOAD decode_STORE decode_JALR e s0 uimm_sext uimm_take)
qed

end
