(* ===== verification/Decode_Types.thy ===== *)
theory Decode_Types
  imports Decode_Rvc
begin

text \<open>
  What every decoded instruction satisfies: its operation belongs to the unit it is sent to and comes with the arguments that unit
  reads, its registers exist, and it holds its warp exactly when the pipeline expects it to. The setters of \<open>Instr\<close> carry the proofs.
\<close>

text \<open>The unit an operation is for, the arguments it reads, and the instructions that hold their warp.\<close>

definition unit_of :: "OpType \<Rightarrow> FUType" where
  "unit_of t = (case t of
     OpAlu _ \<Rightarrow> FU_ALU | OpBr _ \<Rightarrow> FU_ALU | OpMdv _ \<Rightarrow> FU_ALU | OpVote _ \<Rightarrow> FU_ALU | OpShfl _ \<Rightarrow> FU_ALU | OpWgather \<Rightarrow> FU_ALU
   | OpLsu _ \<Rightarrow> FU_LSU | OpAmo _ \<Rightarrow> FU_LSU | OpFpu _ \<Rightarrow> FU_FPU | OpCsr _ \<Rightarrow> FU_SFU | OpWctl _ \<Rightarrow> FU_SFU | OpDxa \<Rightarrow> FU_SFU
   | OpDsmem _ \<Rightarrow> FU_SFU | OpTex \<Rightarrow> FU_SFU | OpOm _ \<Rightarrow> FU_SFU | OpRtu _ \<Rightarrow> FU_SFU)"

text \<open>The alternative of the variant that the unit reads, and for each of its bit fields the width of its declaration in \<open>types.h\<close>.\<close>

definition args_fit :: "OpType \<Rightarrow> IntrArgs \<Rightarrow> bool" where
  "args_fit t a = (case t of
     OpAlu _ \<Rightarrow> (\<exists>x. a = ArgsAlu x)
   | OpBr _ \<Rightarrow> (\<exists>x. a = ArgsBr x \<and> br_cmp x < 2 ^ 3)
   | OpMdv _ \<Rightarrow> (\<exists>x. a = ArgsMdv x)
   | OpLsu _ \<Rightarrow> (\<exists>x. a = ArgsLsu x \<and> lsu_width x < 2 ^ 3 \<and> lsu_stride x < 2 ^ 4)
   | OpAmo _ \<Rightarrow> (\<exists>x. a = ArgsAmo x \<and> amo_width x < 2 ^ 3 \<and> amo_aq x < 2 \<and> amo_rl x < 2)
   | OpFpu _ \<Rightarrow> (\<exists>x. a = ArgsFpu x \<and> fpu_frm x < 2 ^ 3 \<and> fpu_cvt x < 2 ^ 2)
   | OpCsr _ \<Rightarrow> (\<exists>x. a = ArgsCsr x \<and> csr_imm x < 2 ^ 5 \<and> csr_addr x < 2 ^ 12)
   | OpVote _ \<Rightarrow> True
   | OpShfl _ \<Rightarrow> True
   | OpWgather \<Rightarrow> (\<exists>x. a = ArgsWgather x \<and> x < 2 ^ 2)
   | OpWctl _ \<Rightarrow> (\<exists>x. a = ArgsWctl x)
   | OpDxa \<Rightarrow> a = ArgsDxa
   | OpDsmem _ \<Rightarrow> (\<exists>x y. a = ArgsDsmem x y)
   | OpTex \<Rightarrow> (\<exists>x. a = ArgsTex x \<and> tex_stage x < 2 ^ 2 \<and> tex_mode x < 2 \<and> tex_out_slot x < 2 ^ 5)
   | OpOm _ \<Rightarrow> (\<exists>x. a = ArgsOm x \<and> x < 2 ^ 2)
   | OpRtu _ \<Rightarrow> (\<exists>x. a = ArgsRtu x \<and> rtu_slot x < 2 ^ 5 \<and> rtu_uop x < 2 ^ 4 \<and> rtu_count x < 2 ^ 4))"

definition regs_ok :: "Instr \<Rightarrow> bool" where
  "regs_ok i \<longleftrightarrow> length (rsrc i) = 3 \<and> (\<forall>r \<in> set (rdest i # rsrc i). reg_idx r < 32)"

definition instr_ok :: "Instr \<Rightarrow> bool" where
  "instr_ok i \<longleftrightarrow> regs_ok i \<and> args_fit (op_type i) (in_args i) \<and> fu_type i = unit_of (op_type i)"

lemma take_less_exp: "n < 32 \<Longrightarrow> take_bit n (x :: u32) < 2 ^ n"
  by (simp add: word_less_nat_alt unat_take_bit unat_pow2)

lemmas take_less [simp] = take_less_exp [of 1, simplified] take_less_exp [of 2, simplified] take_less_exp [of 3, simplified]
  take_less_exp [of 4, simplified] take_less_exp [of 5, simplified] take_less_exp [of 7, simplified] take_less_exp [of 12, simplified]

lemma f_less [simp]:
  "f_rd c < 32" "f_rs1 c < 32" "f_rs2 c < 32" "f_rs3 c < 32" "f_funct3 c < 8" "f_funct2 c < 4" "f_funct7 c < 128" "f_funct5 c < 32"
  unfolding field_defs and_masks by (rule take_less)+

lemma regs_ok_setters [simp]:
  "regs_ok (set_fu_type u i) = regs_ok i" "regs_ok (set_op_type t i) = regs_ok i" "regs_ok (set_args a i) = regs_ok i"
  "regs_ok (set_macro_op i) = regs_ok i" "regs_ok (set_wstall b i) = regs_ok i" "regs_ok (instr_new uid u)"
  by (simp_all add: regs_ok_def instr_setters instr_new_def MAX_REG_SOURCES_def reg_none_def)

lemma regs_ok_regs [intro]:
  "regs_ok i \<Longrightarrow> r < 32 \<Longrightarrow> regs_ok (set_dest_reg r t i)" "regs_ok i \<Longrightarrow> r < 32 \<Longrightarrow> n < 3 \<Longrightarrow> regs_ok (set_src_reg n r t i)"
  by (auto simp: regs_ok_def instr_setters dest!: set_update_subset_insert [THEN subsetD])


lemma and1_less: "(x :: u32) AND 1 < 2" "x AND 1 < 4" "x mod 2 < 2" "x mod 2 < 4"
  by (simp_all add: and_one_eq mod2_eq_if)

lemma slot_less: "take_bit 6 (drop_bit 2 (f_funct7 c) AND 31) < (32 :: u32)"
  unfolding and_masks by (simp add: take_bit_take_bit)

lemmas ok_simps = instr_ok_def args_fit_def unit_of_def Let_def alu_args_def br_args_def lsu_args_def amo_args_def fpu_args_def csr_args_def
  rtu_args_def windowed_def slot_less and1_less regs_ok_regs

lemma set_simps [simp]:
  "op_type (set_fu_type u i) = op_type i" "op_type (set_op_type t i) = t" "op_type (set_args a i) = op_type i"
  "op_type (set_macro_op i) = op_type i" "op_type (set_wstall b i) = op_type i" "op_type (set_dest_reg r ty i) = op_type i"
  "op_type (set_src_reg n r ty i) = op_type i"
  "in_args (set_fu_type u i) = in_args i" "in_args (set_op_type t i) = in_args i" "in_args (set_args a i) = a"
  "in_args (set_macro_op i) = in_args i" "in_args (set_wstall b i) = in_args i" "in_args (set_dest_reg r ty i) = in_args i"
  "in_args (set_src_reg n r ty i) = in_args i"
  "fu_type (set_fu_type u i) = u" "fu_type (set_op_type t i) = fu_type i" "fu_type (set_args a i) = fu_type i"
  "fu_type (set_macro_op i) = fu_type i" "fu_type (set_wstall b i) = fu_type i" "fu_type (set_dest_reg r ty i) = fu_type i"
  "fu_type (set_src_reg n r ty i) = fu_type i"
  "rdest (set_fu_type u i) = rdest i" "rdest (set_op_type t i) = rdest i" "rdest (set_args a i) = rdest i"
  "rdest (set_macro_op i) = rdest i" "rdest (set_wstall b i) = rdest i" "rdest (set_dest_reg r ty i) = \<lparr>reg_type = ty, reg_idx = r\<rparr>"
  "rdest (set_src_reg n r ty i) = rdest i"
  "is_wstall (set_fu_type u i) = is_wstall i" "is_wstall (set_op_type t i) = is_wstall i" "is_wstall (set_args a i) = is_wstall i"
  "is_wstall (set_macro_op i) = is_wstall i" "is_wstall (set_wstall b i) = b" "is_wstall (set_dest_reg r ty i) = is_wstall i"
  "is_wstall (set_src_reg n r ty i) = is_wstall i"
  "is_macro_op (set_fu_type u i) = is_macro_op i" "is_macro_op (set_op_type t i) = is_macro_op i" "is_macro_op (set_args a i) = is_macro_op i"
  "is_macro_op (set_macro_op i)" "is_macro_op (set_wstall b i) = is_macro_op i" "is_macro_op (set_dest_reg r ty i) = is_macro_op i"
  "is_macro_op (set_src_reg n r ty i) = is_macro_op i"
  "fu_type (instr_new uid u) = u" "\<not> is_wstall (instr_new uid u)" "\<not> is_macro_op (instr_new uid u)" "rdest (instr_new uid u) = reg_none"
  "in_args (instr_new uid u) = alu_args False False 0"
  by (simp_all add: instr_setters instr_new_def)

lemma rsrc_simps [simp]:
  "rsrc (set_fu_type u i) = rsrc i" "rsrc (set_op_type t i) = rsrc i" "rsrc (set_args a i) = rsrc i"
  "rsrc (set_macro_op i) = rsrc i" "rsrc (set_wstall b i) = rsrc i" "rsrc (set_dest_reg r ty i) = rsrc i"
  "rsrc (set_src_reg n r ty i) = (rsrc i)[n := \<lparr>reg_type = ty, reg_idx = r\<rparr>]"
  "rsrc (instr_new uid u) = [reg_none, reg_none, reg_none]"
  by (simp_all add: instr_setters instr_new_def MAX_REG_SOURCES_def numeral_3_eq_3)

definition holds_warp :: "Instr \<Rightarrow> bool" where
  "holds_warp i \<longleftrightarrow> is_macro_op i \<or> (case op_type i of OpBr _ \<Rightarrow> True | OpDsmem _ \<Rightarrow> True
     | OpWctl t \<Rightarrow> (case in_args i of ArgsWctl a \<Rightarrow> \<not> is_bar_arrive a | _ \<Rightarrow> False) | _ \<Rightarrow> False)"

definition arrives :: "Instr \<Rightarrow> bool" where
  "arrives i \<longleftrightarrow> (\<forall>t a. op_type i = OpWctl t \<and> in_args i = ArgsWctl a \<longrightarrow>
     (is_bar_arrive a \<longleftrightarrow> t = BAR \<and> \<not> is_sync_bar a \<and> trace_wb i))"

definition dec_ok :: "Instr \<Rightarrow> bool" where
  "dec_ok i \<longleftrightarrow> instr_ok i \<and> (is_wstall i \<longleftrightarrow> holds_warp i) \<and> arrives i"

lemmas dec_ok_simps = dec_ok_def holds_warp_def arrives_def trace_wb_def ok_simps

definition not_wctl :: "Instr \<Rightarrow> bool" where
  "not_wctl i \<longleftrightarrow> (case op_type i of OpWctl _ \<Rightarrow> False | _ \<Rightarrow> True)"

lemma not_wctl_set [simp]:
  "not_wctl (set_dest_reg r ty i) = not_wctl i" "not_wctl (set_src_reg n r ty i) = not_wctl i" "not_wctl (set_args a i) = not_wctl i"
  "not_wctl (set_fu_type u i) = not_wctl i" "not_wctl (set_macro_op i) = not_wctl i" "not_wctl (set_wstall b i) = not_wctl i"
  "not_wctl (set_op_type t i) = (case t of OpWctl _ \<Rightarrow> False | _ \<Rightarrow> True)"
  by (simp_all add: not_wctl_def)

lemma dec_ok_regs [intro]:
  "dec_ok i \<Longrightarrow> r < 32 \<Longrightarrow> n < 3 \<Longrightarrow> dec_ok (set_src_reg n r ty i)"
  "dec_ok i \<Longrightarrow> r < 32 \<Longrightarrow> not_wctl i \<Longrightarrow> dec_ok (set_dest_reg r ty i)"
  by (auto simp: dec_ok_def instr_ok_def holds_warp_def arrives_def trace_wb_def not_wctl_def cong: OpType.case_cong split: OpType.splits)

text \<open>An instruction whose operation and arguments are set last.\<close>

definition blank :: "FUType \<Rightarrow> Instr \<Rightarrow> bool" where
  "blank u i \<longleftrightarrow> regs_ok i \<and> fu_type i = u \<and> \<not> is_wstall i \<and> \<not> is_macro_op i"

lemma blank_set [simp]:
  "blank u (instr_new uid u)" "blank u (set_fu_type u (instr_new uid v))" "blank u (set_op_type t i) = blank u i"
  "blank u (set_args a i) = blank u i"
  by (simp_all add: blank_def)

lemma blank_regs [intro]:
  "blank u i \<Longrightarrow> r < 32 \<Longrightarrow> n < 3 \<Longrightarrow> blank u (set_src_reg n r ty i)"
  "blank u i \<Longrightarrow> r < 32 \<Longrightarrow> blank u (set_dest_reg r ty i)"
  by (auto simp: blank_def)

lemma dec_ok_last:
  assumes "blank (unit_of t) i" and "args_fit t a" and "case t of OpBr _ \<Rightarrow> False | OpDsmem _ \<Rightarrow> False | OpWctl _ \<Rightarrow> False | _ \<Rightarrow> True"
  shows "dec_ok (set_args a (set_op_type t i))" "dec_ok (set_op_type t (set_args a i))"
  using assms by (auto simp: dec_ok_def instr_ok_def blank_def holds_warp_def arrives_def split: OpType.splits)

lemma dec_ok_stall:
  assumes "blank (unit_of t) i" and "args_fit t a" and "case t of OpBr _ \<Rightarrow> True | OpDsmem _ \<Rightarrow> True | _ \<Rightarrow> False"
  shows "dec_ok (set_wstall True (set_args a (set_op_type t i)))"
  using assms by (auto simp: dec_ok_def instr_ok_def blank_def holds_warp_def arrives_def split: OpType.splits)

lemma decode_alu_ok: "decode_alu c (instr_new uid FU_ALU) = Some i \<Longrightarrow> dec_ok i"
  unfolding decode_alu_def Let_def
  by (auto simp: alu_args_def args_fit_def unit_of_def split: if_splits intro!: dec_ok_regs dec_ok_last)

text \<open>Setters of different fields commute: registers outermost, the operation and its arguments innermost.\<close>

lemma norm_setters:
  "set_args a (set_dest_reg r ty i) = set_dest_reg r ty (set_args a i)" "set_args a (set_src_reg n r ty i) = set_src_reg n r ty (set_args a i)"
  "set_op_type t (set_dest_reg r ty i) = set_dest_reg r ty (set_op_type t i)" "set_op_type t (set_src_reg n r ty i) = set_src_reg n r ty (set_op_type t i)"
  "set_wstall b (set_dest_reg r ty i) = set_dest_reg r ty (set_wstall b i)" "set_wstall b (set_src_reg n r ty i) = set_src_reg n r ty (set_wstall b i)"
  "set_macro_op (set_dest_reg r ty i) = set_dest_reg r ty (set_macro_op i)" "set_macro_op (set_src_reg n r ty i) = set_src_reg n r ty (set_macro_op i)"
  "set_args a (set_wstall b i) = set_wstall b (set_args a i)" "set_args a (set_macro_op i) = set_macro_op (set_args a i)"
  by (simp_all add: instr_setters)

lemma dec_ok_macro:
  assumes "blank (unit_of t) i" and "args_fit t a" and "case t of OpWctl _ \<Rightarrow> False | _ \<Rightarrow> True"
  shows "dec_ok (set_wstall True (set_macro_op (set_args a (set_op_type t i))))"
  using assms by (auto simp: dec_ok_def instr_ok_def blank_def holds_warp_def arrives_def split: OpType.splits)

lemma dec_ok_default: "blank FU_ALU i \<Longrightarrow> dec_ok (set_op_type (OpVote v) i)" "blank FU_ALU i \<Longrightarrow> dec_ok (set_op_type (OpShfl w) i)"
  by (simp_all add: dec_ok_def instr_ok_def blank_def holds_warp_def arrives_def unit_of_def args_fit_def)

lemmas fit_simps = args_fit_def unit_of_def alu_args_def br_args_def lsu_args_def amo_args_def fpu_args_def csr_args_def rtu_args_def slot_less and1_less
lemmas dec_ok_intros = dec_ok_regs dec_ok_last dec_ok_stall dec_ok_macro dec_ok_default

lemma decode_plain_ok:
  "dec_ok (decode_upper c (instr_new uid FU_ALU))" "dec_ok (decode_branch c r (instr_new uid FU_ALU))"
  "dec_ok (decode_jal c r (instr_new uid FU_ALU))" "dec_ok (decode_jalr c r (instr_new uid FU_ALU))"
  "dec_ok (decode_mem c (instr_new uid FU_ALU))" "dec_ok (decode_fma c (instr_new uid FU_ALU))" "dec_ok (decode_vote c (instr_new uid FU_ALU))"
  "dec_ok (decode_fence (instr_new uid FU_ALU))"
  unfolding decode_upper_def decode_branch_def decode_jal_def decode_jalr_def decode_mem_def decode_fma_def decode_vote_def decode_fence_def Let_def norm_setters
  by (auto simp: fit_simps norm_setters intro!: dec_ok_intros)

lemma decode_amo_ok: "decode_amo c (instr_new uid FU_ALU) = Some i \<Longrightarrow> dec_ok i"
  unfolding decode_amo_def Let_def by (auto simp: fit_simps norm_setters bind_eq_Some_conv intro!: dec_ok_intros)

lemma decode_sys_ok: "decode_sys c (instr_new uid FU_ALU) = Some i \<Longrightarrow> dec_ok i"
  unfolding decode_sys_def Let_def by (auto simp: fit_simps norm_setters split: if_splits intro!: dec_ok_intros)

lemma decode_fci_ok: "decode_fci c (instr_new uid FU_ALU) = Some i \<Longrightarrow> dec_ok i"
  unfolding decode_fci_def Let_def norm_setters by (auto simp: fit_simps norm_setters split: if_splits intro!: dec_ok_intros)

lemma decode_pack_ok: "decode_pack c (instr_new uid FU_ALU) = Some i \<Longrightarrow> dec_ok i"
  unfolding decode_pack_def Let_def norm_setters by (auto simp: fit_simps norm_setters split: if_splits intro!: dec_ok_intros)

lemma dec_ok_wctl:
  assumes "blank FU_SFU i" and "b \<longleftrightarrow> \<not> is_bar_arrive a" and "is_bar_arrive a \<longleftrightarrow> t = BAR \<and> \<not> is_sync_bar a \<and> trace_wb i"
  shows "dec_ok (set_wstall b (set_args (ArgsWctl a) (set_op_type (OpWctl t) i)))"
  using assms by (auto simp: dec_ok_def instr_ok_def blank_def holds_warp_def arrives_def unit_of_def args_fit_def trace_wb_def)

lemma wctl_setters:
  "set_args a (set_wstall b i) = set_wstall b (set_args a i)" "set_op_type t (set_dest_reg r ty i) = set_dest_reg r ty (set_op_type t i)"
  "set_src_reg n r ty (set_op_type t i) = set_op_type t (set_src_reg n r ty i)"
  "set_dest_reg r ty (set_op_type t i) = set_op_type t (set_dest_reg r ty i)"
  by (simp_all add: instr_setters)

lemma trace_wb_set [simp]:
  "trace_wb (set_src_reg n r ty i) = trace_wb i" "trace_wb (set_fu_type u i) = trace_wb i" "\<not> trace_wb (instr_new uid u)"
  "trace_wb (set_dest_reg r RegInteger i) \<longleftrightarrow> r \<noteq> 0"
  by (simp_all add: trace_wb_def reg_none_def)

lemma decode_wctl_ok: "dec_ok (decode_wctl c (instr_new uid FU_ALU))"
  unfolding decode_wctl_def Let_def wctl_setters(1,3,4)
  by (auto simp: wctl_args0_def intro!: dec_ok_wctl blank_regs)

lemma decode_ext1_ok:
  assumes "decode_ext1 d c (instr_new uid FU_ALU) = Some i"
  shows "dec_ok i"
proof (cases "f_funct7 c = 4")
  case True
  then show ?thesis using assms decode_pack_ok by (simp add: decode_ext1_def Let_def)
next
  case False
  then show ?thesis
    using assms decode_wctl_ok decode_plain_ok(7) unfolding decode_ext1_def decode_dxa_def decode_dsmem_def Let_def norm_setters
    by (auto simp: fit_simps norm_setters split: if_splits intro!: dec_ok_intros)
qed

lemma decode_ext2_ok:
  assumes "decode_ext2 d c (instr_new uid FU_ALU) = Some i"
  shows "dec_ok i"
  using assms unfolding decode_ext2_defs Let_def norm_setters
  by (auto simp: fit_simps norm_setters bind_eq_Some_conv check_def and_masks split: if_splits intro!: dec_ok_intros)

lemma decode32_ok: "decode32 d c r (instr_new uid FU_ALU) = Some i \<Longrightarrow> dec_ok i"
  unfolding decode32_def Let_def
  by (auto split: if_splits intro: decode_plain_ok decode_alu_ok decode_amo_ok decode_sys_ok decode_fci_ok decode_ext1_ok decode_ext2_ok)

lemma decode_ok: "decode d c uid = Some i \<Longrightarrow> dec_ok i"
  unfolding decode_def Let_def by (auto simp: bind_eq_Some_conv intro: decode32_ok)

end
