(* ===== verification/Decode_Print.thy ===== *)
theory Decode_Print
  imports Decode_Types
begin

text \<open>
  The printer of the trace, group by group: the decoded instructions it prints and the ones it aborts on.
\<close>

text \<open>The encodings that the decoder accepts and the printer of the trace does not know.\<close>

definition reserved :: "u32 \<Rightarrow> bool" where
  "reserved c \<longleftrightarrow> (let opc = f_opcode c; f = f_funct3 c; f7 = f_funct7 c in
     opc = Opcode_B \<and> f \<in> {2, 3} \<or> opc = Opcode_L \<and> f = 7 \<or> opc = Opcode_S \<and> 4 \<le> f \<or> opc = Opcode_FL \<and> 4 \<le> f \<or>
     opc = Opcode_FS \<and> f \<notin> {2, 3} \<or> opc = Opcode_AMO \<and> f \<notin> {2, 3} \<or>
     opc = Opcode_SYS \<and> f = 0 \<and> drop_bit 20 c \<notin> {0, 1, 2, 0x102, 0x302} \<or>
     opc = Opcode_FCI \<and> f7 \<in> {0x50, 0x51, 0x10, 0x11} \<and> 3 \<le> f \<or> opc = Opcode_FCI \<and> f7 \<in> {0x14, 0x15} \<and> 2 \<le> f)"

lemma take_funct3 [simp]: "take_bit 3 (f_funct3 c) = f_funct3 c"
  by (simp add: f_funct3_def and_masks)

lemma funct3_in: "f_funct3 c \<in> {0, 1, 2, 3, 4, 5, 6, 7}"
  using funct3_cases [of "drop_bit 12 c"] by (simp add: f_funct3_def and_masks)

lemma cvt_in: "take_bit 2 (x :: u32) = 0 \<or> take_bit 2 x = 1 \<or> take_bit 2 x = 2 \<or> take_bit 2 x = 3"
  using funct2_cases [of x] by simp

lemma le_one [simp]: "\<not> (4 :: u32) \<le> 1" "\<not> (3 :: u32) \<le> 1" "\<not> (2 :: u32) \<le> 1"
  by (simp_all add: word_le_nat_alt)

lemmas str_simps = op_string_def Let_def br_args_def alu_args_def lsu_args_def amo_args_def fpu_args_def csr_args_def rtu_args_def

lemma str_alu: "decode_alu c (instr_new uid FU_ALU) = Some i \<Longrightarrow> op_string i \<noteq> None"
  unfolding decode_alu_def Let_def by (auto simp: str_simps split: if_splits)

lemma str_branch: "op_string (decode_branch c r (instr_new uid FU_ALU)) = None \<longleftrightarrow> f_funct3 c \<in> {2, 3}"
  unfolding decode_branch_def Let_def using funct3_in [of c] by (auto simp: str_simps br_string_def)

lemma str_jump: "op_string (decode_jal c r (instr_new uid FU_ALU)) \<noteq> None" "op_string (decode_jalr c r (instr_new uid FU_ALU)) \<noteq> None"
  "op_string (decode_upper c (instr_new uid FU_ALU)) \<noteq> None"
  unfolding decode_jal_def decode_jalr_def decode_upper_def Let_def by (simp_all add: str_simps br_string_def)

lemma str_mem:
  "op_string (decode_mem c (instr_new uid FU_ALU)) = None \<longleftrightarrow>
     (if f_opcode c = Opcode_L then f_funct3 c = 7 else if f_opcode c = Opcode_FL then 4 \<le> f_funct3 c
      else if f_opcode c = Opcode_FS then f_funct3 c \<notin> {2, 3} else 4 \<le> f_funct3 c)"
  unfolding decode_mem_def Let_def using funct3_in [of c]
  by (auto simp: str_simps load_string_def store_string_def opcode_defs reg_none_def)

lemma str_amo: "decode_amo c (instr_new uid FU_ALU) = Some i \<Longrightarrow> op_string i = None \<longleftrightarrow> f_funct3 c \<notin> {2, 3}"
  unfolding decode_amo_def Let_def by (auto simp: str_simps amo_string_def bind_eq_Some_conv)

lemma str_sys:
  "decode_sys c (instr_new uid FU_ALU) = Some i \<Longrightarrow>
     op_string i = None \<longleftrightarrow> f_funct3 c = 0 \<and> drop_bit 20 c \<notin> {0, 1, 2, 0x102, 0x302}"
  unfolding decode_sys_def Let_def by (auto simp: str_simps br_string_def split: if_splits)

lemma decode_fci_op:
  assumes "decode_fci c (instr_new uid FU_ALU) = Some i"
  obtains t where "op_type i = OpFpu t" "in_args i = fpu_args (f_funct3 c) (f_rs2 c) (f_funct7 c AND 1)"
    "t = FPU_FCMP \<longleftrightarrow> f_funct7 c \<in> {0x50, 0x51}" "t = FPU_FSGNJ \<longleftrightarrow> f_funct7 c \<in> {0x10, 0x11}"
    "t = FPU_FMINMAX \<longleftrightarrow> f_funct7 c \<in> {0x14, 0x15}"
  using assms unfolding decode_fci_def Let_def by (simp split: if_splits) (elim disjE; force)+

lemma fpu_string_none:
  assumes "a = fpu_args (f_funct3 c) cvt x"
  shows "(case a of ArgsFpu b \<Rightarrow> fpu_string t b | _ \<Rightarrow> None) = None \<longleftrightarrow>
    (t = FPU_FCMP \<or> t = FPU_FSGNJ) \<and> 3 \<le> f_funct3 c \<or> t = FPU_FMINMAX \<and> 2 \<le> f_funct3 c"
  using funct3_in [of c] cvt_in [of cvt] by (cases t; simp add: assms fpu_args_def fpu_string_def Let_def; elim disjE; simp)

lemma str_fci:
  assumes "decode_fci c (instr_new uid FU_ALU) = Some i"
  shows "op_string i = None \<longleftrightarrow>
    f_funct7 c \<in> {0x50, 0x51, 0x10, 0x11} \<and> 3 \<le> f_funct3 c \<or> f_funct7 c \<in> {0x14, 0x15} \<and> 2 \<le> f_funct3 c"
proof -
  obtain t where t: "op_type i = OpFpu t" "in_args i = fpu_args (f_funct3 c) (f_rs2 c) (f_funct7 c AND 1)"
    "t = FPU_FCMP \<longleftrightarrow> f_funct7 c \<in> {0x50, 0x51}" "t = FPU_FSGNJ \<longleftrightarrow> f_funct7 c \<in> {0x10, 0x11}"
    "t = FPU_FMINMAX \<longleftrightarrow> f_funct7 c \<in> {0x14, 0x15}" by (rule decode_fci_op [OF assms])
  have "op_string i = None \<longleftrightarrow> (t = FPU_FCMP \<or> t = FPU_FSGNJ) \<and> 3 \<le> f_funct3 c \<or> t = FPU_FMINMAX \<and> 2 \<le> f_funct3 c"
    using fpu_string_none [OF t(2)] by (simp add: op_string_def t(1))
  then show ?thesis unfolding t(3-5) by auto
qed

lemma str_fma: "op_string (decode_fma c (instr_new uid FU_ALU)) \<noteq> None"
  unfolding decode_fma_def Let_def by (simp add: str_simps fpu_string_def)

lemma str_ext1: "decode_ext1 d c (instr_new uid FU_ALU) = Some i \<Longrightarrow> op_string i \<noteq> None"
  unfolding decode_ext1_def decode_wctl_def decode_vote_def decode_pack_def decode_dxa_def decode_dsmem_def Let_def
  by (auto simp: str_simps load_string_def split: if_splits)

lemma ext2_op:
  assumes "decode_ext2 d c (instr_new uid FU_ALU) = Some i"
  shows "op_type i = OpWgather \<or> op_type i = OpTex \<or> (\<exists>t. op_type i = OpOm t) \<or> (\<exists>t. op_type i = OpRtu t)"
  using assms unfolding decode_ext2_defs Let_def
  by (auto simp: bind_eq_Some_conv check_def split: if_splits)

lemma str_ext2: "decode_ext2 d c (instr_new uid FU_ALU) = Some i \<Longrightarrow> op_string i \<noteq> None"
  using ext2_op [of d c uid i] by (auto simp: op_string_def Let_def)

lemma str_fence: "op_string (decode_fence (instr_new uid FU_ALU)) \<noteq> None"
  by (simp add: op_string_def decode_fence_def)

lemma decode32_none:
  "f_opcode c \<notin> {0b0110111, 0b0010111} \<union> {0b0111011, 0b0011011, 0b0110011, 0b0010011} \<union> {0b1100011, 0b1101111, 0b1100111} \<union>
     {0b0000011, 0b0000111, 0b0100011, 0b0100111} \<union> {0b0001111, 0b0101111, 0b1110011, 0b1010011} \<union>
     {0b1000011, 0b1000111, 0b1001111, 0b1001011} \<union> {0b0001011, 0b0101011} \<Longrightarrow> decode32 d c r i = None"
  by (simp add: decode32_def opcode_defs Let_def)

lemma str_decode32:
  assumes "decode32 d c r (instr_new uid FU_ALU) = Some i"
  shows "op_string i = None \<longleftrightarrow> reserved c"
proof -
  note d = decode32_def reserved_def opcode_defs Let_def
  consider (1) "f_opcode c \<in> {0b0110111, 0b0010111}" | (2) "f_opcode c \<in> {0b0111011, 0b0011011, 0b0110011, 0b0010011}"
    | (3) "f_opcode c = 0b1100011" | (4) "f_opcode c = 0b1101111" | (5) "f_opcode c = 0b1100111"
    | (6) "f_opcode c \<in> {0b0000011, 0b0000111, 0b0100011, 0b0100111}" | (7) "f_opcode c = 0b0001111" | (8) "f_opcode c = 0b0101111"
    | (9) "f_opcode c = 0b1110011" | (10) "f_opcode c = 0b1010011" | (11) "f_opcode c \<in> {0b1000011, 0b1000111, 0b1001111, 0b1001011}"
    | (12) "f_opcode c = 0b0001011" | (13) "f_opcode c = 0b0101011"
    using assms decode32_none [of c d r "instr_new uid FU_ALU"] unfolding Un_iff insert_iff empty_iff by fastforce
  then show ?thesis
  proof cases
    case 1 then show ?thesis using assms str_jump(3) [of c uid] by (elim insertE emptyE) (simp_all add: d)
  next
    case 2 then show ?thesis using assms str_alu [of c uid i] by (elim insertE emptyE) (simp_all add: d)
  next
    case 3 then show ?thesis using assms str_branch [of c r uid] by (simp add: d)
  next
    case 4 then show ?thesis using assms str_jump(1) [of c r uid] by (simp add: d)
  next
    case 5 then show ?thesis using assms str_jump(2) [of c r uid] by (simp add: d)
  next
    case 6 then show ?thesis using assms str_mem [of c uid] by (elim insertE emptyE) (simp_all add: d)
  next
    case 7 then show ?thesis using assms str_fence [of uid] by (simp add: d)
  next
    case 8 then show ?thesis using assms str_amo [of c uid i] by (simp add: d)
  next
    case 9 then show ?thesis using assms str_sys [of c uid i] by (simp add: d)
  next
    case 10 then show ?thesis using assms str_fci [of c uid i] by (simp add: d)
  next
    case 11 then show ?thesis using assms str_fma [of c uid] by (elim insertE emptyE) (simp_all add: d)
  next
    case 12 then show ?thesis using assms str_ext1 [of d c uid i] by (simp add: d)
  next
    case 13 then show ?thesis using assms str_ext2 [of d c uid i] by (simp add: d)
  qed
qed

lemma str_asm:
  "op_string (asm_i uid w t rd rs1 m) \<noteq> None" "op_string (asm_r uid w t rd rs1 rs2 m) \<noteq> None"
  "k = 2 \<or> k = 3 \<Longrightarrow> op_string (asm_load uid k x rs1 off) \<noteq> None" "k = 2 \<or> k = 3 \<Longrightarrow> op_string (asm_store uid k x rs1 off) \<noteq> None"
  "c = 0 \<or> c = 1 \<Longrightarrow> op_string (asm_branch uid c rs1 rs2 off rv) \<noteq> None" "op_string (asm_jal uid rd off rv) \<noteq> None"
  "op_string (asm_jalr uid rd rs1 off rv) \<noteq> None" "op_string (asm_lui uid rd m) \<noteq> None"
  "op_string (asm uid FU_ALU (OpBr BR_SYS) (br_args 0 False 1) a b e s) \<noteq> None"
  by (auto simp: asm_defs str_simps br_string_def load_string_def store_string_def)

lemma str_cx: "cx uid h = Some i \<Longrightarrow> op_string i \<noteq> None"
proof -
  have "pred_option (\<lambda>i. op_string i \<noteq> None) (cx uid h)"
    unfolding cx_def cx_q0_def cx_q1_def cx_alu_def cx_q2_def Let_def by (simp add: str_asm del: not_None_eq)
  then show "cx uid h = Some i \<Longrightarrow> op_string i \<noteq> None" by simp
qed

text \<open>Expansion and decoding against the table.\<close>

lemma decode_table:
  "decode d code uid =
     (if code AND 3 = 3 then decode32 d code False (instr_new uid FU_ALU) else cx uid (code AND 0xFFFF))"
proof (cases "code AND 3 = 3")
  case True
  then show ?thesis by (simp add: decode_def)
next
  case False
  define h where "h = code AND 0xFFFF"
  have q: "h AND 3 = code AND 3" "h AND 0xFFFF = h"
    by (simp_all add: h_def and_masks take_bit_take_bit)
  have "decode d code uid = Option.bind (if h AND 3 = 0 then rvc_q0 h else if h AND 3 = 1 then rvc_q1 h else rvc_q2 h)
    (\<lambda>c. decode32 d c True (instr_new uid FU_ALU))"
    using False q unfolding decode_def Let_def h_def [symmetric] rvc_decompress_def by (auto simp: check_def split: option.splits)
  also have "\<dots> = cx uid h" by (simp add: cx_def rvc_q0_decode rvc_q1_decode rvc_q2_decode and_masks(2))
  finally show ?thesis using False by (simp add: h_def)
qed

end
