(* ===== verification/Decode_Props.thy ===== *)
theory Decode_Props
  imports Decode_Print
begin

text \<open>The properties of the decoder, with an \<open>ADDI\<close>, a barrier wait and a reserved branch as witnesses.\<close>

definition dcfg0 :: dec_cfg where
  "dcfg0 = \<lparr>ext_dxa = False, ext_dsmem = False, ext_tex = False, ext_om = False, ext_rtu = False, ext_raster = False, strict_doctrine = False\<rparr>"

definition addi5 :: Instr where "addi5 = asm_i 7 False ALU_ADD 1 0 5"
definition beq2 :: Instr where "beq2 = asm_branch 7 2 0 0 0 False"

definition bar_wait_instr :: Instr where
  "bar_wait_instr = (instr_new 7 FU_SFU)\<lparr>op_type := OpWctl BAR, in_args := ArgsWctl wctl_args0, rsrc := [ireg 1, ireg 2, reg_none],
     rdest := ireg 0, is_wstall := True\<rparr>"

lemma dec_examples: "decode dcfg0 0x00500093 7 = Some addi5" "decode dcfg0 0x00002063 7 = Some beq2" "decode dcfg0 0x0020E00B 7 = Some bar_wait_instr"
  by code_simp+

text \<open>
  C6. Decoding a 16-bit instruction, which expands it to a 32-bit one and decodes that, gives the instruction in the table of
  compressed instructions (operation, unit, registers, immediate, stall flag) and aborts on the patterns outside the table: the
  reserved ones, and the hints that write register 0 with a shift, a move, an addition or an upper immediate. Any other word is
  decoded as it stands.
\<close>

theorem rvc_decode_table:
  "decode d code uid =
     (if code AND 3 = 3 then decode32 d code False (instr_new uid FU_ALU) else cx uid (code AND 0xFFFF))"
  by (rule decode_table)

text \<open>
  C18. A decoded instruction is well typed. Its operation is one of the unit it is sent to, its arguments are the alternative of
  the variant that this unit reads, each bit field of them holds a value of the width that \<open>types.h\<close> declares for it, and its
  registers are among the 32 of their file.
\<close>

theorem decode_well_typed: "decode d code uid = Some i \<Longrightarrow> instr_ok i"
  using decode_ok [of d code uid i] by (simp add: dec_ok_def)

theorem decode_well_typed_witness: "decode dcfg0 0x00500093 7 = Some addi5 \<and> instr_ok addi5"
  using decode_well_typed [OF dec_examples(1)] dec_examples(1) by simp

text \<open>
  C19. The decode stage stalls the warps that the warp control unit releases. A warp is held exactly for macro-operations, jumps,
  branches, system calls, both reads of another core's local memory (the mailbox read included, which a comment of the decoder calls
  non-stalling), and warp control other than an arrival at a barrier. Plain loads, stores, atomics and accesses to control
  registers are not held, although the comment at the resume in \<open>core.cpp\<close> counts them among the stalling instructions. So a
  warp-control instruction reaches its unit with its warp stalled, or is an arrival that writes its destination, as the unit requires.
\<close>

theorem decode_stalls_warp:
  assumes "core_decode d code uid = Some tr"
  shows "(dt_fetch_stall tr \<longleftrightarrow> holds_warp (dt_instr tr)) \<and> dt_resume_warp tr = dt_fetch_stall tr \<and>
    (\<forall>t a. dt_op_type tr = OpWctl t \<and> in_args (dt_instr tr) = ArgsWctl a \<longrightarrow>
       dt_fetch_stall tr \<or> t = BAR \<and> \<not> is_sync_bar a \<and> dt_wb tr)"
proof -
  obtain i where "decode d code uid = Some i" "dt_instr tr = i" "dt_fetch_stall tr = is_wstall i" "dt_op_type tr = op_type i"
      "dt_wb tr = trace_wb i" "dt_resume_warp tr = is_wstall i"
    using assms by (auto simp: core_decode_def Let_def bind_eq_Some_conv)
  moreover from this have "dec_ok i" by (simp add: decode_ok)
  ultimately show ?thesis by (auto simp: dec_ok_def arrives_def holds_warp_def)
qed

theorem decode_stalls_warp_witness: "\<exists>tr. core_decode dcfg0 0x0020E00B 7 = Some tr \<and> dt_fetch_stall tr"
proof -
  obtain tr where tr: "core_decode dcfg0 0x0020E00B 7 = Some tr" "dt_instr tr = bar_wait_instr"
    by (simp add: core_decode_def dec_examples(3))
  have "holds_warp bar_wait_instr" by (simp add: holds_warp_def bar_wait_instr_def wctl_args0_def)
  then show ?thesis using decode_stalls_warp [OF tr(1)] tr by auto
qed

text \<open>
  C36. The decoder accepts encodings that the printer of the trace aborts on, and these are the reserved ones: branches, loads,
  stores and atomics of a reserved width or condition, unknown system calls, and floating-point comparisons, sign injections
  and minima with a reserved selector. No compressed instruction is among them.
\<close>

theorem op_string_aborts:
  assumes "decode d code uid = Some i"
  shows "op_string i = None \<longleftrightarrow> code AND 3 = 3 \<and> reserved code"
proof (cases "code AND 3 = 3")
  case True
  then show ?thesis using assms str_decode32 [of d code False uid i] by (simp add: decode_def)
next
  case False
  then show ?thesis using assms str_cx [of uid "code AND 0xFFFF" i] decode_table [of d code uid] by simp
qed

theorem op_string_aborts_witness: "op_string beq2 = None \<and> reserved 0x00002063"
proof -
  have "reserved 0x00002063" by code_simp
  then show ?thesis using op_string_aborts [OF dec_examples(2)] by simp
qed

end
