(* ===== verification/Fetch.thy ===== *)
theory Fetch
  imports Decompressor
begin

text \<open>
  The fetch stage of a core, \<open>Core::fetch\<close> in \<open>sim/simx/core.cpp\<close>, with compressed instructions: the requests to the
  instruction cache that are in flight, with the trace each one is for, and the decompressor. The memory is a function from addresses to
  bytes, and a response carries the block of \<open>2 ^ k\<close> bytes around the address of its request.
\<close>

definition line_at :: "nat \<Rightarrow> (u64 \<Rightarrow> u8) \<Rightarrow> u64 \<Rightarrow> u8 list" where
  "line_at k mem a = map (\<lambda>i. mem ((a AND NOT (mask k)) + of_nat i)) [0..<2 ^ k]"

record fetch =
  fe_dec :: decompressor
  fe_fly :: "(fetch_trace \<times> u64) list"

text \<open>A request that the port accepts: the trace leaves the latch or the queue of refetches.\<close>

definition fetch_send :: "fetch \<Rightarrow> fetch_trace option \<Rightarrow> fetch option" where
  "fetch_send F head = do {
     p \<leftarrow> pick_request (fe_dec F) head;
     Some (case p of None \<Rightarrow> F
       | Some p \<Rightarrow> F\<lparr>fe_dec := commit_request (fe_dec F) (from_refetch p), fe_fly := fe_fly F @ [(pick_trace p, pick_addr p)]\<rparr>) }"

text \<open>
  A response to the request at position \<open>n\<close>. The decompressor sees it before the decode latch is tried; when the latch is full the
  response stays, and the next cycle hands it to the decompressor again.
\<close>

definition fetch_recv :: "nat \<Rightarrow> (u64 \<Rightarrow> u8) \<Rightarrow> bool \<Rightarrow> fetch \<Rightarrow> nat \<Rightarrow> ((fetch_trace \<times> u32) option \<times> fetch) option" where
  "fetch_recv k mem full F n = do {
     (t, a) \<leftarrow> lat (fe_fly F) n;
     (c, D) \<leftarrow> on_icache_rsp (2 ^ k) (fe_dec F) t (line_at k mem a);
     Some (case c of
         Some code \<Rightarrow> if full then (None, F\<lparr>fe_dec := D\<rparr>)
           else (Some (t, code), F\<lparr>fe_dec := D, fe_fly := take n (fe_fly F) @ drop (Suc n) (fe_fly F)\<rparr>)
       | None \<Rightarrow> (None, F\<lparr>fe_dec := D, fe_fly := take n (fe_fly F) @ drop (Suc n) (fe_fly F)\<rparr>)) }"

text \<open>What the memory holds at a program counter.\<close>

definition half_at :: "(u64 \<Rightarrow> u8) \<Rightarrow> u64 \<Rightarrow> u32" where
  "half_at mem p = ucast (mem p) OR push_bit 8 (ucast (mem (p + 1)))"

definition instr_at :: "(u64 \<Rightarrow> u8) \<Rightarrow> u64 \<Rightarrow> u32" where
  "instr_at mem p = (if half_at mem p AND 3 \<noteq> 3 then half_at mem p else half_at mem p OR push_bit 16 (half_at mem (p + 2)))"

end
