(* ===== verification/Fetch_Inv.thy ===== *)
theory Fetch_Inv
  imports Fetch "HOL-Library.Multiset"
begin

text \<open>
  The fetch stage keeps one fetch per warp under way and buffers only the half of an instruction that lies at the program counter;
  each response and each second request brings the fetches under way nearer to their end.
\<close>

lemma mask_u64: "k < 64 \<Longrightarrow> (2 ^ k - 1 :: u64) = mask k"
  by (simp add: mask_eq_exp_minus_1)

lemma block_split: "(a AND NOT (mask k)) + of_nat (unat (take_bit k a)) = (a :: u64)"
proof -
  have "(a AND NOT (mask k)) + take_bit k a = (a AND NOT (mask k)) OR take_bit k a"
    by (rule disjunctive_add) (auto simp: bit_simps)
  also have "\<dots> = a" by (rule bit_word_eqI) (auto simp: bit_simps)
  finally show ?thesis by simp
qed

lemma line_word_at:
  assumes "unat (take_bit k a) + 3 < 2 ^ k"
  shows "line_word (line_at k mem a) (unat (take_bit k a)) = Some (half_at mem a OR push_bit 16 (half_at mem (a + 2)))"
proof -
  define b where "b = a AND NOT (mask k)"
  define i where "i = unat (take_bit k a)"
  have s: "b + of_nat i = a" unfolding b_def i_def by (rule block_split)
  have l: "lat (line_at k mem a) (i + j) = Some (mem (a + of_nat j))" if "j \<le> 3" for j
  proof -
    have "i + j < 2 ^ k" using that assms by (simp add: i_def)
    then have "lat (line_at k mem a) (i + j) = Some (mem (b + of_nat (i + j)))" by (simp add: lat_def line_at_def b_def)
    also have "b + of_nat (i + j) = a + of_nat j" by (simp add: s [symmetric] add.assoc)
    finally show ?thesis .
  qed
  show ?thesis
    using l [of 0] l [of 1] l [of 2] l [of 3] unfolding i_def [symmetric]
    by (simp add: line_word_def half_at_def push_bit_or ac_simps)
qed

lemma aligned_in_block:
  assumes "2 \<le> k" and "a AND 3 = (0 :: u64)"
  shows "unat (take_bit k a) + 3 < 2 ^ k"
proof -
  have "take_bit 2 a = 0" using assms(2) by (simp add: take_bit_eq_mask mask_eq_exp_minus_1)
  then have "unat a mod 4 = 0" using unat_take_bit [of 2 a] by simp
  moreover have p: "(4 :: nat) dvd 2 ^ k" using assms(1) le_imp_power_dvd [of 2 k 2] by simp
  ultimately have d: "4 dvd unat a mod 2 ^ k" by (simp add: dvd_mod mod_eq_0_iff_dvd)
  have "unat a mod 2 ^ k < 2 ^ k" by simp
  then have "unat a mod 2 ^ k + 4 \<le> 2 ^ k" using d p by (elim dvdE) auto
  then show ?thesis by (simp add: unat_take_bit)
qed

lemma rsp_word:
  assumes "2 \<le> k" and "k \<le> 32" and "a AND 3 = 0"
  shows "line_word (line_at k mem a) (unat (ucast (a AND (2 ^ k - 1)) :: u32)) = Some (half_at mem a OR push_bit 16 (half_at mem (a + 2)))"
proof -
  have "unat (take_bit k a) < 2 ^ k" by (simp add: unat_take_bit)
  also have "\<dots> \<le> 2 ^ 32" using assms(2) by (intro power_increasing) auto
  finally have "unat (ucast (take_bit k a) :: u32) = unat (take_bit k a)" by (simp add: unsigned_ucast_eq take_bit_nat_eq_self)
  moreover have "a AND (2 ^ k - 1) = take_bit k a" using assms(2) by (simp add: take_bit_eq_mask mask_eq_exp_minus_1)
  ultimately show ?thesis using line_word_at [OF aligned_in_block [OF assms(1,3)]] by simp
qed

lemma half_at_bits: "\<not> bit (half_at mem p) n" if "16 \<le> n"
  using that by (auto simp: half_at_def bit_simps dest: bit_imp_le_length)

lemma half_words:
  "(half_at mem p OR push_bit 16 (half_at mem q)) AND 0xFFFF = half_at mem p"
  "drop_bit 16 (half_at mem p OR push_bit 16 (half_at mem q)) = half_at mem q"
  "(ucast (ucast (half_at mem p) :: u16) :: u32) = half_at mem p"
proof -
  have m: "x AND 0xFFFF = take_bit 16 x" for x :: u32 by (simp add: take_bit_eq_mask mask_eq_exp_minus_1)
  show "(half_at mem p OR push_bit 16 (half_at mem q)) AND 0xFFFF = half_at mem p"
    "drop_bit 16 (half_at mem p OR push_bit 16 (half_at mem q)) = half_at mem q"
    "(ucast (ucast (half_at mem p) :: u16) :: u32) = half_at mem p"
    unfolding m using half_at_bits [of _ mem p] half_at_bits [of _ mem q]
    by (intro bit_word_eqI; auto simp: bit_simps not_less intro: ccontr dest: bit_imp_le_length; fail)+
qed

text \<open>The invariant of the fetch stage: one fetch per warp is under way, and a buffered half is the one at the program counter.\<close>

definition slot_ok :: "(u64 \<Rightarrow> u8) \<Rightarrow> RvcSlot \<Rightarrow> bool" where
  "slot_ok mem s \<longleftrightarrow> even (inst_pc s) \<and> inst_pc s AND 2 \<noteq> 0 \<and> half_at mem (inst_pc s) AND 3 = 3 \<and>
     low_half s = ucast (half_at mem (inst_pc s))"

definition outstanding :: "fetch \<Rightarrow> nat list" where
  "outstanding F = map ft_wid (refetch_queue (fe_dec F) @ map fst (fe_fly F))"

text \<open>The traces that are under way: they wait for a second request, or for a response.\<close>

definition fetch_traces :: "fetch \<Rightarrow> fetch_trace list" where
  "fetch_traces F = refetch_queue (fe_dec F) @ map fst (fe_fly F)"

definition trace_ok :: "decompressor \<Rightarrow> fetch_trace \<Rightarrow> bool" where
  "trace_ok D t \<longleftrightarrow> ft_wid t < length (rvc_state D) \<and> even (ft_PC t) \<and>
     (needs_second (rvc_state D ! ft_wid t) \<longrightarrow> inst_pc (rvc_state D ! ft_wid t) = ft_PC t)"

definition fetch_inv :: "nat \<Rightarrow> (u64 \<Rightarrow> u8) \<Rightarrow> fetch \<Rightarrow> bool" where
  "fetch_inv n mem F \<longleftrightarrow> (let D = fe_dec F; st = rvc_state D in
     length st = n \<and> distinct (outstanding F) \<and>
     (\<forall>t \<in> set (refetch_queue D). trace_ok D t \<and> needs_second (st ! ft_wid t)) \<and>
     (\<forall>(t, a) \<in> set (fe_fly F). trace_ok D t \<and> fetch_addr D t = Some a) \<and>
     (\<forall>w < n. needs_second (st ! w) \<longrightarrow> w \<in> set (outstanding F) \<and> slot_ok mem (st ! w)))"

text \<open>
  The operations: a request, with the trace at the head of the latch, and the response to a request in flight, with whether the
  decode latch is full. A response for a warp with a buffered half must find room in the latch: otherwise the stage loses the half.
\<close>

datatype fetch_op = FSend "fetch_trace option" | FRecv nat bool

definition fetch_exec :: "nat \<Rightarrow> (u64 \<Rightarrow> u8) \<Rightarrow> fetch \<Rightarrow> fetch_op \<Rightarrow> ((fetch_trace \<times> u32) option \<times> fetch) option" where
  "fetch_exec k mem F op = (case op of
     FSend h \<Rightarrow> map_option (Pair None) (fetch_send F h)
   | FRecv i full \<Rightarrow> fetch_recv k mem full F i)"

definition fetch_allowed :: "nat \<Rightarrow> fetch \<Rightarrow> fetch_op \<Rightarrow> bool" where
  "fetch_allowed n F op = (case op of
     FSend h \<Rightarrow> (case h of None \<Rightarrow> True | Some t \<Rightarrow> ft_wid t < n \<and> even (ft_PC t) \<and> ft_wid t \<notin> set (outstanding F))
   | FRecv i full \<Rightarrow> i < length (fe_fly F) \<and> \<not> (full \<and> needs_second (rvc_state (fe_dec F) ! ft_wid (fst (fe_fly F ! i)))))"

text \<open>The instruction is a whole one whose first half lies in the upper half of a word: its other half takes a second request.\<close>

definition straddles :: "(u64 \<Rightarrow> u8) \<Rightarrow> u64 \<Rightarrow> bool" where
  "straddles mem p \<longleftrightarrow> half_at mem p AND 3 = 3 \<and> p AND 2 \<noteq> 0"

lemma pc_parts:
  assumes "even (p :: u64)"
  shows "p AND 2 = 0 \<Longrightarrow> p AND NOT 3 = p" and "p AND 2 \<noteq> 0 \<Longrightarrow> p AND NOT 3 = p - 2" and "(p AND NOT 3) AND 3 = 0"
proof -
  have b: "\<not> bit p 0" using assms by (simp add: bit_0)
  have m: "(3 :: u64) = mask 2" by (simp add: mask_eq_exp_minus_1)
  have t: "p AND 2 \<noteq> 0 \<longleftrightarrow> bit p 1" using bit_iff_and_push_bit_not_eq_0 [of p 1] by (simp add: push_bit_eq_mult)
  have two: "bit (2 :: u64) i \<longleftrightarrow> i = 1" for i using bit_exp_iff [of 1 i, where ?'a = "64 word"] by (auto simp: possible_bit_word)
  have lt2: "i < 2 \<longleftrightarrow> i = 0 \<or> i = 1" for i :: nat by auto
  show "p AND NOT 3 = p" if "p AND 2 = 0"
    using that b t unfolding m by (intro bit_word_eqI) (auto simp: bit_and_iff bit_not_iff bit_mask_iff lt2 intro!: gr0I)
  show "p AND NOT 3 = p - 2" if "p AND 2 \<noteq> 0"
  proof -
    define q :: u64 where "q = 2"
    note two = two [folded q_def]
    have "(p AND NOT 3) + q = (p AND NOT 3) OR q" unfolding m
      by (rule disjunctive_add) (auto simp: bit_and_iff bit_not_iff bit_mask_iff two)
    also have "\<dots> = p" using that b t unfolding m
      by (intro bit_word_eqI) (auto simp: bit_or_iff bit_and_iff bit_not_iff bit_mask_iff lt2 two intro!: gr0I)
    finally show ?thesis by (simp add: eq_diff_eq q_def)
  qed
  show "(p AND NOT 3) AND 3 = 0" by (simp add: ac_simps)
qed

lemma four_aligned: "(a :: u64) AND 3 = 0 \<Longrightarrow> (a + 4) AND 3 = 0"
proof -
  assume a: "a AND 3 = 0"
  have m: "x AND 3 = take_bit 2 x" for x :: u64 by (simp add: take_bit_eq_mask mask_eq_exp_minus_1)
  have "unat a mod 4 = 0" using a unat_take_bit [of 2 a] unfolding m by simp
  then have "unat (a + 4) mod 4 = 0" by (simp add: unat_word_ariths mod_mod_cancel)
  then show "(a + 4) AND 3 = 0" unfolding m by (simp add: unat_take_bit flip: unat_eq_0)
qed

lemma rsp_second:
  assumes "2 \<le> k" "k \<le> 32" "ft_wid t < length (rvc_state D)" "needs_second (rvc_state D ! ft_wid t)" "slot_ok mem (rvc_state D ! ft_wid t)"
    and "inst_pc (rvc_state D ! ft_wid t) = ft_PC t" "fetch_addr D t = Some a"
  shows "on_icache_rsp (2 ^ k) D t (line_at k mem a) =
    Some (Some (instr_at mem (ft_PC t)), D\<lparr>rvc_state := (rvc_state D)[ft_wid t := rvc_slot0]\<rparr>)"
proof -
  let ?s = "rvc_state D ! ft_wid t"
  have s: "even (ft_PC t)" "ft_PC t AND 2 \<noteq> 0" "half_at mem (ft_PC t) AND 3 = 3" "low_half ?s = ucast (half_at mem (ft_PC t))"
    using assms(5,6) by (simp_all add: slot_ok_def)
  have a: "a = (ft_PC t AND NOT 3) + 4" using assms(3,4,6,7) by (simp add: fetch_addr_def)
  then have a2: "a = ft_PC t + 2" using pc_parts(2) [OF s(1,2)] by simp
  have "a AND 3 = 0" unfolding a by (rule four_aligned [OF pc_parts(3) [OF s(1)]])
  note w = rsp_word [OF assms(1,2) this, of mem]
  define x where "x = half_at mem a OR push_bit 16 (half_at mem (a + 2))"
  have "on_icache_rsp (2 ^ k) D t (line_at k mem a) =
    Some (Some (push_bit 16 (x AND 0xFFFF) OR ucast (low_half ?s)), D\<lparr>rvc_state := (rvc_state D)[ft_wid t := rvc_slot0]\<rparr>)"
    using assms(3,4,7) w unfolding on_icache_rsp_def x_def [symmetric] by (simp add: lset_def)
  then show ?thesis using s(3) unfolding x_def half_words(1) by (simp add: s(4) half_words(3) a2 instr_at_def ac_simps)
qed

lemma rsp_first:
  assumes "2 \<le> k" "k \<le> 32" "ft_wid t < length (rvc_state D)" "\<not> needs_second (rvc_state D ! ft_wid t)" "even (ft_PC t)"
    and "fetch_addr D t = Some a"
  shows "on_icache_rsp (2 ^ k) D t (line_at k mem a) =
    (if half_at mem (ft_PC t) AND 3 \<noteq> 3 \<or> ft_PC t AND 2 = 0 then Some (Some (instr_at mem (ft_PC t)), D)
     else Some (None, D\<lparr>rvc_state := (rvc_state D)[ft_wid t := \<lparr>needs_second = True, low_half = ucast (half_at mem (ft_PC t)), inst_pc = ft_PC t\<rparr>],
       refetch_queue := refetch_queue D @ [t]\<rparr>))"
proof -
  define x where "x = half_at mem a OR push_bit 16 (half_at mem (a + 2))"
  have h: "x AND 0xFFFF = half_at mem a" "drop_bit 16 x = half_at mem (a + 2)" unfolding x_def by (rule half_words)+
  have a: "a = ft_PC t AND NOT 3" using assms(3,4,6) by (simp add: fetch_addr_def)
  have "a AND 3 = 0" unfolding a by (rule pc_parts(3) [OF assms(5)])
  note w = rsp_word [OF assms(1,2) this, of mem, folded x_def]
  show ?thesis
  proof (cases "ft_PC t AND 2 = 0")
    case True
    then have "a = ft_PC t" using pc_parts(1) [OF assms(5)] a by simp
    then show ?thesis using True assms(3,4,6) w unfolding on_icache_rsp_def by (simp add: h instr_at_def Let_def) (simp add: x_def)
  next
    case False
    then have "a + 2 = ft_PC t" using pc_parts(2) [OF assms(5)] a by simp
    then show ?thesis using False assms(3,4,6) w unfolding on_icache_rsp_def by (simp add: h instr_at_def Let_def lset_def)
  qed
qed

definition fly_work :: "RvcSlot list \<Rightarrow> (fetch_trace \<times> u64) list \<Rightarrow> nat" where
  "fly_work st fs = sum_list (map (\<lambda>(t, a). if needs_second (st ! ft_wid t) then 1 else 3) fs)"

text \<open>The responses and requests that the fetches under way still need, at most.\<close>

definition fetch_work :: "fetch \<Rightarrow> nat" where
  "fetch_work F = 2 * length (refetch_queue (fe_dec F)) + fly_work (rvc_state (fe_dec F)) (fe_fly F)"

lemma fetch_invD:
  assumes "fetch_inv n mem F"
  shows "length (rvc_state (fe_dec F)) = n" and "distinct (outstanding F)"
    and "t \<in> set (refetch_queue (fe_dec F)) \<Longrightarrow> trace_ok (fe_dec F) t \<and> needs_second (rvc_state (fe_dec F) ! ft_wid t)"
    and "(t, a) \<in> set (fe_fly F) \<Longrightarrow> trace_ok (fe_dec F) t \<and> fetch_addr (fe_dec F) t = Some a"
    and "w < n \<Longrightarrow> needs_second (rvc_state (fe_dec F) ! w) \<Longrightarrow> w \<in> set (outstanding F) \<and> slot_ok mem (rvc_state (fe_dec F) ! w)"
  using assms unfolding fetch_inv_def Let_def by auto

lemma fetch_addr_cong: "rvc_state D = rvc_state D' \<Longrightarrow> fetch_addr D t = fetch_addr D' t"
  by (simp add: fetch_addr_def)

lemma trace_ok_cong: "rvc_state D = rvc_state D' \<Longrightarrow> trace_ok D t = trace_ok D' t"
  by (simp add: trace_ok_def)

lemma send_inv:
  assumes "fetch_inv n mem F" and "fetch_allowed n F (FSend h)"
  obtains F' where "fetch_send F h = Some F'" "fetch_inv n mem F'" "refetch_queue (fe_dec F) \<noteq> [] \<longrightarrow> fetch_work F' < fetch_work F \<and> mset (fetch_traces F') = mset (fetch_traces F)"
proof (cases "refetch_queue (fe_dec F)")
  case Nil
  note I = fetch_invD [OF assms(1)]
  show ?thesis
  proof (cases h)
    case None
    then show ?thesis using that [of F] assms(1) Nil by (simp add: fetch_send_def pick_request_def)
  next
    case (Some t)
    let ?F = "F\<lparr>fe_fly := fe_fly F @ [(t, ft_PC t AND NOT 3)]\<rparr>"
    have t: "ft_wid t < n" "even (ft_PC t)" "ft_wid t \<notin> set (outstanding F)" using assms(2) Some by (simp_all add: fetch_allowed_def)
    then have "\<not> needs_second (rvc_state (fe_dec F) ! ft_wid t)" using I(5) by blast
    then have "trace_ok (fe_dec F) t" "fetch_addr (fe_dec F) t = Some (ft_PC t AND NOT 3)"
      using t I(1) by (simp_all add: trace_ok_def fetch_addr_def)
    then have "fetch_inv n mem ?F"
      using assms(1) t(3) Nil unfolding fetch_inv_def Let_def outstanding_def by auto
    then show ?thesis using that [of ?F] Nil Some by (simp add: fetch_send_def pick_request_def commit_request_def)
  qed
next
  case (Cons t q)
  note I = fetch_invD [OF assms(1)]
  let ?D = "(fe_dec F)\<lparr>refetch_queue := q\<rparr>"
  let ?a = "(inst_pc (rvc_state (fe_dec F) ! ft_wid t) AND NOT 3) + 4"
  let ?F = "F\<lparr>fe_dec := ?D, fe_fly := fe_fly F @ [(t, ?a)]\<rparr>"
  have t: "trace_ok (fe_dec F) t" "needs_second (rvc_state (fe_dec F) ! ft_wid t)" using I(3) [of t] Cons by simp_all
  then have w: "ft_wid t < length (rvc_state (fe_dec F))" by (simp add: trace_ok_def)
  have a: "fetch_addr (fe_dec F) t = Some ?a" using t(2) w by (simp add: fetch_addr_def)
  have c: "fetch_addr ?D u = fetch_addr (fe_dec F) u" "trace_ok ?D u = trace_ok (fe_dec F) u" for u
    by (rule fetch_addr_cong trace_ok_cong, simp)+
  have o: "set (outstanding (F\<lparr>fe_dec := ?D, fe_fly := fe_fly F @ [(t, b)]\<rparr>)) = set (outstanding F)"
      "distinct (outstanding (F\<lparr>fe_dec := ?D, fe_fly := fe_fly F @ [(t, b)]\<rparr>)) = distinct (outstanding F)" for b
    using Cons by (auto simp: outstanding_def)
  have "fetch_inv n mem ?F"
    using assms(1) t a Cons unfolding fetch_inv_def Let_def by (simp add: c) (auto simp: o)
  moreover have "fetch_work ?F < fetch_work F" using Cons t(2) by (simp add: fetch_work_def fly_work_def)
  moreover have "mset (fetch_traces ?F) = mset (fetch_traces F)" using Cons by (simp add: fetch_traces_def)
  ultimately show ?thesis using that [of ?F] Cons w by (simp add: fetch_send_def pick_request_def commit_request_def)
qed

lemma slot_upd:
  assumes "rvc_state D' = (rvc_state D)[w := s]" and "ft_wid t \<noteq> w"
  shows "trace_ok D' t = trace_ok D t" "fetch_addr D' t = fetch_addr D t"
  using assms by (simp_all add: trace_ok_def fetch_addr_def lat_def)

text \<open>A response changes the slot of its warp only.\<close>

lemma recv_inv:
  assumes "fetch_inv n mem F" and "fe_fly F = xs @ (t, a) # ys"
    and st: "rvc_state D' = (rvc_state (fe_dec F))[ft_wid t := s]"
    and q: "refetch_queue D' = refetch_queue (fe_dec F) @ (if needs_second s then [t] else [])"
    and s: "needs_second s \<Longrightarrow> slot_ok mem s \<and> inst_pc s = ft_PC t"
  shows "fetch_inv n mem (F\<lparr>fe_dec := D', fe_fly := xs @ ys\<rparr>)"
proof -
  note I = fetch_invD [OF assms(1)]
  let ?F = "F\<lparr>fe_dec := D', fe_fly := xs @ ys\<rparr>"
  have t: "trace_ok (fe_dec F) t" using I(4) [of t a] assms(2) by simp
  have d: "ft_wid t \<notin> ft_wid ` set (refetch_queue (fe_dec F))" "ft_wid t \<notin> ft_wid ` fst ` set (xs @ ys)"
    using I(2) unfolding outstanding_def assms(2) by auto
  have o: "distinct (outstanding ?F)" "set (outstanding F) - {ft_wid t} \<subseteq> set (outstanding ?F)"
    using I(2) unfolding outstanding_def assms(2) by (auto simp: q)
  have w: "needs_second s \<Longrightarrow> ft_wid t \<in> set (outstanding ?F)" by (simp add: outstanding_def q)
  have Q: "trace_ok D' u \<and> needs_second (rvc_state D' ! ft_wid u)" if "u \<in> set (refetch_queue D')" for u
  proof (cases "u \<in> set (refetch_queue (fe_dec F))")
    case True
    then have n: "ft_wid u \<noteq> ft_wid t" using d(1) by (metis imageI)
    then show ?thesis using I(3) [OF True] slot_upd [OF st n] st by simp
  next
    case False
    then have "u = t" "needs_second s" using that q by (auto split: if_splits)
    then show ?thesis using t s st by (auto simp: trace_ok_def)
  qed
  have fly: "trace_ok D' u \<and> fetch_addr D' u = Some b" if "(u, b) \<in> set (xs @ ys)" for u b
  proof -
    have n: "ft_wid u \<noteq> ft_wid t" using d(2) that by (metis imageI fst_conv)
    show ?thesis using I(4) [of u b] that slot_upd [OF st n] assms(2) by auto
  qed
  have S: "v \<in> set (outstanding ?F) \<and> slot_ok mem (rvc_state D' ! v)" if "v < n" "needs_second (rvc_state D' ! v)" for v
    using that I(1) I(5) [of v] st s w o(2) by (cases "v = ft_wid t") auto
  show ?thesis unfolding fetch_inv_def Let_def using I(1) st o(1) Q fly S by auto
qed

text \<open>What a response does, whether it is the first or the second one for its trace.\<close>

lemma rsp_cases:
  assumes "fetch_inv n mem F" and "(t, a) \<in> set (fe_fly F)" and "2 \<le> k" and "k \<le> 32"
  obtains s D' where
    "on_icache_rsp (2 ^ k) (fe_dec F) t (line_at k mem a) = Some (if needs_second s then None else Some (instr_at mem (ft_PC t)), D')"
    "rvc_state D' = (rvc_state (fe_dec F))[ft_wid t := s]"
    "refetch_queue D' = refetch_queue (fe_dec F) @ (if needs_second s then [t] else [])"
    "needs_second s \<longrightarrow> slot_ok mem s \<and> inst_pc s = ft_PC t \<and> \<not> needs_second (rvc_state (fe_dec F) ! ft_wid t)"
    "ft_wid t < length (rvc_state (fe_dec F))"
    "needs_second s \<longleftrightarrow> \<not> needs_second (rvc_state (fe_dec F) ! ft_wid t) \<and> straddles mem (ft_PC t)"
    "\<not> needs_second (rvc_state (fe_dec F) ! ft_wid t) \<and> \<not> needs_second s \<longrightarrow> D' = fe_dec F"
proof -
  note I = fetch_invD [OF assms(1)]
  let ?D = "fe_dec F"
  let ?s = "rvc_state ?D ! ft_wid t"
  have t: "ft_wid t < length (rvc_state ?D)" "even (ft_PC t)" "needs_second ?s \<Longrightarrow> inst_pc ?s = ft_PC t" "fetch_addr ?D t = Some a"
    using I(4) [OF assms(2)] by (auto simp: trace_ok_def)
  show ?thesis
  proof (cases "needs_second ?s")
    case True
    then have "slot_ok mem ?s" using I(1,5) t(1) by simp
    note rs = rsp_second [OF assms(3,4) t(1) True this t(3) [OF True] t(4)]
    show ?thesis by (rule that [of rvc_slot0 "?D\<lparr>rvc_state := (rvc_state ?D)[ft_wid t := rvc_slot0]\<rparr>"]) (use rs t(1) True in \<open>simp_all add: rvc_slot0_def\<close>)
  next
    case False
    note rf = rsp_first [OF assms(3,4) t(1) False t(2,4), of mem]
    show ?thesis
    proof (cases "half_at mem (ft_PC t) AND 3 \<noteq> 3 \<or> ft_PC t AND 2 = 0")
      case True
      show ?thesis by (rule that [of ?s ?D]) (use rf [unfolded if_P [OF True]] True False t(1) in \<open>auto simp: straddles_def\<close>)
    next
      case second: False
      let ?n = "\<lparr>needs_second = True, low_half = ucast (half_at mem (ft_PC t)), inst_pc = ft_PC t\<rparr>"
      have "slot_ok mem ?n" using second t(2) by (simp add: slot_ok_def)
      then show ?thesis 
        by (intro that [of ?n "?D\<lparr>rvc_state := (rvc_state ?D)[ft_wid t := ?n], refetch_queue := refetch_queue ?D @ [t]\<rparr>"])
          (use rf [unfolded if_not_P [OF second]] second False t(1) in \<open>simp_all add: straddles_def\<close>)
    qed
  qed
qed

lemma fly_work_upd:
  assumes "fetch_inv n mem F" and "fe_fly F = xs @ (t, a) # ys"
  shows "fly_work ((rvc_state (fe_dec F))[ft_wid t := s]) (xs @ ys) = fly_work (rvc_state (fe_dec F)) (xs @ ys)"
proof -
  have n: "ft_wid u \<noteq> ft_wid t" if "(u, b) \<in> set (xs @ ys)" for u b
  proof -
    have "ft_wid t \<notin> ft_wid ` fst ` set (xs @ ys)" using fetch_invD(2) [OF assms(1)] unfolding outstanding_def assms(2) by auto
    then show ?thesis using that by (metis imageI fst_conv)
  qed
  show ?thesis unfolding fly_work_def by (intro arg_cong [of _ _ sum_list] map_cong refl) (use n in force)
qed

lemma recv_step:
  assumes "fetch_inv n mem F" and al: "fetch_allowed n F (FRecv i full)" and "2 \<le> k" and "k \<le> 32" and "fe_fly F ! i = (t, a)"
  obtains out F' where "fetch_recv k mem full F i = Some (out, F')" "fetch_inv n mem F'" "\<not> full \<longrightarrow> fetch_work F' < fetch_work F"
    "\<not> full \<longrightarrow> mset (fetch_traces F) = mset (map fst (case out of None \<Rightarrow> [] | Some x \<Rightarrow> [x])) + mset (fetch_traces F')"
    "if \<not> needs_second (rvc_state (fe_dec F) ! ft_wid t) \<and> straddles mem (ft_PC t)
     then out = None \<and> needs_second (rvc_state (fe_dec F') ! ft_wid t) \<and> t \<in> set (refetch_queue (fe_dec F'))
     else if full then out = None \<and> F' = F else out = Some (t, instr_at mem (ft_PC t))"
proof -
  have i: "i < length (fe_fly F)" "full \<Longrightarrow> \<not> needs_second (rvc_state (fe_dec F) ! ft_wid t)"
    using al assms(5) by (simp_all add: fetch_allowed_def)
  let ?xs = "take i (fe_fly F)" and ?ys = "drop (Suc i) (fe_fly F)"
  have f: "fe_fly F = ?xs @ (t, a) # ?ys" using id_take_nth_drop [OF i(1)] assms(5) by simp
  have m: "(t, a) \<in> set (fe_fly F)" using i(1) assms(5) nth_mem [of i "fe_fly F"] by simp
  obtain s D' where r: "on_icache_rsp (2 ^ k) (fe_dec F) t (line_at k mem a) = Some (if needs_second s then None else Some (instr_at mem (ft_PC t)), D')"
    and st: "rvc_state D' = (rvc_state (fe_dec F))[ft_wid t := s]"
    and q: "refetch_queue D' = refetch_queue (fe_dec F) @ (if needs_second s then [t] else [])"
    and s: "needs_second s \<longrightarrow> slot_ok mem s \<and> inst_pc s = ft_PC t \<and> \<not> needs_second (rvc_state (fe_dec F) ! ft_wid t)"
    and w: "ft_wid t < length (rvc_state (fe_dec F))" and z: "needs_second s \<longleftrightarrow> \<not> needs_second (rvc_state (fe_dec F) ! ft_wid t) \<and> straddles mem (ft_PC t)"
    and D: "\<not> needs_second (rvc_state (fe_dec F) ! ft_wid t) \<and> \<not> needs_second s \<longrightarrow> D' = fe_dec F"
    by (rule rsp_cases [OF assms(1) m assms(3,4)])
  let ?F = "F\<lparr>fe_dec := D', fe_fly := ?xs @ ?ys\<rparr>"
  have inv: "fetch_inv n mem ?F" using recv_inv [OF assms(1) f st q] s by simp
  have "fetch_work F = 2 * length (refetch_queue (fe_dec F)) + fly_work (rvc_state (fe_dec F)) (?xs @ ?ys) +
      (if needs_second (rvc_state (fe_dec F) ! ft_wid t) then 1 else 3)"
    unfolding fetch_work_def by (subst f) (simp add: fly_work_def)
  then have k: "fetch_work ?F < fetch_work F" using s fly_work_upd [OF assms(1) f, of s] by (auto simp: fetch_work_def st q)
  have "fetch_traces F = refetch_queue (fe_dec F) @ map fst ?xs @ t # map fst ?ys"
    unfolding fetch_traces_def by (subst f) simp
  then have tr: "mset (fetch_traces F) = mset (if needs_second s then [] else [t]) + mset (fetch_traces ?F)"
    by (simp add: fetch_traces_def q)
  have "full \<and> \<not> needs_second s \<Longrightarrow> fetch_recv k mem full F i = Some (None, F)"
    using r i assms(5) D by (simp add: fetch_recv_def)
  moreover have "\<not> (full \<and> \<not> needs_second s) \<Longrightarrow> fetch_recv k mem full F i =
      Some (if needs_second s then None else Some (t, instr_at mem (ft_PC t)), ?F)"
    using r i(1) assms(5) by (auto simp: fetch_recv_def)
  ultimately show ?thesis using that [of None F] that [of _ ?F] assms(1) inv k tr w st q z i(2) by (cases "full \<and> \<not> needs_second s") auto
qed

end
