(* ===== verification/Fetch_Props.thy ===== *)
theory Fetch_Props
  imports Fetch_Inv
begin

text \<open>
  The properties of the fetch stage. The witnesses fetch an instruction at address 62 of a memory with lines of 64 bytes,
  so that its halves lie in two lines.
\<close>

inductive fetch_reach :: "nat \<Rightarrow> nat \<Rightarrow> (u64 \<Rightarrow> u8) \<Rightarrow> fetch \<Rightarrow> bool" for k n mem where
  start: "fetch_reach k n mem \<lparr>fe_dec = decompressor_new n, fe_fly = []\<rparr>"
| step: "fetch_reach k n mem F \<Longrightarrow> fetch_allowed n F op \<Longrightarrow> fetch_exec k mem F op = Some (out, F') \<Longrightarrow> fetch_reach k n mem F'"

text \<open>
  What an operation delivers. A response to the first request for an instruction that straddles two words delivers nothing and buffers
  the half; any other response completes the instruction, and waits where it is when the decode latch is full.
\<close>

definition recv_ok :: "(u64 \<Rightarrow> u8) \<Rightarrow> fetch \<Rightarrow> fetch_op \<Rightarrow> (fetch_trace \<times> u32) option \<Rightarrow> fetch \<Rightarrow> bool" where
  "recv_ok mem F op out F' = (case op of FSend _ \<Rightarrow> out = None
     | FRecv i full \<Rightarrow> (let t = fst (fe_fly F ! i) in
         if \<not> needs_second (rvc_state (fe_dec F) ! ft_wid t) \<and> straddles mem (ft_PC t)
         then out = None \<and> needs_second (rvc_state (fe_dec F') ! ft_wid t) \<and> t \<in> set (refetch_queue (fe_dec F'))
         else if full then out = None \<and> F' = F else out = Some (t, instr_at mem (ft_PC t))))"

text \<open>
  The steps that work on fetches already under way: responses that find room in the decode latch, and requests for the second half of
  an instruction. A run of them, with the instructions that it delivers.
\<close>

definition fetch_internal :: "fetch \<Rightarrow> fetch_op \<Rightarrow> bool" where
  "fetch_internal F op = (case op of FSend h \<Rightarrow> refetch_queue (fe_dec F) \<noteq> [] | FRecv i full \<Rightarrow> \<not> full)"

inductive fetch_drain :: "nat \<Rightarrow> nat \<Rightarrow> (u64 \<Rightarrow> u8) \<Rightarrow> nat \<Rightarrow> fetch \<Rightarrow> (fetch_trace \<times> u32) list \<Rightarrow> fetch \<Rightarrow> bool" for k n mem where
  "done": "fetch_drain k n mem 0 F [] F"
| more: "fetch_allowed n F op \<Longrightarrow> fetch_internal F op \<Longrightarrow> fetch_exec k mem F op = Some (out, G) \<Longrightarrow> fetch_drain k n mem m G os H \<Longrightarrow>
    fetch_drain k n mem (Suc m) F ((case out of None \<Rightarrow> [] | Some x \<Rightarrow> [x]) @ os) H"

definition mem_straddle :: "u64 \<Rightarrow> u8" where
  "mem_straddle a = (if a = 62 then 0x13 else if a = 63 then 0x05 else if a = 64 then 0x10 else if a = 126 then 0x01 else 0)"

definition fetch62 :: fetch where
  "fetch62 = \<lparr>fe_dec = \<lparr>rvc_state = [\<lparr>needs_second = True, low_half = 0x0513, inst_pc = 62\<rparr>], refetch_queue = []\<rparr>,
     fe_fly = [(\<lparr>ft_wid = 0, ft_PC = 62\<rparr>, 64)]\<rparr>"

definition trace62 :: fetch_trace where "trace62 = \<lparr>ft_wid = 0, ft_PC = 62\<rparr>"

definition fetch_at62 :: fetch where
  "fetch_at62 = \<lparr>fe_dec = decompressor_new 1, fe_fly = [(trace62, 60)]\<rparr>"

definition fetch_mid62 :: fetch where
  "fetch_mid62 = \<lparr>fe_dec = \<lparr>rvc_state = [\<lparr>needs_second = True, low_half = 0x0513, inst_pc = 62\<rparr>], refetch_queue = [trace62]\<rparr>, fe_fly = []\<rparr>"

definition fetch_done62 :: fetch where
  "fetch_done62 = \<lparr>fe_dec = decompressor_new 1, fe_fly = []\<rparr>"

lemma fetch_step:
  assumes "fetch_inv n mem F" and "fetch_allowed n F op" and "2 \<le> k" and "k \<le> 32"
  obtains out F' where "fetch_exec k mem F op = Some (out, F')" "fetch_inv n mem F'" "recv_ok mem F op out F'"
    "fetch_internal F op \<longrightarrow> fetch_work F' < fetch_work F \<and>
      mset (fetch_traces F) = mset (map fst (case out of None \<Rightarrow> [] | Some x \<Rightarrow> [x])) + mset (fetch_traces F')"
proof (cases op)
  case (FSend h)
  show ?thesis
    by (rule send_inv [OF assms(1,2) [unfolded FSend]], rule that [of None]) (auto simp: FSend fetch_exec_def recv_ok_def fetch_internal_def)
next
  case (FRecv i full)
  obtain t a where f: "fe_fly F ! i = (t, a)" by (cases "fe_fly F ! i")
  show ?thesis
    by (rule recv_step [OF assms(1) assms(2) [unfolded FRecv] assms(3,4) f], intro that)
      (auto simp: FRecv f fetch_exec_def recv_ok_def fetch_internal_def)
qed

lemma distinct_bounded:
  assumes "distinct xs" and "\<forall>x \<in> set xs. x < (n :: nat)"
  shows "length xs \<le> n"
proof -
  have "length xs = card (set xs)" using assms(1) by (simp add: distinct_card)
  also have "\<dots> \<le> card {..<n}" using assms(2) by (intro card_mono) auto
  finally show ?thesis by simp
qed

lemma work_bound:
  assumes "fetch_inv n mem F"
  shows "fetch_work F \<le> 3 * n"
proof -
  note I = fetch_invD [OF assms]
  have "\<forall>w \<in> set (outstanding F). w < n"
    using I(1,3,4) by (fastforce simp: outstanding_def trace_ok_def)
  then have n: "length (refetch_queue (fe_dec F)) + length (fe_fly F) \<le> n"
    using distinct_bounded [OF I(2), of n] by (simp add: outstanding_def)
  have "fly_work (rvc_state (fe_dec F)) (fe_fly F) \<le> (\<Sum>x \<leftarrow> fe_fly F. 3)"
    unfolding fly_work_def by (rule sum_list_mono) auto
  then show ?thesis using n by (simp add: fetch_work_def sum_list_triv)
qed

lemma fetch_reach_inv: "fetch_reach k n mem F \<Longrightarrow> 2 \<le> k \<Longrightarrow> k \<le> 32 \<Longrightarrow> fetch_inv n mem F"
proof (induction rule: fetch_reach.induct)
  case start
  show ?case by (auto simp: fetch_inv_def decompressor_new_def outstanding_def rvc_slot0_def)
next
  case (step F op out F')
  show ?case by (rule fetch_step [OF step.IH [OF step.prems] step.hyps(2) step.prems]) (use step.hyps(3) in simp)
qed

lemma drain_work:
  "fetch_drain k n mem m F os F' \<Longrightarrow> fetch_inv n mem F \<Longrightarrow> 2 \<le> k \<Longrightarrow> k \<le> 32 \<Longrightarrow>
    m + fetch_work F' \<le> fetch_work F \<and> fetch_inv n mem F' \<and> mset (map fst os) + mset (fetch_traces F') = mset (fetch_traces F) \<and>
    (\<forall>(t, code) \<in> set os. code = instr_at mem (ft_PC t))"
proof (induction rule: fetch_drain.induct)
  case (more F op out G m os H)
  have "fetch_inv n mem G \<and> fetch_work G < fetch_work F \<and> recv_ok mem F op out G \<and>
      mset (fetch_traces F) = mset (map fst (case out of None \<Rightarrow> [] | Some x \<Rightarrow> [x])) + mset (fetch_traces G)"
    by (rule fetch_step [OF more.prems(1) more.hyps(1) more.prems(2,3)]) (use more.hyps(2,3) in simp)
  moreover from this have "\<forall>(t, code) \<in> set (case out of None \<Rightarrow> [] | Some x \<Rightarrow> [x]). code = instr_at mem (ft_PC t)"
    by (auto simp: recv_ok_def Let_def split: fetch_op.splits if_splits option.splits)
  ultimately show ?case using more.IH more.prems(2,3) by (auto simp: add.assoc)
qed simp

text \<open>While a trace is under way, it waits for a response or for its second request.\<close>

lemma drain_progress:
  assumes "fetch_inv n mem F" "2 \<le> k" "k \<le> 32" "fetch_traces F \<noteq> []"
  shows "\<exists>op out G. fetch_allowed n F op \<and> fetch_internal F op \<and> fetch_exec k mem F op = Some (out, G)"
proof -
  let ?op = "if refetch_queue (fe_dec F) \<noteq> [] then FSend None else FRecv 0 False"
  have a: "fetch_allowed n F ?op" "fetch_internal F ?op" using assms(4) by (auto simp: fetch_allowed_def fetch_internal_def fetch_traces_def)
  show ?thesis by (rule fetch_step [OF assms(1) a(1) assms(2,3)]) (use a in blast)
qed

text \<open>The last word of a block and the first of the next one.\<close>

lemma next_block:
  fixes p :: u64
  assumes "2 \<le> k" and "k \<le> 32" and "take_bit k p = 2 ^ k - 2"
  shows "line_at k mem (p + 2) = line_at k mem (p - 2 + 2 ^ k)" and "take_bit k (p - 2 + 2 ^ k) = take_bit k (p - 2)"
proof -
  have k: "2 ^ k dvd (2 ^ 64 :: nat)" "(4 :: nat) \<le> 2 ^ k" using assms(1,2) power_increasing [of 2 k "2 :: nat"] le_imp_power_dvd [of k 64 "2 :: nat"] by simp_all
  have u: "unat (2 ^ k :: u64) = 2 ^ k" using assms(2) by (intro unat_pow2) simp
  have "unat (2 ^ k - 2 :: u64) = 2 ^ k - 2" using k(2) u by (subst unat_sub) (simp_all add: word_le_nat_alt)
  then have m: "unat p mod 2 ^ k = 2 ^ k - 2" using assms(3) unat_take_bit [of k p] by simp
  have p2: "2 \<le> unat p" using m k(2) mod_less_eq_dividend [of "unat p" "2 ^ k"] by linarith
  have t0: "take_bit k (p + 2) = 0"
  proof -
    have "(unat p + 2) mod 2 ^ k = (unat p mod 2 ^ k + 2) mod 2 ^ k" by (simp add: mod_simps)
    also have "unat p mod 2 ^ k + 2 = 2 ^ k" using m k(2) by linarith
    finally have "(unat p + 2) mod 2 ^ k = 0" by simp
    then have "unat (p + 2) mod 2 ^ k = 0" using k(1) by (simp add: unat_word_ariths mod_mod_cancel)
    then show ?thesis by (simp add: unat_take_bit flip: unat_eq_0)
  qed
  have t4: "take_bit k (p - 2) = 2 ^ k - 4"
  proof -
    have "unat p - 2 = 2 ^ k * (unat p div 2 ^ k) + (2 ^ k - 4)" using m k(2) mult_div_mod_eq [of "2 ^ k" "unat p"] by linarith
    then have "(unat p - 2) mod 2 ^ k = (2 ^ k - 4) mod 2 ^ k" by (simp only: mod_mult_self4)
    then have "(unat p - 2) mod 2 ^ k = 2 ^ k - 4" by simp
    moreover have "unat (p - 2) = unat p - 2" using p2 by (subst unat_sub) (simp_all add: word_le_nat_alt)
    moreover have "unat (2 ^ k - 4 :: u64) = 2 ^ k - 4" using k(2) u by (subst unat_sub) (simp_all add: word_le_nat_alt)
    ultimately show ?thesis by (simp add: word_unat_eq_iff unat_take_bit)
  qed
  show e: "take_bit k (p - 2 + 2 ^ k) = take_bit k (p - 2)"
    using k(1) u by (simp add: word_unat_eq_iff unat_take_bit unat_word_ariths(1) mod_mod_cancel)
  have b: "x AND NOT (mask k) = x - take_bit k x" for x :: u64 using and_not_mask [of x k] by (simp add: mask_eq_exp_minus_1)
  show "line_at k mem (p + 2) = line_at k mem (p - 2 + 2 ^ k)" unfolding line_at_def b e t0 t4 by (simp add: algebra_simps)
qed

lemma next_block_aligned:
  assumes "2 \<le> k" and "k \<le> 32" and "a AND 3 = (0 :: u64)"
  shows "(a + 2 ^ k) AND 3 = 0"
proof -
  have m: "x AND 3 = take_bit 2 x" for x :: u64 by (simp add: take_bit_eq_mask mask_eq_exp_minus_1)
  have "(2 :: nat) ^ 2 dvd 2 ^ k" by (rule le_imp_power_dvd [OF assms(1)])
  then have "(unat a + 2 ^ k) mod 4 = unat a mod 4" by (auto simp: mod_add_eq [symmetric, of "unat a"] elim!: dvdE)
  moreover have "unat a mod 4 = 0" using assms(3) unat_take_bit [of 2 a] unfolding m by simp
  moreover have "unat (2 ^ k :: u64) = 2 ^ k" using assms(2) by (intro unat_pow2) simp
  ultimately have "unat (a + 2 ^ k) mod 4 = 0" by (simp add: unat_word_ariths mod_mod_cancel)
  then show ?thesis unfolding m by (simp add: unat_take_bit flip: unat_eq_0)
qed

lemma half_straddle: "half_at mem_straddle 62 = 0x0513" "half_at mem_straddle 64 = 0x10" "half_at mem_straddle 126 = 1"
  by (simp_all add: half_at_def mem_straddle_def)

lemma fetch62_inv: "fetch_inv 1 mem_straddle fetch62"
  by (simp add: fetch_inv_def fetch62_def outstanding_def trace_ok_def fetch_addr_def slot_ok_def half_straddle)

lemma exec62:
  "fetch_exec 6 mem_straddle fetch_at62 (FRecv 0 False) = Some (None, fetch_mid62)"
  "fetch_exec 6 mem_straddle fetch_mid62 (FSend None) = Some (None, fetch62)"
  "fetch_exec 6 mem_straddle fetch62 (FRecv 0 False) = Some (Some (trace62, 0x00100513), fetch_done62)"
  by code_simp+

lemma drain62: "fetch_drain 6 1 mem_straddle 3 fetch_at62 [(trace62, 0x00100513)] fetch_done62"
proof -
  have a: "fetch_allowed 1 fetch_at62 (FRecv 0 False)" "fetch_internal fetch_at62 (FRecv 0 False)" "fetch_allowed 1 fetch_mid62 (FSend None)"
    "fetch_internal fetch_mid62 (FSend None)" "fetch_allowed 1 fetch62 (FRecv 0 False)" "fetch_internal fetch62 (FRecv 0 False)"
    by (simp_all add: fetch_allowed_def fetch_internal_def fetch_at62_def fetch_mid62_def fetch62_def)
  note d = fetch_drain.more [OF a(5,6) exec62(3) fetch_drain.done]
  show ?thesis using fetch_drain.more [OF a(1,2) exec62(1) fetch_drain.more [OF a(3,4) exec62(2) d]] by (simp add: numeral_3_eq_3)
qed

lemma fetch_at62_reach: "fetch_reach 6 1 mem_straddle fetch_at62"
  by (rule fetch_reach.step [OF fetch_reach.start, of 1 "FSend (Some trace62)" _ _ None])
    (simp_all add: fetch_allowed_def trace62_def outstanding_def decompressor_new_def fetch_exec_def fetch_send_def pick_request_def
      commit_request_def fetch_at62_def)





text \<open>C37. A completing response is not safe to repeat: when the decode latch is full, the decompressor has already consumed the buffered half;
  given the same response again for an instruction that straddles two lines, it reads the last word of the second line,
  and emits what lies one line above the program counter if that is a compressed instruction.\<close>

theorem fetch_retry_wrong_line:
  assumes "2 \<le> k" and "k \<le> 32" and "fetch_inv n mem F" and "fe_fly F = [(t, a)]"
    and "needs_second (rvc_state (fe_dec F) ! ft_wid t)" and "take_bit k (ft_PC t) = 2 ^ k - 2"
    and "half_at mem (ft_PC t + 2 ^ k) AND 3 \<noteq> 3"
  shows "\<exists>F1 F2. fetch_recv k mem True F 0 = Some (None, F1) \<and>
    fetch_recv k mem False F1 0 = Some (Some (t, half_at mem (ft_PC t + 2 ^ k)), F2)"
proof -
  note I = fetch_invD [OF assms(3)]
  let ?D = "fe_dec F" and ?p = "ft_PC t"
  let ?s = "rvc_state ?D ! ft_wid t" and ?D1 = "?D\<lparr>rvc_state := (rvc_state ?D)[ft_wid t := rvc_slot0]\<rparr>"
  have t: "ft_wid t < length (rvc_state ?D)" "inst_pc ?s = ?p" "fetch_addr ?D t = Some a" "slot_ok mem ?s"
    using I(1) I(4) [of t a] I(5) [of "ft_wid t"] assms(4,5) by (auto simp: trace_ok_def)
  then have s: "even ?p" "?p AND 2 \<noteq> 0" by (simp_all add: slot_ok_def)
  have e: "?p AND NOT 3 = ?p - 2" by (rule pc_parts(2) [OF s])
  have a: "a = ?p + 2" using t assms(5) e by (auto simp: fetch_addr_def)
  have f: "fetch_recv k mem True F 0 = Some (None, F\<lparr>fe_dec := ?D1\<rparr>)"
    using rsp_second [OF assms(1,2) t(1) assms(5) t(4,2,3)] assms(4) by (simp add: fetch_recv_def)
  let ?b = "?p - 2 + 2 ^ k"
  have al: "?b AND 3 = 0"
    using next_block_aligned [OF assms(1,2) pc_parts(3) [OF s(1)]] unfolding e .
  have m: "x AND (2 ^ k - 1) = take_bit k x" for x :: u64 by (simp add: take_bit_eq_mask mask_eq_exp_minus_1)
  define x where "x = half_at mem ?b OR push_bit 16 (half_at mem (?b + 2))"
  have "line_word (line_at k mem a) (unat (ucast ((?p - 2) AND (2 ^ k - 1)) :: u32)) = Some x"
    using rsp_word [OF assms(1,2) al, of mem] next_block(1) [OF assms(1,2,6), of mem] next_block(2) [OF assms(1,2,6)] unfolding m a x_def by simp
  moreover have "drop_bit 16 x = half_at mem (?p + 2 ^ k)" unfolding x_def half_words by (simp add: algebra_simps)
  moreover have "fetch_addr ?D1 t = Some (?p - 2)" using t(1) e by (simp add: fetch_addr_def rvc_slot0_def)
  ultimately have "on_icache_rsp (2 ^ k) ?D1 t (line_at k mem a) = Some (Some (half_at mem (?p + 2 ^ k)), ?D1)"
    using t(1) s(2) assms(7) unfolding on_icache_rsp_def by (simp add: rvc_slot0_def Let_def)
  then show ?thesis using f assms(4) by (simp add: fetch_recv_def)
qed

theorem fetch_retry_witness:
  "\<exists>F1 F2. fetch_recv 6 mem_straddle True fetch62 0 = Some (None, F1) \<and>
     fetch_recv 6 mem_straddle False F1 0 = Some (Some (\<lparr>ft_wid = 0, ft_PC = 62\<rparr>, 1), F2)"
  using fetch_retry_wrong_line [of 6 1 mem_straddle fetch62 "\<lparr>ft_wid = 0, ft_PC = 62\<rparr>" 64] fetch62_inv half_straddle
  by (simp add: fetch62_def)

end
