(* ===== verification/Alu.thy ===== *)
theory Alu
  imports Instr "HOL-Library.Signed_Division"
begin

text \<open>
  The integer unit, \<open>sim/simx/alu_unit.cpp\<close>, in the 64-bit build: arithmetic and logic, multiplication and division, votes,
  shuffles, gathers and jumps. A register is the 64-bit word of the union \<open>reg_data_t\<close>; its members \<open>i32\<close> and \<open>u32\<close> are the low half.
  A shift by the width of its operand or more, and an element outside a vector, are undefined and \<open>None\<close>. Signed overflow and the left
  shift of a negative number, or of bits beyond the width, are undefined in C++17, the standard that the simulator is compiled for, unless
  the compiler is told to wrap around: \<open>wrapv\<close>, an argument of the definitions that compute with signed operands, says whether it is.
\<close>

record alu_trace =
  at_instr :: Instr
  at_wid :: nat
  at_PC :: u64
  at_tmask :: "bool list"
  at_rs1 :: "u64 list"
  at_rs2 :: "u64 list"
  at_rs3 :: "u64 list"
  at_dst :: "u64 list"

definition sext64 :: "u64 \<Rightarrow> nat \<Rightarrow> u64" where
  "sext64 word width =
     (if width = 64 then word
      else let mask = push_bit width 1 - 1
        in if drop_bit (width - 1) word AND 1 \<noteq> 0 then word OR NOT mask else word AND mask)"

definition latency_of :: "OpType \<Rightarrow> u32 option" where
  "latency_of t = (case t of
     OpAlu _ \<Rightarrow> Some 2 | OpVote _ \<Rightarrow> Some 2 | OpShfl _ \<Rightarrow> Some 2 | OpWgather \<Rightarrow> Some 2 | OpBr _ \<Rightarrow> Some 2
   | OpMdv m \<Rightarrow> Some (if m \<in> {MDV_DIV, MDV_DIVU, MDV_REM, MDV_REMU} then 64 + 2 else 2)
   | _ \<Rightarrow> None)"

text \<open>One lane. \<open>x\<close> and \<open>y\<close> are the source registers.\<close>

definition low :: "u64 \<Rightarrow> u32" where "low x = ucast x"

text \<open>The result of a signed operation, and a signed left shift.\<close>

definition signed_fits :: "nat \<Rightarrow> int \<Rightarrow> bool" where
  "signed_fits n v \<longleftrightarrow> - (2 ^ (n - 1)) \<le> v \<and> v < 2 ^ (n - 1)"

definition signed_result :: "bool \<Rightarrow> int \<Rightarrow> 'a::len word option" where
  "signed_result wrapv v = do { check (wrapv \<or> signed_fits LENGTH('a) v); Some (word_of_int v) }"

definition signed_shl :: "bool \<Rightarrow> u64 \<Rightarrow> nat \<Rightarrow> u64 option" where
  "signed_shl wrapv x k = do { check (wrapv \<or> 0 \<le> sint x \<and> sint x * 2 ^ k < 2 ^ 64); Some (push_bit k x) }"

definition shamt32 :: "IntrAluArgs \<Rightarrow> u64 \<Rightarrow> nat option" where
  "shamt32 a y = do {
     let shamt = (if alu_is_imm a then alu_imm a else low y) AND 63;
     check (shamt < 32);
     Some (unat shamt) }"

definition alu_lane :: "bool \<Rightarrow> AluType \<Rightarrow> IntrAluArgs \<Rightarrow> u64 \<Rightarrow> u64 \<Rightarrow> u64 \<Rightarrow> u64 option" where
  "alu_lane wrapv t a pc x y =
     (let imm = sext64 (ucast (alu_imm a)) 32;
          src2 = (if alu_is_imm a then imm else y);
          src2w = (if alu_is_imm a then alu_imm a else low y);
          shamt = unat (src2 AND 63)
      in case t of
        ALU_LUI \<Rightarrow> Some imm
      | ALU_AUIPC \<Rightarrow> Some (imm + pc)
      | ALU_ADD \<Rightarrow> if alu_is_w a then do { (r :: u32) \<leftarrow> signed_result wrapv (sint (low x) + sint src2w); Some (sext64 (scast r) 32) } else Some (x + src2)
      | ALU_SUB \<Rightarrow> if alu_is_w a then do { (r :: u32) \<leftarrow> signed_result wrapv (sint (low x) - sint src2w); Some (sext64 (scast r) 32) } else Some (x - src2)
      | ALU_SLT \<Rightarrow> Some (of_bool (sint x < sint src2))
      | ALU_SLTU \<Rightarrow> Some (of_bool (x < src2))
      | ALU_SLL \<Rightarrow> if alu_is_w a then do { s \<leftarrow> shamt32 a y; Some (sext64 (ucast (push_bit s (low x))) 32) } else signed_shl wrapv x shamt
      | ALU_SRA \<Rightarrow> if alu_is_w a then do { s \<leftarrow> shamt32 a y; Some (sext64 (ucast (signed_drop_bit s (low x))) 32) } else Some (signed_drop_bit shamt x)
      | ALU_SRL \<Rightarrow> if alu_is_w a then do { s \<leftarrow> shamt32 a y; Some (sext64 (ucast (drop_bit s (low x))) 32) } else Some (drop_bit shamt x)
      | ALU_AND \<Rightarrow> Some (x AND src2)
      | ALU_OR \<Rightarrow> Some (x OR src2)
      | ALU_XOR \<Rightarrow> Some (x XOR src2)
      | ALU_CZERO \<Rightarrow> Some (if of_bool (y = 0) XOR alu_imm a \<noteq> 0 then 0 else x))"

definition mulh_word :: "128 word \<Rightarrow> 128 word \<Rightarrow> u64" where
  "mulh_word first second = ucast (drop_bit 64 (first * second))"

text \<open>Division of the language truncates towards zero.\<close>

definition div_s :: "'a::len word \<Rightarrow> 'a word \<Rightarrow> 'a word" where
  "div_s x y = (if y = 0 then - 1 else if x = push_bit (LENGTH('a) - 1) 1 \<and> y = - 1 then x else word_of_int (sint x sdiv sint y))"

definition rem_s :: "'a::len word \<Rightarrow> 'a word \<Rightarrow> 'a word" where
  "rem_s x y = (if y = 0 then x else if x = push_bit (LENGTH('a) - 1) 1 \<and> y = - 1 then 0 else word_of_int (sint x smod sint y))"

definition div_u :: "'a::len word \<Rightarrow> 'a word \<Rightarrow> 'a word" where
  "div_u x y = (if y \<noteq> 0 then x div y else - 1)"

definition rem_u :: "'a::len word \<Rightarrow> 'a word \<Rightarrow> 'a word" where
  "rem_u x y = (if y \<noteq> 0 then x mod y else x)"

definition mdv_lane :: "bool \<Rightarrow> MdvType \<Rightarrow> bool \<Rightarrow> u64 \<Rightarrow> u64 \<Rightarrow> u64 option" where
  "mdv_lane wrapv t w x y = (case t of
     MDV_MUL \<Rightarrow> if w then do { (r :: u32) \<leftarrow> signed_result wrapv (sint (low x) * sint (low y)); Some (sext64 (scast r) 32) }
       else signed_result wrapv (sint x * sint y)
   | MDV_MULH \<Rightarrow> Some (mulh_word (scast x) (scast y))
   | MDV_MULHSU \<Rightarrow> Some (mulh_word (scast x) (ucast y))
   | MDV_MULHU \<Rightarrow> Some (mulh_word (ucast x) (ucast y))
   | MDV_DIV \<Rightarrow> Some (if w then sext64 (scast (div_s (low x) (low y))) 32 else div_s x y)
   | MDV_DIVU \<Rightarrow> Some (if w then sext64 (ucast (div_u (low x) (low y))) 32 else div_u x y)
   | MDV_REM \<Rightarrow> Some (if w then sext64 (scast (rem_s (low x) (low y))) 32 else rem_s x y)
   | MDV_REMU \<Rightarrow> Some (if w then sext64 (ucast (rem_u (low x) (low y))) 32 else rem_u x y))"

text \<open>All lanes. The destination starts out as zeros.\<close>

fun active_lanes :: "(nat \<Rightarrow> u64 option) \<Rightarrow> bool list \<Rightarrow> nat list \<Rightarrow> u64 list option" where
  "active_lanes f tm [] = Some []"
| "active_lanes f tm (t # ts) = do {
     b \<leftarrow> lat tm t;
     v \<leftarrow> (if b then f t else Some 0);
     vs \<leftarrow> active_lanes f tm ts;
     Some (v # vs) }"

definition alu_op :: "bool \<Rightarrow> nat \<Rightarrow> alu_trace \<Rightarrow> AluType \<Rightarrow> IntrAluArgs \<Rightarrow> u64 list option" where
  "alu_op wrapv nt tr t a = active_lanes (\<lambda>i. do { x \<leftarrow> lat (at_rs1 tr) i; y \<leftarrow> lat (at_rs2 tr) i; alu_lane wrapv t a (at_PC tr) x y }) (at_tmask tr) [0 ..< nt]"

definition mdv_op :: "bool \<Rightarrow> nat \<Rightarrow> alu_trace \<Rightarrow> MdvType \<Rightarrow> bool \<Rightarrow> u64 list option" where
  "mdv_op wrapv nt tr t w = active_lanes (\<lambda>i. do { x \<leftarrow> lat (at_rs1 tr) i; y \<leftarrow> lat (at_rs2 tr) i; mdv_lane wrapv t w x y }) (at_tmask tr) [0 ..< nt]"

text \<open>Votes: what the active lanes say, and the ballot of their predicates. A shift by 64 or more is undefined.\<close>

fun vote_scan :: "bool list \<Rightarrow> u64 list \<Rightarrow> nat list \<Rightarrow> bool \<times> bool \<times> u64 \<Rightarrow> (bool \<times> bool \<times> u64) option" where
  "vote_scan tm rs [] s = Some s"
| "vote_scan tm rs (t # ts) (yes, no, ballot) = do {
     b \<leftarrow> lat tm t;
     if \<not> b then vote_scan tm rs ts (yes, no, ballot)
     else do {
       x \<leftarrow> lat rs t;
       if x AND 1 \<noteq> 0 then do { check (t < 64); vote_scan tm rs ts (True, no, ballot OR push_bit t 1) }
       else vote_scan tm rs ts (yes, True, ballot) } }"

definition vote_op :: "nat \<Rightarrow> alu_trace \<Rightarrow> VoteType \<Rightarrow> u64 list option" where
  "vote_op nt tr v = do {
     let s = wctl_thread_start nt (at_tmask tr);
     (yes, no, ballot) \<leftarrow> vote_scan (at_tmask tr) (at_rs1 tr) [s ..< nt] (False, False, 0);
     let r = (case v of VOTE_ALL \<Rightarrow> of_bool (\<not> no) | VOTE_ANY \<Rightarrow> of_bool yes | VOTE_UNI \<Rightarrow> of_bool (\<not> yes \<or> \<not> no) | VOTE_BAL \<Rightarrow> ballot);
     Some (replicate s 0 @ replicate (nt - s) r) }"

definition shfl_lane :: "ShflType \<Rightarrow> nat \<Rightarrow> nat \<Rightarrow> u64 \<Rightarrow> int" where
  "shfl_lane s nt t bc =
     (let bval = uint (bc AND 0x3F); cval = uint (drop_bit 6 bc AND 0x3F); mask = uint (drop_bit 12 bc AND 0x3F); i = int t;
          maxLane = (i AND mask) OR (cval AND NOT mask);
          minLane = i AND mask;
          lane = (case s of SHFL_UP \<Rightarrow> i - bval | SHFL_DOWN \<Rightarrow> i + bval | SHFL_BFLY \<Rightarrow> i XOR bval | SHFL_IDX \<Rightarrow> minLane OR (bval AND NOT mask));
          pval = (if s = SHFL_UP then lane \<ge> minLane else lane \<le> maxLane);
          lane = (if pval then lane else i)
      in if lane < int nt then lane else i)"

definition shfl_op :: "nat \<Rightarrow> alu_trace \<Rightarrow> ShflType \<Rightarrow> u64 list option" where
  "shfl_op nt tr s = active_lanes (\<lambda>t. do { bc \<leftarrow> lat (at_rs2 tr) t; let l = shfl_lane s nt t bc; check (0 \<le> l); lat (at_rs1 tr) (nat l) })
     (at_tmask tr) [0 ..< nt]"

text \<open>Gather: the new value and the new mask bit of the lanes from the first active one on.\<close>

definition wgather_lane :: "alu_trace \<Rightarrow> nat \<Rightarrow> nat \<Rightarrow> nat \<Rightarrow> (u64 \<times> bool) option" where
  "wgather_lane tr src last_tid t =
     (if t mod 4 = src then Some (0, False)
      else do {
        let nominal = t - t mod 4 + src;
        live \<leftarrow> lat (at_tmask tr) nominal;
        let sl = (if live then nominal else last_tid);
        let offset = (int t - int nominal) mod 4;
        v \<leftarrow> (if offset = 1 then lat (at_rs1 tr) sl else if offset = 2 then lat (at_rs2 tr) sl
             else if offset = 3 then lat (at_rs3 tr) sl else Some 0);
        Some (v, True) })"

fun wgather_scan :: "alu_trace \<Rightarrow> nat \<Rightarrow> nat \<Rightarrow> nat list \<Rightarrow> (u64 \<times> bool) list option" where
  "wgather_scan tr src last_tid [] = Some []"
| "wgather_scan tr src last_tid (t # ts) = do { p \<leftarrow> wgather_lane tr src last_tid t; ps \<leftarrow> wgather_scan tr src last_tid ts; Some (p # ps) }"

definition wgather_op :: "nat \<Rightarrow> alu_trace \<Rightarrow> u32 \<Rightarrow> (u64 list \<times> bool list) option" where
  "wgather_op nt tr src = do {
     let s = wctl_thread_start nt (at_tmask tr);
     let last_tid = (case thread_last nt (at_tmask tr) of Some t \<Rightarrow> t | None \<Rightarrow> s);
     ps \<leftarrow> wgather_scan tr (unat src) last_tid [s ..< nt];
     Some (replicate s 0 @ map fst ps, take s (at_tmask tr) @ map snd ps @ drop nt (at_tmask tr)) }"

text \<open>Jumps and system calls, on the scheduler. The list is what a return from a trap gives back to the scoreboard.\<close>

definition br_taken :: "u32 \<Rightarrow> u64 \<Rightarrow> u64 \<Rightarrow> bool option" where
  "br_taken c x y =
     (if c = 0 then Some (x = y) else if c = 1 then Some (x \<noteq> y) else if c = 4 then Some (sint x < sint y) else if c = 5 then Some (sint x \<ge> sint y)
      else if c = 6 then Some (x < y) else if c = 7 then Some (x \<ge> y) else None)"

definition set_pc :: "sched \<Rightarrow> nat \<Rightarrow> u64 \<Rightarrow> sched option" where
  "set_pc S wid pc = do { w \<leftarrow> lat (warps S) wid; ws \<leftarrow> lset (warps S) wid (w\<lparr>wPC := pc\<rparr>); Some (S\<lparr>warps := ws\<rparr>) }"

definition br_op :: "nat \<Rightarrow> sched \<Rightarrow> u64 \<Rightarrow> alu_trace \<Rightarrow> BrType \<Rightarrow> IntrBrArgs \<Rightarrow> (u64 list \<times> nat list \<times> sched) option" where
  "br_op nt S cycle tr t a =
     (let offset = sext64 (ucast (br_offset a)) 32;
          zeros = replicate nt 0;
          link_pc = at_PC tr + (if br_is_rvc a then 2 else 4)
      in case t of
        BR_BR \<Rightarrow> do {
          l \<leftarrow> thread_last nt (at_tmask tr);
          x \<leftarrow> lat (at_rs1 tr) l;
          y \<leftarrow> lat (at_rs2 tr) l;
          b \<leftarrow> br_taken (br_cmp a) x y;
          S \<leftarrow> (if b then set_pc S (at_wid tr) (at_PC tr + offset) else Some S);
          Some (zeros, [], S) }
      | BR_JAL \<Rightarrow> do {
          d \<leftarrow> active_lanes (\<lambda>_. Some link_pc) (at_tmask tr) [0 ..< nt];
          S \<leftarrow> set_pc S (at_wid tr) (at_PC tr + offset);
          Some (d, [], S) }
      | BR_JALR \<Rightarrow> do {
          d \<leftarrow> active_lanes (\<lambda>_. Some link_pc) (at_tmask tr) [0 ..< nt];
          l \<leftarrow> thread_last nt (at_tmask tr);
          x \<leftarrow> lat (at_rs1 tr) l;
          S \<leftarrow> set_pc S (at_wid tr) (x + offset);
          Some (d, [], S) }
      | BR_SYS \<Rightarrow>
          (let f = br_offset a
           in if f = 0x000 then do { S \<leftarrow> trigger_ecall S (at_wid tr) (at_PC tr); Some (zeros, [], S) }
              else if f = 0x001 then do { S \<leftarrow> trigger_ebreak S (at_wid tr) (at_PC tr); Some (zeros, [], S) }
              else if f = 0x002 \<or> f = 0x102 \<or> f = 0x302 then do { (snap, S) \<leftarrow> mret S (at_wid tr) cycle; Some (zeros, snap, S) }
              else None))"

text \<open>\<open>execute\<close> fills the destination of the trace; a gather also changes its mask.\<close>

definition alu_execute :: "bool \<Rightarrow> nat \<Rightarrow> sched \<Rightarrow> u64 \<Rightarrow> alu_trace \<Rightarrow> (alu_trace \<times> nat list \<times> sched) option" where
  "alu_execute wrapv nt S cycle tr =
     (let i = at_instr tr
      in do {
        _ \<leftarrow> lat (warps S) (at_wid tr);
        case op_type i of
          OpAlu t \<Rightarrow> (case in_args i of ArgsAlu a \<Rightarrow> do { d \<leftarrow> alu_op wrapv nt tr t a; Some (tr\<lparr>at_dst := d\<rparr>, [], S) } | _ \<Rightarrow> None)
        | OpVote v \<Rightarrow> do { d \<leftarrow> vote_op nt tr v; Some (tr\<lparr>at_dst := d\<rparr>, [], S) }
        | OpShfl s \<Rightarrow> do { d \<leftarrow> shfl_op nt tr s; Some (tr\<lparr>at_dst := d\<rparr>, [], S) }
        | OpWgather \<Rightarrow> (case in_args i of
            ArgsWgather src \<Rightarrow> do { (d, tm) \<leftarrow> wgather_op nt tr src; Some (tr\<lparr>at_dst := d, at_tmask := tm\<rparr>, [], S) } | _ \<Rightarrow> None)
        | OpBr t \<Rightarrow> (case in_args i of
            ArgsBr a \<Rightarrow> do { (d, snap, S) \<leftarrow> br_op nt S cycle tr t a; Some (tr\<lparr>at_dst := d\<rparr>, snap, S) } | _ \<Rightarrow> None)
        | OpMdv t \<Rightarrow> (case in_args i of ArgsMdv w \<Rightarrow> do { d \<leftarrow> mdv_op wrapv nt tr t w; Some (tr\<lparr>at_dst := d\<rparr>, [], S) } | _ \<Rightarrow> None)
        | _ \<Rightarrow> None })"

text \<open>A tick: each block executes the trace at the head of its input unless its output channel is full.\<close>

record alu_block =
  ab_in :: "alu_trace list"
  ab_out :: "(alu_trace \<times> u32) list"
  ab_cap :: nat

fun alu_on_tick :: "bool \<Rightarrow> nat \<Rightarrow> u64 \<Rightarrow> alu_block list \<Rightarrow> sched \<Rightarrow> (alu_block list \<times> (nat \<times> nat list) list \<times> sched) option" where
  "alu_on_tick wrapv nt cycle [] S = Some ([], [], S)"
| "alu_on_tick wrapv nt cycle (b # bs) S =
     (case ab_in b of
        [] \<Rightarrow> do { (bs, sn, S) \<leftarrow> alu_on_tick wrapv nt cycle bs S; Some (b # bs, sn, S) }
      | tr # rest \<Rightarrow>
          if length (ab_out b) \<ge> ab_cap b then do { (bs, sn, S) \<leftarrow> alu_on_tick wrapv nt cycle bs S; Some (b # bs, sn, S) }
          else do {
            (tr', snap, S) \<leftarrow> alu_execute wrapv nt S cycle tr;
            delay \<leftarrow> latency_of (op_type (at_instr tr));
            (bs, sn, S) \<leftarrow> alu_on_tick wrapv nt cycle bs S;
            Some (b\<lparr>ab_in := rest, ab_out := ab_out b @ [(tr', delay)]\<rparr> # bs, (at_wid tr, snap) # sn, S) })"

end
