(* ===== verification/Alu_Spec.thy ===== *)
theory Alu_Spec
  imports Alu
begin

text \<open>
  The integer unit against the instruction set: the operations as functions on integers, without machine words.
  The W forms keep the low 32 bits of the result and extend their sign.
\<close>

definition rv_w :: "bool \<Rightarrow> int \<Rightarrow> int" where
  "rv_w w v = (if w then signed_take_bit 31 v else v)"

definition rv_src2 :: "IntrAluArgs \<Rightarrow> u64 \<Rightarrow> int" where
  "rv_src2 a y = (if alu_is_imm a then sint (alu_imm a) else sint y)"

definition rv_alu :: "AluType \<Rightarrow> IntrAluArgs \<Rightarrow> int \<Rightarrow> int \<Rightarrow> int \<Rightarrow> int \<Rightarrow> int" where
  "rv_alu t a pc x y s =
     (let w = alu_is_w a; n = (if w then 32 else 64); k = nat (s mod int n)
      in case t of
        ALU_LUI \<Rightarrow> sint (alu_imm a)
      | ALU_AUIPC \<Rightarrow> sint (alu_imm a) + pc
      | ALU_ADD \<Rightarrow> rv_w w (x + s)
      | ALU_SUB \<Rightarrow> rv_w w (x - s)
      | ALU_SLT \<Rightarrow> of_bool (x < s)
      | ALU_SLTU \<Rightarrow> of_bool (x mod 2 ^ 64 < s mod 2 ^ 64)
      | ALU_SLL \<Rightarrow> rv_w w (x * 2 ^ k)
      | ALU_SRA \<Rightarrow> rv_w w x div 2 ^ k
      | ALU_SRL \<Rightarrow> rv_w w (x mod 2 ^ n div 2 ^ k)
      | ALU_AND \<Rightarrow> x AND s
      | ALU_OR \<Rightarrow> x OR s
      | ALU_XOR \<Rightarrow> x XOR s
      | ALU_CZERO \<Rightarrow> if (if alu_imm a = 0 then y = 0 else if alu_imm a = 1 then y \<noteq> 0 else True) then 0 else x)"

text \<open>A W shift whose amount has bit 5 set shifts a 32-bit operand by 32 or more.\<close>

definition w_shift_fault :: "AluType \<Rightarrow> IntrAluArgs \<Rightarrow> int \<Rightarrow> bool" where
  "w_shift_fault t a s \<longleftrightarrow> alu_is_w a \<and> t \<in> {ALU_SLL, ALU_SRA, ALU_SRL} \<and> s mod 64 \<ge> 32"

text \<open>
  The operations that compute with signed operands of their width: they overflow, or shift a negative number or a one out of the word.
\<close>

definition signed_fault :: "AluType \<Rightarrow> IntrAluArgs \<Rightarrow> int \<Rightarrow> int \<Rightarrow> bool" where
  "signed_fault t a x s \<longleftrightarrow> (case t of
     ALU_ADD \<Rightarrow> alu_is_w a \<and> \<not> signed_fits 32 (rv_w True x + rv_w True s)
   | ALU_SUB \<Rightarrow> alu_is_w a \<and> \<not> signed_fits 32 (rv_w True x - rv_w True s)
   | ALU_SLL \<Rightarrow> \<not> alu_is_w a \<and> (x < 0 \<or> x * 2 ^ nat (s mod 64) \<ge> 2 ^ 64)
   | _ \<Rightarrow> False)"

definition alu_fault :: "bool \<Rightarrow> AluType \<Rightarrow> IntrAluArgs \<Rightarrow> int \<Rightarrow> int \<Rightarrow> bool" where
  "alu_fault wrapv t a x s \<longleftrightarrow> w_shift_fault t a s \<or> \<not> wrapv \<and> signed_fault t a x s"

definition mdv_fault :: "bool \<Rightarrow> MdvType \<Rightarrow> bool \<Rightarrow> int \<Rightarrow> int \<Rightarrow> bool" where
  "mdv_fault wrapv t w x y \<longleftrightarrow> \<not> wrapv \<and> t = MDV_MUL \<and> \<not> signed_fits (if w then 32 else 64) (rv_w w x * rv_w w y)"

text \<open>Multiplication and division. Signed division truncates; the overflowing quotient wraps around to the dividend.\<close>

definition rv_mdv :: "MdvType \<Rightarrow> bool \<Rightarrow> int \<Rightarrow> int \<Rightarrow> int" where
  "rv_mdv t w x y =
     (let n = (if w then 32 else 64); sx = rv_w w x; sy = rv_w w y; ux = x mod 2 ^ n; uy = y mod 2 ^ n
      in case t of
        MDV_MUL \<Rightarrow> rv_w w (x * y)
      | MDV_MULH \<Rightarrow> x * y div 2 ^ 64
      | MDV_MULHSU \<Rightarrow> x * (y mod 2 ^ 64) div 2 ^ 64
      | MDV_MULHU \<Rightarrow> (x mod 2 ^ 64) * (y mod 2 ^ 64) div 2 ^ 64
      | MDV_DIV \<Rightarrow> if sy = 0 then - 1 else rv_w w (sx sdiv sy)
      | MDV_DIVU \<Rightarrow> if uy = 0 then - 1 else rv_w w (ux div uy)
      | MDV_REM \<Rightarrow> if sy = 0 then sx else rv_w w (sx smod sy)
      | MDV_REMU \<Rightarrow> rv_w w (if uy = 0 then ux else ux mod uy))"

text \<open>Sign extension.\<close>

lemma drop_bit_and_1: "drop_bit n w AND 1 \<noteq> (0::'a::len word) \<longleftrightarrow> bit w n"
  by (simp add: and_one_eq bit_iff_odd_drop_bit mod2_eq_if)

lemma sext64_bit: "bit (sext64 w 32) n \<longleftrightarrow> n < 64 \<and> bit w (min n 31)"
proof -
  have m: "push_bit 32 1 - 1 = (mask 32 :: u64)" by (simp add: mask_eq_exp_minus_1 push_bit_eq_mult)
  show ?thesis
    unfolding sext64_def m Let_def using drop_bit_and_1 [of 31 w]
    by (auto simp: bit_simps min_def not_less le_Suc_eq dest: bit_imp_le_length) 
qed

lemma sext64_ucast: "sext64 (ucast (r::u32)) 32 = scast r"
  by (rule bit_word_eqI) (auto simp: sext64_bit bit_simps min_def)

lemma sext64_scast: "sext64 (scast (r::u32)) 32 = scast r"
  by (rule bit_word_eqI) (auto simp: sext64_bit bit_simps min_def)

lemma scast_int: "(scast (word_of_int v :: u32) :: u64) = word_of_int (rv_w True v)"
  by (rule bit_word_eqI) (auto simp: rv_w_def bit_simps min_def)

lemma low_int: "low x = word_of_int (sint x)"
  unfolding low_def by (rule bit_word_eqI) (auto simp: bit_simps min_def)

lemma sint_low: "sint (low x) = signed_take_bit 31 (sint x)"
  by (simp only: low_int signed_of_int) simp

lemma word_sint: "word_of_int (sint x) = x"
  by simp

lemma rv_src2_word: "(if alu_is_imm a then sext64 (ucast (alu_imm a)) 32 else y) = word_of_int (rv_src2 a y)"
  by (simp add: rv_src2_def sext64_ucast)

lemma rv_src2_low: "(if alu_is_imm a then alu_imm a else low y) = word_of_int (rv_src2 a y)"
  by (simp add: rv_src2_def low_int)

lemma rv_src2_sint: "sint (word_of_int (rv_src2 a y) :: u64) = rv_src2 a y"
proof -
  have "signed_take_bit 63 (sint (alu_imm a)) = sint (alu_imm a)" by (rule bit_eqI) (auto simp: bit_simps min_def)
  moreover have "signed_take_bit 63 (sint y) = sint y" by (rule bit_eqI) (auto simp: bit_simps min_def)
  ultimately show ?thesis unfolding rv_src2_def by (simp add: signed_of_int)
qed

lemma and_63: "uint (word_of_int s AND (63 :: 'a::len word)) = s mod 64" if "6 \<le> LENGTH('a)"
proof -
  have m: "(63::'a word) = mask 6" by (simp add: mask_eq_exp_minus_1)
  have "uint (word_of_int s AND mask 6 :: 'a word) = take_bit 6 s" using that by (intro bit_eqI) (auto simp only: bit_simps possible_bit_word)
  then show ?thesis unfolding m by (simp add: take_bit_eq_mod)
qed

lemma shamt_nat: "unat (word_of_int s AND (63 :: 'a::len word)) = nat (s mod 64)" if "6 \<le> LENGTH('a)"
  using and_63 [OF that, of s] by (metis nat_uint_eq)

text \<open>Arithmetic on words and on integers.\<close>

lemma sless_int: "x mod 2 ^ 64 < s mod 2 ^ 64 \<longleftrightarrow> (word_of_int x :: u64) < word_of_int s"
  by (simp add: word_less_def unsigned_of_int take_bit_eq_mod)

lemma sll_int: "push_bit k (word_of_int x :: 'a::len word) = word_of_int (x * 2 ^ k)"
  by (simp add: push_bit_eq_mult)

lemma sra_int: "signed_drop_bit k (x :: 'a::len word) = word_of_int (sint x div 2 ^ k)"
  by (metis sint_signed_drop_bit_eq drop_bit_eq_div word_sint)

lemma srl_int: "drop_bit k (word_of_int x :: 'a::len word) = word_of_int (x mod 2 ^ LENGTH('a) div 2 ^ k)"
  by (rule bit_word_eqI) (auto simp: bit_simps simp flip: drop_bit_eq_div take_bit_eq_mod)

lemma logic_int:
  "(word_of_int x AND word_of_int s :: 'a::len word) = word_of_int (x AND s)"
  "(word_of_int x OR word_of_int s :: 'a word) = word_of_int (x OR s)"
  "(word_of_int x XOR word_of_int s :: 'a word) = word_of_int (x XOR s)"
  by (rule bit_word_eqI, auto simp: bit_simps)+

lemma shamt32_spec: "shamt32 a y = (if rv_src2 a y mod 64 \<ge> 32 then None else Some (nat (rv_src2 a y mod 32)))"
proof -
  let ?s = "rv_src2 a y"
  have u: "unat (word_of_int ?s AND (63::u32)) = nat (?s mod 64)" by (rule shamt_nat) simp
  have "?s mod 32 = ?s mod 64" if "?s mod 64 < 32" using that by presburger
  then show ?thesis unfolding shamt32_def rv_src2_low Let_def
    by (auto simp: u check_def word_less_nat_alt)
qed

lemma rv_w_div: "signed_take_bit 31 (signed_take_bit 31 x div 2 ^ k) = signed_take_bit 31 x div (2::int) ^ k"
  by (rule bit_eqI) (auto simp: bit_simps min_def simp flip: drop_bit_eq_div)

lemma xor_zero_iff: "a XOR b = 0 \<longleftrightarrow> a = (b :: 'a::len word)"
  by (auto simp: bit_eq_iff bit_simps)

lemma czero_cond: "of_bool b XOR i \<noteq> (0::u32) \<longleftrightarrow> (if i = 0 then b else if i = 1 then \<not> b else True)"
  by (cases b) (auto simp: xor_zero_iff)

lemma sint_src2w: "sint (word_of_int (rv_src2 a y) :: u32) = rv_w True (rv_src2 a y)"
  by (simp add: rv_w_def signed_of_int)

lemma sint_of_low: "sint (low x) = rv_w True (sint x)"
  by (simp add: sint_low rv_w_def)

lemma rv_w_add:
  "rv_w True (rv_w True x + rv_w True s) = rv_w True (x + s)" "rv_w True (rv_w True x - rv_w True s) = rv_w True (x - s)"
  "rv_w True (rv_w True x * rv_w True s) = rv_w True (x * s)"
  by (simp_all add: rv_w_def signed_take_bit_add signed_take_bit_diff signed_take_bit_mult)

lemma signed_result_ext:
  "do { (r :: u32) \<leftarrow> signed_result wrapv v; Some (scast r :: u64) } =
    (if wrapv \<or> signed_fits 32 v then Some (word_of_int (rv_w True v)) else None)"
  by (simp add: signed_result_def check_def scast_int)

lemma alu_lane_words:
  "alu_lane wrapv t a pc x y =
     (let s = rv_src2 a y; k = nat (s mod 64); sum = (\<lambda>v. if wrapv \<or> signed_fits 32 v then Some (word_of_int (rv_w True v)) else None)
      in case t of
        ALU_LUI \<Rightarrow> Some (word_of_int (sint (alu_imm a)))
      | ALU_AUIPC \<Rightarrow> Some (word_of_int (sint (alu_imm a)) + pc)
      | ALU_ADD \<Rightarrow> if alu_is_w a then sum (rv_w True (sint x) + rv_w True s) else Some (x + word_of_int s)
      | ALU_SUB \<Rightarrow> if alu_is_w a then sum (rv_w True (sint x) - rv_w True s) else Some (x - word_of_int s)
      | ALU_SLT \<Rightarrow> Some (of_bool (sint x < s))
      | ALU_SLTU \<Rightarrow> Some (of_bool (x < word_of_int s))
      | ALU_SLL \<Rightarrow> if alu_is_w a then map_option (\<lambda>k. scast (push_bit k (low x))) (shamt32 a y) else signed_shl wrapv x k
      | ALU_SRA \<Rightarrow> if alu_is_w a then map_option (\<lambda>k. scast (signed_drop_bit k (low x))) (shamt32 a y) else Some (signed_drop_bit k x)
      | ALU_SRL \<Rightarrow> if alu_is_w a then map_option (\<lambda>k. scast (drop_bit k (low x))) (shamt32 a y) else Some (drop_bit k x)
      | ALU_AND \<Rightarrow> Some (x AND word_of_int s)
      | ALU_OR \<Rightarrow> Some (x OR word_of_int s)
      | ALU_XOR \<Rightarrow> Some (x XOR word_of_int s)
      | ALU_CZERO \<Rightarrow> Some (if (if alu_imm a = 0 then y = 0 else if alu_imm a = 1 then y \<noteq> 0 else True) then 0 else x))"
proof -
  have sh: "unat (word_of_int (rv_src2 a y) AND (63::u64)) = nat (rv_src2 a y mod 64)" by (rule shamt_nat) simp
  show ?thesis
    unfolding alu_lane_def Let_def unfolding rv_src2_word rv_src2_low
    unfolding sh sext64_ucast sext64_scast rv_src2_sint sint_src2w sint_of_low czero_cond signed_result_ext
    by (cases t; cases "shamt32 a y"; simp)
qed

lemma alu_lane_spec:
  "alu_lane wrapv t a pc x y = (if alu_fault wrapv t a (sint x) (rv_src2 a y) then None
     else Some (word_of_int (rv_alu t a (uint pc) (sint x) (uint y) (rv_src2 a y))))"
proof -
  have x: "word_of_int (sint x) = x" "word_of_int (uint pc) = pc" "uint y = 0 \<longleftrightarrow> y = 0" by (simp_all add: unsigned_eq_0_iff)
  have sra: "scast (signed_drop_bit k (low x)) = (word_of_int (rv_w True (sint x) div 2 ^ k) :: u64)" for k
    by (simp add: sra_int scast_int sint_low rv_w_def rv_w_div)
  have srl: "scast (drop_bit k (low x)) = (word_of_int (rv_w True (sint x mod 2 ^ 32 div 2 ^ k)) :: u64)" for k
    unfolding low_int srl_int scast_int by simp
  have sll: "scast (push_bit k (low x)) = (word_of_int (rv_w True (sint x * 2 ^ k)) :: u64)" for k
    unfolding low_int sll_int scast_int by simp
  have full: "push_bit k x = word_of_int (sint x * 2 ^ k)" "drop_bit k x = word_of_int (sint x mod 2 ^ 64 div 2 ^ k)" for k
    using sll_int [of k "sint x", where 'a = 64] srl_int [of k "sint x", where 'a = 64] by simp_all
  have shl: "signed_shl wrapv x k = (if \<not> wrapv \<and> (sint x < 0 \<or> sint x * 2 ^ k \<ge> 2 ^ 64) then None else Some (word_of_int (sint x * 2 ^ k)))" for k
    by (auto simp: signed_shl_def check_def full(1))
  have lu: "x < word_of_int s \<longleftrightarrow> sint x mod 2 ^ 64 < s mod 2 ^ 64" for s using sless_int [of "sint x" s] by simp
  have logic: "x AND word_of_int s = word_of_int (sint x AND s)" "x OR word_of_int s = word_of_int (sint x OR s)"
      "x XOR word_of_int s = word_of_int (sint x XOR s)" for s
    using logic_int [of "sint x" s, where 'a = 64] by simp_all
  show ?thesis
    unfolding alu_lane_words rv_alu_def alu_fault_def w_shift_fault_def signed_fault_def Let_def shamt32_spec shl rv_w_add
    by (cases t) (simp_all add: x(3) sra srl sll lu full(2) logic sra_int [of _ x] rv_w_def [of False])
qed

lemma mulh_int: "mulh_word (word_of_int x) (word_of_int y) = word_of_int (x * y div 2 ^ 64)"
proof -
  have "(ucast (drop_bit 64 (word_of_int v :: 128 word)) :: u64) = word_of_int (v div 2 ^ 64)" for v
    unfolding drop_bit_eq_div [symmetric] by (rule bit_word_eqI) (auto simp: bit_simps)
  then show ?thesis unfolding mulh_word_def by (metis of_int_mult)
qed

lemma sdiv_m1: "x sdiv - 1 = - (x::int)" "x smod - 1 = (0::int)" "x smod 1 = (0::int)"
  by (simp_all add: signed_divide_int_def signed_modulo_int_def sgn_if)

lemma neg_min_word: "- push_bit (LENGTH('a) - 1) 1 = (push_bit (LENGTH('a) - 1) 1 :: 'a::len word)"
proof -
  let ?m = "push_bit (LENGTH('a) - 1) 1 :: 'a word"
  have "?m + ?m = 2 ^ Suc (LENGTH('a) - 1)" by (simp only: push_bit_eq_mult mult_1 power_Suc mult_2)
  then have "?m + ?m = 0" by simp
  then show ?thesis by (simp only: add_eq_0_iff)
qed

lemma div_s_int: "div_s (x::'a::len word) y = (if sint y = 0 then - 1 else word_of_int (sint x sdiv sint y))"
proof (cases "y = - 1 \<and> x = push_bit (LENGTH('a) - 1) 1")
  case True
  have "sint (- 1 :: 'a word) = - 1" by simp
  then show ?thesis using True neg_min_word [where 'a = 'a] by (simp add: div_s_def sdiv_m1)
qed (auto simp: div_s_def signed_eq_0_iff)

lemma rem_s_int: "rem_s (x::'a::len word) y = word_of_int (if sint y = 0 then sint x else sint x smod sint y)"
proof (cases "y = - 1 \<and> x = push_bit (LENGTH('a) - 1) 1")
  case True
  then show ?thesis by (simp add: rem_s_def sdiv_m1)
qed (auto simp: rem_s_def signed_eq_0_iff)

lemma div_u_int: "div_u (x::'a::len word) y = (if uint y = 0 then - 1 else word_of_int (uint x div uint y))"
  by (auto simp: div_u_def word_div_def unsigned_eq_0_iff)

lemma rem_u_int: "rem_u (x::'a::len word) y = word_of_int (if uint y = 0 then uint x else uint x mod uint y)"
  by (auto simp: rem_u_def word_mod_def unsigned_eq_0_iff)

lemma uint_of_sint: "uint (x::u64) = sint x mod 2 ^ 64"
proof -
  have "uint (word_of_int (sint x) :: u64) = take_bit 64 (sint x)" by (simp only: unsigned_of_int) simp
  then show ?thesis by (simp add: take_bit_eq_mod)
qed

lemma uint_low: "uint (low x) = sint x mod 2 ^ 32"
  by (simp only: low_int unsigned_of_int) (simp add: take_bit_eq_mod)

lemma mdv_lane_spec:
  "mdv_lane wrapv t w x y = (if mdv_fault wrapv t w (sint x) (sint y) then None else Some (word_of_int (rv_mdv t w (sint x) (sint y))))"
proof -
  have m1: "scast (- 1 :: u32) = (- 1 :: u64)" by simp
  have c: "(if b then - 1 else word_of_int v) = (word_of_int (if b then - 1 else v) :: 'b::len word)" for b v by simp
  have rw: "rv_w True (if b then - 1 else v) = (if b then - 1 else rv_w True v)" for b v by (simp add: rv_w_def)
  have rs: "rv_w True (if b then signed_take_bit 31 u else v) = (if b then signed_take_bit 31 u else rv_w True v)" for b u v
    by (simp add: rv_w_def)
  have s: "(scast x :: 128 word) = word_of_int (sint x)" "(ucast x :: 128 word) = word_of_int (uint x)" for x :: u64
    by simp_all
  have mulf: "signed_result wrapv v = (if wrapv \<or> signed_fits 64 v then Some (word_of_int v :: u64) else None)" for v
    by (simp add: signed_result_def check_def)
  note w = div_s_int div_u_int rem_s_int rem_u_int c scast_int sint_low uint_low uint_of_sint
  show ?thesis
    unfolding mdv_lane_def mdv_fault_def sext64_scast sext64_ucast signed_result_ext sint_of_low rv_w_add
    by (cases t; cases w; simp only: rv_mdv_def Let_def if_True if_False MdvType.case w mulf s mulh_int rw rs rv_w_def [of False])
      (simp_all add: rv_w_def)
qed

text \<open>Lanes.\<close>

lemma active_lanes_spec:
  assumes "\<forall>t\<in>set ts. t < length tm"
  shows "active_lanes f tm ts = (if \<exists>t\<in>set ts. tm ! t \<and> f t = None then None else Some (map (\<lambda>t. if tm ! t then the (f t) else 0) ts))"
  using assms by (induction ts) (auto simp: lat_def split: Option.bind_split)

lemma thread_start_inactive: "t < wctl_thread_start nt tm \<Longrightarrow> t < nt \<and> \<not> tm ! t"
  unfolding wctl_thread_start_def
  by (auto simp: find_None_iff find_Some_iff split: option.splits if_splits)

lemma thread_start_le: "wctl_thread_start nt tm \<le> nt"
  unfolding wctl_thread_start_def by (auto simp: find_Some_iff split: option.splits)

text \<open>Votes: the scan in terms of the sets of lanes.\<close>

definition says :: "bool list \<Rightarrow> u64 list \<Rightarrow> bool \<Rightarrow> nat \<Rightarrow> bool" where
  "says tm rs b t \<longleftrightarrow> tm ! t \<and> bit (rs ! t) 0 = b"

lemma vote_scan_spec:
  assumes "\<forall>t\<in>set ts. t < length tm \<and> t < length rs \<and> t < 64"
  shows "\<exists>b. vote_scan tm rs ts (yes, no, ballot) = Some (yes \<or> (\<exists>t\<in>set ts. says tm rs True t), no \<or> (\<exists>t\<in>set ts. says tm rs False t), b) \<and>
    (\<forall>n. bit b n \<longleftrightarrow> bit ballot n \<or> (n \<in> set ts \<and> says tm rs True n))"
  using assms
proof (induction ts arbitrary: yes no ballot)
  case (Cons t ts)
  have p: "rs ! t AND 1 \<noteq> 0 \<longleftrightarrow> bit (rs ! t) 0" using drop_bit_and_1 [of 0 "rs ! t"] by simp
  have l: "\<forall>t\<in>set ts. t < length tm \<and> t < length rs \<and> t < 64" using Cons.prems by simp
  show ?case
    using Cons.prems Cons.IH [OF l, of yes no ballot] Cons.IH [OF l, of True no "ballot OR push_bit t 1"] Cons.IH [OF l, of yes True ballot]
    by (auto simp: p check_def says_def bit_simps)
qed simp

end
