(* ===== verification/Alu_Props.thy ===== *)
theory Alu_Props
  imports Alu_Spec Scheduler_Props
begin

text \<open>
  Claims about the integer unit: its lanes compute the operations of the instruction set, a vote sees the active lanes
  and no others, and an indirect jump keeps bit 0 of its target.
\<close>

definition alu_ready :: "nat \<Rightarrow> sched \<Rightarrow> alu_trace \<Rightarrow> bool" where
  "alu_ready nt S tr \<longleftrightarrow> at_wid tr < length (warps S) \<and> length (at_tmask tr) = nt \<and> length (at_rs1 tr) = nt \<and>
     length (at_rs2 tr) = nt \<and> length (at_rs3 tr) = nt"

definition vote_result :: "nat \<Rightarrow> alu_trace \<Rightarrow> VoteType \<Rightarrow> u64 \<Rightarrow> bool" where
  "vote_result nt tr v r =
     (let active = filter (\<lambda>u. at_tmask tr ! u) [0 ..< nt]; pred = (\<lambda>u. bit (at_rs1 tr ! u) 0)
      in case v of
        VOTE_ALL \<Rightarrow> r = of_bool (list_all pred active)
      | VOTE_ANY \<Rightarrow> r = of_bool (list_ex pred active)
      | VOTE_UNI \<Rightarrow> r = of_bool (list_all pred active \<or> \<not> list_ex pred active)
      | VOTE_BAL \<Rightarrow> \<forall>u < 64. bit r u = (u \<in> set (filter pred active)))"

text \<open>A warp of four threads, the second one inactive.\<close>

definition trace4 :: "Instr \<Rightarrow> alu_trace" where
  "trace4 i = \<lparr>at_instr = i, at_wid = 0, at_PC = 0x80000000, at_tmask = [True, False, True, True], at_rs1 = [0x80000001, 7, 6, 0x101],
     at_rs2 = [1, 2, 3, 0x20], at_rs3 = [0, 0, 0, 0], at_dst = []\<rparr>"

definition instr4 :: "OpType \<Rightarrow> IntrArgs \<Rightarrow> Instr" where
  "instr4 t a = set_op_type t (set_args a (instr_new 0 FU_ALU))"

lemma instr4 [simp]: "op_type (instr4 t a) = t" "in_args (instr4 t a) = a"
  by (simp_all add: instr4_def instr_setters)

lemma trace4 [simp]: "at_instr (trace4 i) = i" "at_wid (trace4 i) = 0" "at_tmask (trace4 i) = [True, False, True, True]"
  "at_rs1 (trace4 i) = [0x80000001, 7, 6, 0x101]" "at_rs2 (trace4 i) = [1, 2, 3, 0x20]" "at_PC (trace4 i) = 0x80000000"
  by (simp_all add: trace4_def)

lemma alu_ready4: "alu_ready 4 armed4 (trace4 i)"
  by (simp add: alu_ready_def trace4_def armed4_def fwd_push_wave_def fwd_arm_def sched_new_def cfg4_def Let_def)

lemma lane_bind: "i < length v \<Longrightarrow> i < length u \<Longrightarrow> do { x \<leftarrow> lat v i; y \<leftarrow> lat u i; f x y } = f (v ! i) (u ! i)"
  by simp

lemma vote_op_spec:
  assumes l: "length (at_tmask tr) = nt" "length (at_rs1 tr) = nt" and n: "nt \<le> 64"
  shows "\<exists>r. vote_op nt tr v = Some (replicate (wctl_thread_start nt (at_tmask tr)) 0 @ replicate (nt - wctl_thread_start nt (at_tmask tr)) r) \<and>
    vote_result nt tr v r"
proof -
  let ?s = "wctl_thread_start nt (at_tmask tr)" and ?says = "says (at_tmask tr) (at_rs1 tr)"
  have "\<forall>t\<in>set [?s ..< nt]. t < length (at_tmask tr) \<and> t < length (at_rs1 tr) \<and> t < 64" using l n by simp
  from vote_scan_spec [OF this, of False False 0] obtain b where
    scan: "vote_scan (at_tmask tr) (at_rs1 tr) [?s ..< nt] (False, False, 0) = Some (\<exists>t\<in>set [?s ..< nt]. ?says True t, \<exists>t\<in>set [?s ..< nt]. ?says False t, b)"
    and b: "\<And>n. bit b n \<longleftrightarrow> n \<in> set [?s ..< nt] \<and> ?says True n" by auto
  have all: "(\<exists>t\<in>set [?s ..< nt]. ?says c t) \<longleftrightarrow> (\<exists>t<nt. ?says c t)" for c
    using thread_start_inactive [of _ nt "at_tmask tr"] by (force simp: says_def not_less)
  have b': "bit b n \<longleftrightarrow> n < nt \<and> ?says True n" for n
    using b [of n] thread_start_inactive [of n nt "at_tmask tr"] by (force simp: says_def not_less)
  let ?r = "case v of VOTE_ALL \<Rightarrow> of_bool (\<not> (\<exists>t<nt. ?says False t)) | VOTE_ANY \<Rightarrow> of_bool (\<exists>t<nt. ?says True t)
    | VOTE_UNI \<Rightarrow> of_bool (\<not> (\<exists>t<nt. ?says True t) \<or> \<not> (\<exists>t<nt. ?says False t)) | VOTE_BAL \<Rightarrow> b"
  have "vote_result nt tr v ?r" unfolding vote_result_def Let_def
    by (cases v) (auto simp: list_all_iff list_ex_iff says_def b' intro!: arg_cong [where f = of_bool])
  moreover have "vote_op nt tr v = Some (replicate ?s 0 @ replicate (nt - ?s) ?r)" unfolding vote_op_def Let_def scan all by simp
  ultimately show ?thesis by blast
qed

lemma thread_last_active: "thread_last nt tm = Some l \<Longrightarrow> l < nt \<and> tm ! l"
  unfolding thread_last_def by (auto simp: find_Some_iff rev_nth)

text \<open>
  C9. The integer unit computes, in every active lane, the operation of the instruction set on integers, and
  writes zero elsewhere, unless an active lane meets undefined behaviour of the language. That is so exactly when the amount
  of a W shift has bit 5 set, since the code masks the amount of the 32-bit forms with 63, and, for a compiler
  that is not told to wrap around, when the 32-bit sum or difference of a W form overflows, or when a 64-bit left
  shift has a negative operand or moves a one out of the word.
\<close>

theorem alu_executes:
  assumes "alu_ready nt S tr" "op_type (at_instr tr) = OpAlu t" "in_args (at_instr tr) = ArgsAlu a"
  shows "alu_execute wrapv nt S cycle tr =
    (if \<exists>i\<in>set [0 ..< nt]. at_tmask tr ! i \<and> alu_fault wrapv t a (sint (at_rs1 tr ! i)) (rv_src2 a (at_rs2 tr ! i)) then None
     else Some (tr\<lparr>at_dst := map (\<lambda>i. if at_tmask tr ! i
       then word_of_int (rv_alu t a (uint (at_PC tr)) (sint (at_rs1 tr ! i)) (uint (at_rs2 tr ! i)) (rv_src2 a (at_rs2 tr ! i))) else 0) [0 ..< nt]\<rparr>, [], S))"
proof -
  have l: "\<forall>i\<in>set [0 ..< nt]. i < length (at_tmask tr)" using assms by (simp add: alu_ready_def)
  show ?thesis using assms unfolding alu_execute_def Let_def alu_op_def active_lanes_spec [OF l]
    by (auto simp: alu_ready_def alu_lane_spec)
qed

theorem alu_executes_witness:
  "alu_execute True 4 armed4 0 (trace4 (instr4 (OpAlu ALU_SLL) (alu_args False True 0))) = None \<and>
   alu_execute False 4 armed4 0 (trace4 (instr4 (OpAlu ALU_ADD) (alu_args True True 0xFFFFFFFE))) = None \<and>
   map_option (at_dst \<circ> fst) (alu_execute False 4 armed4 0 (trace4 (instr4 (OpAlu ALU_ADD) (alu_args True True 0xFFFFFFFF)))) = Some [0xFFFFFFFF80000000, 0, 5, 0x100]"
proof -
  have e: "[0..<4] = [0, 1, 2, 3 :: nat]" by (simp add: upt_rec)
  show ?thesis
    using alu_executes [OF alu_ready4, of "instr4 (OpAlu ALU_SLL) (alu_args False True 0)" ALU_SLL _ True 0]
      alu_executes [OF alu_ready4, of "instr4 (OpAlu ALU_ADD) (alu_args True True 0xFFFFFFFE)" ALU_ADD _ False 0]
      alu_executes [OF alu_ready4, of "instr4 (OpAlu ALU_ADD) (alu_args True True 0xFFFFFFFF)" ALU_ADD _ False 0]
    by (simp add: alu_args_def e alu_fault_def signed_fault_def signed_fits_def w_shift_fault_def rv_src2_def rv_alu_def rv_w_def)
qed

text \<open>
  C17. Multiplication, division and remainder: every active lane holds the product, its high half, the truncated
  quotient or the remainder of the instruction set, the results for a zero divisor and for the overflowing quotient
  included. No lane faults, with one exception: for a compiler that is not told to wrap around, the low half of
  a product is undefined when the signed product of the operands overflows.
\<close>

theorem mdv_executes:
  assumes "alu_ready nt S tr" "op_type (at_instr tr) = OpMdv t" "in_args (at_instr tr) = ArgsMdv w"
  shows "alu_execute wrapv nt S cycle tr =
    (if \<exists>i\<in>set [0 ..< nt]. at_tmask tr ! i \<and> mdv_fault wrapv t w (sint (at_rs1 tr ! i)) (sint (at_rs2 tr ! i)) then None
     else Some (tr\<lparr>at_dst := map (\<lambda>i. if at_tmask tr ! i
       then word_of_int (rv_mdv t w (sint (at_rs1 tr ! i)) (sint (at_rs2 tr ! i))) else 0) [0 ..< nt]\<rparr>, [], S))"
proof -
  have l: "\<forall>i\<in>set [0 ..< nt]. i < length (at_tmask tr)" using assms by (simp add: alu_ready_def)
  show ?thesis using assms unfolding alu_execute_def Let_def mdv_op_def active_lanes_spec [OF l]
    by (auto simp: alu_ready_def mdv_lane_spec)
qed

theorem mdv_executes_witness:
  "map_option (at_dst \<circ> fst) (alu_execute False 4 armed4 0 (trace4 (instr4 (OpMdv MDV_DIV) (ArgsMdv False)))) = Some [0x80000001, 0, 2, 8] \<and>
   map_option (at_dst \<circ> fst) (alu_execute False 4 armed4 0 (trace4 (instr4 (OpMdv MDV_MUL) (ArgsMdv True)))) = Some [0xFFFFFFFF80000001, 0, 18, 0x2020]"
proof -
  have e: "[0..<4] = [0, 1, 2, 3 :: nat]" by (simp add: upt_rec)
  show ?thesis
    using mdv_executes [OF alu_ready4, of "instr4 (OpMdv MDV_DIV) (ArgsMdv False)" MDV_DIV False False 0]
      mdv_executes [OF alu_ready4, of "instr4 (OpMdv MDV_MUL) (ArgsMdv True)" MDV_MUL True False 0]
    by (simp add: e rv_mdv_def rv_w_def signed_divide_int_def mdv_fault_def signed_fits_def)
qed

text \<open>
  C32. A vote gives the lanes from the first active one on the same answer, which depends on the predicates of the
  active lanes only: all of them, any of them, all alike, or the ballot with one bit for each active lane that says yes.
\<close>

theorem vote_counts_active:
  assumes "alu_ready nt S tr" "op_type (at_instr tr) = OpVote v" "nt \<le> 64"
  shows "\<exists>d. alu_execute wrapv nt S cycle tr = Some (tr\<lparr>at_dst := d\<rparr>, [], S) \<and> length d = nt \<and>
    (\<forall>t < nt. at_tmask tr ! t \<longrightarrow> vote_result nt tr v (d ! t))"
proof -
  let ?s = "wctl_thread_start nt (at_tmask tr)"
  obtain r where r: "vote_op nt tr v = Some (replicate ?s 0 @ replicate (nt - ?s) r)" "vote_result nt tr v r"
    using vote_op_spec [of tr nt v] assms by (auto simp: alu_ready_def)
  have "(replicate ?s 0 @ replicate (nt - ?s) r) ! t = r" if "t < nt" "at_tmask tr ! t" for t
    using that thread_start_inactive [of t nt "at_tmask tr"] by (auto simp: nth_append)
  moreover have "alu_execute wrapv nt S cycle tr = Some (tr\<lparr>at_dst := replicate ?s 0 @ replicate (nt - ?s) r\<rparr>, [], S)"
    using assms r(1) by (simp add: alu_execute_def alu_ready_def)
  ultimately show ?thesis using r(2) thread_start_le [of nt "at_tmask tr"] by (intro exI [of _ "replicate ?s 0 @ replicate (nt - ?s) r"]) simp
qed

theorem vote_counts_active_witness:
  "\<exists>d. alu_execute False 4 armed4 0 (trace4 (instr4 (OpVote VOTE_ANY) (alu_args False False 0))) =
     Some ((trace4 (instr4 (OpVote VOTE_ANY) (alu_args False False 0)))\<lparr>at_dst := d\<rparr>, [], armed4) \<and> d ! 2 = 1"
proof -
  have e: "[0..<4] = [0, 1, 2, 3 :: nat]" by (simp add: upt_rec)
  obtain d where "alu_execute False 4 armed4 0 (trace4 (instr4 (OpVote VOTE_ANY) (alu_args False False 0))) =
      Some ((trace4 (instr4 (OpVote VOTE_ANY) (alu_args False False 0)))\<lparr>at_dst := d\<rparr>, [], armed4)"
    "\<forall>t < 4. at_tmask (trace4 (instr4 (OpVote VOTE_ANY) (alu_args False False 0))) ! t \<longrightarrow>
       vote_result 4 (trace4 (instr4 (OpVote VOTE_ANY) (alu_args False False 0))) VOTE_ANY (d ! t)"
    using vote_counts_active [OF alu_ready4, of "instr4 (OpVote VOTE_ANY) (alu_args False False 0)" VOTE_ANY False 0] by auto
  moreover from this(2) have "d ! 2 = 1" by (auto simp: vote_result_def e dest!: spec [of _ 2])
  ultimately show ?thesis by blast
qed

text \<open>
  C40. An indirect jump writes the address of the next instruction, two or four bytes on, to the active lanes and
  continues the warp at the register of the last active lane plus the offset. Bit 0 of that sum is kept, where the
  instruction set clears it: a register with bit 0 set and an even offset give an odd program counter.
\<close>

theorem jalr_keeps_bit0:
  assumes "alu_ready nt S tr" "op_type (at_instr tr) = OpBr BR_JALR" "in_args (at_instr tr) = ArgsBr a"
    and "thread_last nt (at_tmask tr) = Some l"
  shows "\<exists>S'. alu_execute wrapv nt S cycle tr = Some (tr\<lparr>at_dst := map (\<lambda>i. if at_tmask tr ! i
      then at_PC tr + (if br_is_rvc a then 2 else 4) else 0) [0 ..< nt]\<rparr>, [], S') \<and>
    wPC (warps S' ! at_wid tr) = at_rs1 tr ! l + scast (br_offset a) \<and>
    (bit (at_rs1 tr ! l) 0 \<and> \<not> bit (br_offset a) 0 \<longrightarrow> bit (wPC (warps S' ! at_wid tr)) 0)"
proof -
  have l: "\<forall>i\<in>set [0 ..< nt]. i < length (at_tmask tr)" "l < length (at_rs1 tr)" "at_wid tr < length (warps S)"
    using assms thread_last_active [OF assms(4)] by (simp_all add: alu_ready_def)
  have o: "odd (x + y :: u64) \<longleftrightarrow> odd x \<noteq> odd y" for x y by simp
  have "bit (scast (br_offset a) :: u64) 0 = bit (br_offset a) 0" by (simp add: bit_simps)
  then show ?thesis using assms l
    unfolding alu_execute_def br_op_def Let_def active_lanes_spec [OF l(1)] sext64_ucast
    by (simp add: set_pc_def bit_0)
qed

theorem jalr_keeps_bit0_witness:
  "\<exists>S'. alu_execute False 4 armed4 0 (trace4 (instr4 (OpBr BR_JALR) (br_args 0 False 0))) =
     Some ((trace4 (instr4 (OpBr BR_JALR) (br_args 0 False 0)))\<lparr>at_dst := [0x80000004, 0, 0x80000004, 0x80000004]\<rparr>, [], S') \<and> wPC (warps S' ! 0) = 0x101"
proof -
  have e: "[0..<4] = [0, 1, 2, 3 :: nat]" by (simp add: upt_rec)
  show ?thesis
    using jalr_keeps_bit0 [OF alu_ready4, of "instr4 (OpBr BR_JALR) (br_args 0 False 0)" _ 3 False 0]
    by (auto simp: br_args_def e thread_last_def)
qed

end
