(* ===== verification/Spec2Isabelle.thy ===== *)
theory Spec2Isabelle
  imports Mem_Alloc_Props Scheduler_Props Cta_Threads Wctl_Props Decode_Props Fetch_Props Alu_Props
begin

text \<open>
  A verification development of a GPGPU: the functional core of its cycle-level simulator (\<open>src/sim/simx\<close>) and the parts
  of the host runtime that prepare work for it (\<open>src/sw\<close>). File names below are relative to \<open>src/\<close>.

  \<^bold>\<open>The program.\<close> A host allocates device memory and enqueues a kernel launch. The launch programs the registers of the kernel
  management unit (KMU), which walks the grid and issues one request per block, a CTA. The CTA dispatcher of a core admits a
  request to a slot and hands its warps to the warp scheduler. A warp that is scheduled is fetched through the instruction cache,
  decoded, and executed: arithmetic, votes and jumps by the integer unit, thread masks, divergence and barriers by the warp control
  unit, which calls back into the scheduler and the barrier unit; barriers may span the cores of the device.

  \<^bold>\<open>Conventions.\<close> Machine integers are words of their width, so that unsigned arithmetic wraps as in the sources. An operation that
  would fail an assertion, abort, read outside a vector, dereference a dead pointer, divide by zero or shift too far is \<open>None\<close>;
  error codes are values of a sum type. A \<open>struct\<close> or class is a record, an \<open>enum\<close> or \<open>std::variant\<close> a datatype. Signed overflow is
  undefined in C++17, for which the simulator is compiled; in the integer unit, the one place where it can occur, the argument
  \<open>wrapv\<close> says whether the compiler is told to wrap around, and the properties hold for both. Build options are fields of a
  configuration (\<open>vx_cfg\<close>, \<open>dec_cfg\<close>); XLEN is 64 and compressed instructions are on.

  \<^bold>\<open>Prelude.\<close> \<open>Prelude\<close> holds the word types, the partiality idiom (\<open>check\<close>, \<open>lat\<close>, \<open>lset\<close>) and the shared lemmas; \<open>Dll\<close> and
  \<open>Tiling\<close> are the theories of doubly linked lists over pointer fields and of ranges that tile a region.

  \<^bold>\<open>Device memory allocator\<close> (\<open>sw/common/mem_alloc.h\<close>). \<open>Mem_Alloc\<close> models each page as a store of blocks with the pointer fields
  of its three intrusive lists. \<open>Mem_Alloc_Lists\<close> states the interface of such a list as the locales \<open>intrusive_list\<close> and
  \<open>sorted_intrusive_list\<close> and interprets them on the three lists; \<open>Mem_Alloc_Page\<close>, \<open>Mem_Alloc_Inv\<close> and \<open>Mem_Alloc_Spec\<close> build the
  invariant of a page and its view as a set of ranges; \<open>Mem_Alloc_Pages\<close>, \<open>Mem_Alloc_Rep\<close> and \<open>Mem_Alloc_Release\<close> do the same
  for the allocator. \<open>Mem_Alloc_Props\<close> states what the runtime relies on as the locale \<open>range_allocator\<close>, interprets it on the model, and
  proves that allocation, reservation, release and destruction have the effect they should on the set of live ranges. The
  list walks are \<open>partial_function\<close>s, so that a cyclic list would be \<open>None\<close>; that they return is part of each property.

  \<^bold>\<open>Launch and grid walk\<close> (\<open>sw/runtime/common/queue.cpp\<close>, \<open>sim/simx/kmu\<close>). \<open>Launch\<close> is \<open>Queue::enqueue_launch\<close> up to the register
  writes; \<open>Kmu\<close> the unit. \<open>Kmu_Walk\<close> says where the walk is after any number of steps, in mixed-radix digits; \<open>Kmu_Props\<close> that every block
  is issued once, the blocks of a cluster one after another, and that the walk ends; \<open>Launch_Props\<close> that a launch makes the unit
  issue the grid that was asked for.

  \<^bold>\<open>CTA dispatcher, scheduler and CSRs\<close> (\<open>cta_dispatcher.cpp\<close>, \<open>scheduler.cpp\<close>, \<open>csr_unit.cpp\<close>). \<open>Cta_Dispatcher\<close>, \<open>Scheduler\<close> and \<open>Csr\<close>
  are the models; \<open>Cta_Dispatcher_Inv\<close> and \<open>Scheduler_Inv\<close> the invariants with one lemma per operation. \<open>Scheduler_Props\<close> lets the
  rest of the core perform any operations, in any order that the pipeline allows (\<open>sched_allowed\<close>), and proves that none of them fails;
  it also has dispatch, traps and the fragment distributor. \<open>Cta_Threads\<close> proves that lanes and thread indices of a block correspond
  one to one, and that windows of local memory are disjoint.

  \<^bold>\<open>Barriers and warp control\<close> (\<open>barrier_unit.cpp\<close>, \<open>processor.cpp\<close>, \<open>wctl_unit.cpp\<close>). \<open>Barrier\<close> and \<open>Wctl\<close> work on the cores of a
  device together, since a global barrier resumes warps of other cores. \<open>Barrier_Inv\<close> keeps every waiting warp parked;
  \<open>Barrier_Props\<close> has runs of the device, local synchronisation and the release of a global barrier; \<open>Wctl_Props\<close> divergence
  and reconvergence, the bound on the reconvergence stack, the safety of every instruction, and what a wait does with the value
  of an arrival.

  \<^bold>\<open>Fetch and decode\<close> (\<open>core.cpp\<close>, \<open>decompressor.cpp\<close>, \<open>decode.cpp\<close>, \<open>instr.h\<close>, \<open>types.h\<close>). \<open>Decompressor\<close> and \<open>Fetch\<close> model the
  expansion of compressed instructions and the fetch stage around it, with memory as a function. \<open>Fetch_Inv\<close> and \<open>Fetch_Props\<close>
  show that what reaches the decoder is what memory holds, and that every fetch under way is delivered once. The decode
  latch may be full at any response but one: a response that completes a buffered half, for which \<open>Fetch_Props\<close> shows that the code then
  goes wrong. \<open>Instr\<close> and \<open>Decode\<close> are the decoded instructions, the decoder and the decode stage; \<open>Rvc_Spec\<close>, \<open>Decode_Enc\<close> and
  \<open>Decode_Rvc\<close> compare expansion and decoding of compressed instructions with a table of the instruction set; \<open>Decode_Types\<close>,
  \<open>Decode_Print\<close> and \<open>Decode_Props\<close> treat all instructions: units, arguments within their bit fields, registers, the warps held, and the
  encodings on which the trace printer aborts.

  \<^bold>\<open>Integer unit\<close> (\<open>alu_unit.cpp\<close>). \<open>Alu\<close> is the unit with its lanes and its tick; \<open>Alu_Spec\<close> gives the operations of the instruction
  set on integers and relates each lane to them; \<open>Alu_Props\<close> lifts this to whole instructions and says exactly when an
  instruction meets undefined behaviour.

  \<^bold>\<open>This theory\<close> imports them all and connects launch, grid walk, dispatcher and lanes.

  \<^bold>\<open>Bounds.\<close> No model uses fuel: the loops are structural or bounded by the data, but for the list walks of the allocator. Side
  conditions are on the configuration (numbers of warps, threads and cores within the constants of the sources) and, for the dispatcher,
  that the threads of a block plus one warp stay below \<open>2 ^ 32\<close>, so that its counters do not wrap. The properties of the
  fetch stage take blocks of 4 bytes to 4 GB.

  \<^bold>\<open>Not modelled.\<close> The floating-point unit (its results come from SoftFloat, which is not in the sources), the tensor unit and its
  encodings, the graphics blocks, the bulk copy engine, the load-store unit with caches and memory timing, the arbitration in the
  special-function unit, the issue pipeline (scoreboard, operand collection, dispatch), whose guarantees appear as the conditions
  under which operations are performed, the wiring of clusters and sockets, debugger and simulator bindings, the RTL, the rest of the
  host runtime (threads, files, command processor) and the kernel library. Of the CSRs the performance counters are a parameter. Trace
  output and performance counters are left out throughout.
\<close>

definition launched4 :: kmu where
  "launched4 = (case enqueue_launch 4 None None (Some small_launch) kmu_new of Some (Inr k) \<Rightarrow> k | _ \<Rightarrow> kmu_new)"

lemma launched4: "enqueue_launch 4 None None (Some small_launch) kmu_new = Some (Inr launched4)" "kmu_running launched4"
  by code_simp+

text \<open>C1. A launch reaches every thread: for a host launch that passes the checks, every request that the
  kernel management unit issues is such that the core that admits it hands out the warps of the block
  and the active lanes of these warps read each thread index of the requested block exactly once.\<close>

theorem launch_threads_covered:
  assumes "launch_check i = Inr (g, b, lg)" "0 < li_ndim i" "all_pos b"
    and "unat (dim_x b) * unat (dim_y b) * unat (dim_z b) + unat (num_threads cfg) < 2 ^ 32"
    and "0 < unat (num_threads cfg)" "ucast nt = num_threads cfg"
    and "unat (dim_x lg * dim_y lg * dim_z lg) + unat (num_warps cfg) < 2 ^ 32"
    and "enqueue_launch nt krnl args (Some i) k = Some (Inr k')"
    and "kmu_drain m k' = (qs, k'')" "pending_cta D \<in> set qs"
    and "accept_cta cfg D stride slots base = Some D'" "length init = warps_of cfg (pending_cta D)"
  shows "\<exists>rs D''. issue_warps cfg init D' = Some (rs, D'') \<and> \<not> has_cta D'' \<and>
    bij_betw (lane_thread rs) (lanes_of cfg rs)
      (Some ` ({..<unat (dim_x b)} \<times> {..<unat (dim_y b)} \<times> {..<unat (dim_z b)}))"
proof -
  note q = launch_block_ok [OF assms(1-10)]
  from accepted_lanes_bij [OF q(1) assms(11,12)] show ?thesis unfolding q(2) by blast
qed

theorem launch_threads_covered_witness:
  "\<exists>D' rs D''. accept_cta cfg4 ((cta_dispatcher_new cfg4)\<lparr>pending_cta := kmu_request launched4\<rparr>) 0 4 0 = Some D' \<and>
     issue_warps cfg4 [True, True, True, True] D' = Some (rs, D'') \<and>
     bij_betw (lane_thread rs) (lanes_of cfg4 rs) (Some ` ({..<8} \<times> {..<2} \<times> {..<1}))"
proof -
  let ?D = "(cta_dispatcher_new cfg4)\<lparr>pending_cta := kmu_request launched4\<rparr>"
  obtain D' where a: "accept_cta cfg4 ?D 0 4 0 = Some D'"
    by (simp add: accept_cta_def Let_def cta_dispatcher_new_def cfg4_def)
  have d: "kmu_drain 1 launched4 = ([kmu_request launched4], kmu_advance launched4)"
    using launched4(2) by (simp add: kmu_step_def)
  have w: "warps_of cfg4 (kmu_request launched4) = 4" by code_simp
  have "\<exists>rs D''. issue_warps cfg4 [True, True, True, True] D' = Some (rs, D'') \<and> \<not> has_cta D'' \<and>
    bij_betw (lane_thread rs) (lanes_of cfg4 rs) (Some ` ({..<unat (8 :: u32)} \<times> {..<unat (2 :: u32)} \<times> {..<unat (1 :: u32)}))"
    using launch_threads_covered [OF small_launch_check _ _ _ _ _ _ launched4(1) d _ a, of "[True, True, True, True]"] w
    by (simp add: small_launch_def all_pos_def cfg4_def)
  with a show ?thesis by auto
qed

end
